(* ===== verification/Prelude.thy ===== *)
theory Prelude
  imports Main "HOL-Library.Word" "HOL-Library.Monad_Syntax"
begin

unbundle bit_operations_syntax

text \<open>
  Shared vocabulary of the development: the integer types of \<^verbatim>\<open>include/types.h\<close>, the byte
  order conversions of the host (x86-64, little endian), flat byte buffers with checked reads
  and writes, and the arithmetic of power-of-two rings.

  A function whose C counterpart may fail to return normally (an access outside its object, which
  the AddressSanitizer build aborts, a NULL dereference, an invalid \<^verbatim>\<open>free\<close>, or a loop that never
  leaves) has an option as its outermost result type: \<open>None\<close> is that failure, \<open>Some r\<close> is a
  call that returns \<open>r\<close>. C return codes, NULL results included, are part of \<open>r\<close>.
\<close>

named_theorems mem_simps \<open>lengths and reads after writes on byte buffers\<close>
named_theorems eval_simps \<open>unfolding of byte images and buffers on concrete inputs\<close>
named_theorems ring_simps \<open>index arithmetic of power-of-two rings\<close>

section \<open>Machine integers\<close>

type_synonym u8 = "8 word"
type_synonym u16 = "16 word"
type_synonym u32 = "32 word"
type_synonym u64 = "64 word"
type_synonym i32 = "32 word"
type_synonym i64 = "64 word"
type_synonym ptr = "64 word"
type_synonym bytes = "8 word list"

abbreviation (input) NULL :: ptr where
  "NULL \<equiv> 0"

section \<open>Little-endian images of words\<close>

primrec word_bytes :: "nat \<Rightarrow> 'a::len word \<Rightarrow> bytes" where
  "word_bytes 0 w = []"
| "word_bytes (Suc n) w = ucast w # word_bytes n (drop_bit 8 w)"

primrec bytes_word :: "bytes \<Rightarrow> 'a::len word" where
  "bytes_word [] = 0"
| "bytes_word (b # bs) = ucast b OR push_bit 8 (bytes_word bs)"

lemma length_word_bytes [simp, mem_simps]: "length (word_bytes n w) = n"
  by (induction n arbitrary: w) auto

lemma bytes_word_word_bytes: "bytes_word (word_bytes n w) = take_bit (8 * n) w"
proof (induction n arbitrary: w)
  case 0
  then show ?case by simp
next
  case (Suc n)
  show ?case
    by (rule bit_word_eqI) (auto simp: Suc bit_simps not_less)
qed

lemma bytes_word_roundtrip:
  "LENGTH('a) \<le> 8 * n \<Longrightarrow> bytes_word (word_bytes n w) = (w :: 'a::len word)"
  by (simp add: bytes_word_word_bytes take_bit_word_eq_self)

lemma bytes_word_roundtrip_u16 [simp]: "bytes_word (word_bytes 2 w) = (w :: u16)"
  by (rule bytes_word_roundtrip) simp

lemma bytes_word_roundtrip_u32 [simp]: "bytes_word (word_bytes 4 w) = (w :: u32)"
  by (rule bytes_word_roundtrip) simp

lemma bytes_word_roundtrip_u64 [simp]: "bytes_word (word_bytes 8 w) = (w :: u64)"
  by (rule bytes_word_roundtrip) simp

lemma word_bytes_bytes_word:
  "8 * length bs \<le> LENGTH('a) \<Longrightarrow> word_bytes (length bs) (bytes_word bs :: 'a::len word) = bs"
proof (induction bs)
  case Nil
  then show ?case by simp
next
  case (Cons b bs)
  have lo: "ucast (ucast b OR push_bit 8 (bytes_word bs :: 'a word)) = b"
    using Cons.prems by (intro bit_word_eqI) (auto simp: bit_simps)
  have hi: "drop_bit 8 (ucast b OR push_bit 8 (bytes_word bs :: 'a word))
      = take_bit (LENGTH('a) - 8) (bytes_word bs :: 'a word)"
    by (rule bit_word_eqI) (auto simp: bit_simps dest: bit_imp_le_length)
  have len: "8 * length bs \<le> LENGTH('a) - 8"
    using Cons.prems by simp
  have "take_bit (8 * length bs) (bytes_word bs :: 'a word) = bytes_word bs"
    using Cons.IH Cons.prems bytes_word_word_bytes [of "length bs" "bytes_word bs :: 'a word"] by simp
  then have "take_bit (LENGTH('a) - 8) (bytes_word bs :: 'a word) = bytes_word bs"
    using len by (metis (no_types) take_bit_take_bit min.absorb2)
  with lo hi Cons show ?case by simp
qed

lemma word_bytes_numeral [eval_simps]:
  "word_bytes (numeral k) w = ucast w # word_bytes (pred_numeral k) (drop_bit 8 w)"
  by (simp add: numeral_eq_Suc)

lemma port_back [simp]: "ucast (ucast (w :: u16) :: u32) = w"
  by (rule bit_word_eqI) (auto simp: bit_simps dest: bit_imp_le_length)

section \<open>Network byte order\<close>

definition bswap16 :: "u16 \<Rightarrow> u16" where
  "bswap16 x = bytes_word (rev (word_bytes 2 x))"

definition bswap32 :: "u32 \<Rightarrow> u32" where
  "bswap32 x = bytes_word (rev (word_bytes 4 x))"

abbreviation (input) htons :: "u16 \<Rightarrow> u16" where "htons \<equiv> bswap16"
abbreviation (input) ntohs :: "u16 \<Rightarrow> u16" where "ntohs \<equiv> bswap16"
abbreviation (input) htonl :: "u32 \<Rightarrow> u32" where "htonl \<equiv> bswap32"
abbreviation (input) ntohl :: "u32 \<Rightarrow> u32" where "ntohl \<equiv> bswap32"

lemma word_bytes_bswap16: "word_bytes 2 (bswap16 x) = rev (word_bytes 2 x)"
  using word_bytes_bytes_word [of "rev (word_bytes 2 x)", where 'a = 16]
  by (simp add: bswap16_def)

lemma word_bytes_bswap32: "word_bytes 4 (bswap32 x) = rev (word_bytes 4 x)"
  using word_bytes_bytes_word [of "rev (word_bytes 4 x)", where 'a = 32]
  by (simp add: bswap32_def)

lemma bswap16_bswap16 [simp]: "bswap16 (bswap16 x) = x"
  by (subst (1) bswap16_def) (simp add: word_bytes_bswap16)

lemma bswap32_bswap32 [simp]: "bswap32 (bswap32 x) = x"
  by (subst (1) bswap32_def) (simp add: word_bytes_bswap32)

section \<open>Byte buffers\<close>

text \<open>
  A buffer is the list of its bytes. \<open>mread\<close> and \<open>mwrite\<close> are \<^verbatim>\<open>memcpy\<close> out of and into a
  buffer; both are \<open>None\<close> when the range does not lie inside the buffer.
\<close>

definition splice :: "'a list \<Rightarrow> nat \<Rightarrow> 'a list \<Rightarrow> 'a list" where
  "splice bs off d = take off bs @ d @ drop (off + length d) bs"

definition mread :: "'a list \<Rightarrow> nat \<Rightarrow> nat \<Rightarrow> 'a list option" where
  "mread bs off n = (if off + n \<le> length bs then Some (take n (drop off bs)) else None)"

definition mwrite :: "'a list \<Rightarrow> nat \<Rightarrow> 'a list \<Rightarrow> 'a list option" where
  "mwrite bs off d = (if off + length d \<le> length bs then Some (splice bs off d) else None)"

definition get_word :: "nat \<Rightarrow> bytes \<Rightarrow> nat \<Rightarrow> 'a::len word option" where
  "get_word n bs off = map_option bytes_word (mread bs off n)"

abbreviation get_u8 :: "bytes \<Rightarrow> nat \<Rightarrow> u8 option" where "get_u8 \<equiv> get_word 1"
abbreviation get_u16 :: "bytes \<Rightarrow> nat \<Rightarrow> u16 option" where "get_u16 \<equiv> get_word 2"
abbreviation get_u32 :: "bytes \<Rightarrow> nat \<Rightarrow> u32 option" where "get_u32 \<equiv> get_word 4"
abbreviation get_u64 :: "bytes \<Rightarrow> nat \<Rightarrow> u64 option" where "get_u64 \<equiv> get_word 8"

abbreviation put_u8 :: "bytes \<Rightarrow> nat \<Rightarrow> u8 \<Rightarrow> bytes option" where
  "put_u8 bs off w \<equiv> mwrite bs off (word_bytes 1 w)"
abbreviation put_u16 :: "bytes \<Rightarrow> nat \<Rightarrow> u16 \<Rightarrow> bytes option" where
  "put_u16 bs off w \<equiv> mwrite bs off (word_bytes 2 w)"
abbreviation put_u32 :: "bytes \<Rightarrow> nat \<Rightarrow> u32 \<Rightarrow> bytes option" where
  "put_u32 bs off w \<equiv> mwrite bs off (word_bytes 4 w)"

lemma length_splice [simp, mem_simps]:
  "off + length d \<le> length bs \<Longrightarrow> length (splice bs off d) = length bs"
  by (simp add: splice_def)

lemma mwrite_eq_Some [mem_simps]:
  "mwrite bs off d = Some bs' \<longleftrightarrow> off + length d \<le> length bs \<and> bs' = splice bs off d"
  by (auto simp: mwrite_def)

lemma mread_eq_Some [mem_simps]:
  "mread bs off n = Some d \<longleftrightarrow> off + n \<le> length bs \<and> d = take n (drop off bs)"
  by (auto simp: mread_def)

lemma length_mwrite: "mwrite bs off d = Some bs' \<Longrightarrow> length bs' = length bs"
  by (auto simp: mem_simps)

lemma take_drop_splice_same [mem_simps]:
  "off + length d \<le> length bs \<Longrightarrow> take (length d) (drop off (splice bs off d)) = d"
  by (simp add: splice_def)

lemma take_drop_splice_before [mem_simps]:
  assumes "off' + n \<le> off" and "off + length d \<le> length bs"
  shows "take n (drop off' (splice bs off d)) = take n (drop off' bs)"
proof -
  have "drop off' (splice bs off d) = drop off' (take off bs) @ d @ drop (off + length d) bs"
    using assms by (simp add: splice_def)
  then show ?thesis
    using assms by (simp add: drop_take)
qed

lemma take_drop_splice_after [mem_simps]:
  assumes "off + length d \<le> off'" and "off + length d \<le> length bs"
  shows "take n (drop off' (splice bs off d)) = take n (drop off' bs)"
  using assms by (simp add: splice_def)

lemma mread_splice_same:
  "off + length d \<le> length bs \<Longrightarrow> mread (splice bs off d) off (length d) = Some d"
  by (simp add: mread_def mem_simps)

lemma mread_splice_other:
  assumes "off + length d \<le> length bs" and "off' + n \<le> off \<or> off + length d \<le> off'"
  shows "mread (splice bs off d) off' n = mread bs off' n"
  using assms by (auto simp: mread_def mem_simps)

lemma mread_splice_inside:
  assumes "off + length d \<le> length bs" and "i + n \<le> length d"
  shows "mread (splice bs off d) (off + i) n = mread d i n"
  using assms by (simp add: mread_def splice_def)

lemma get_word_splice_other:
  assumes "off + length d \<le> length bs" and "off' + n \<le> off \<or> off + length d \<le> off'"
  shows "get_word n (splice bs off d) off' = get_word n bs off'"
  using assms by (simp add: get_word_def mread_splice_other)

lemma get_word_Some_iff: "(\<exists>w. get_word n bs off = Some w) \<longleftrightarrow> off + n \<le> length bs"
  by (auto simp: get_word_def mread_def)

lemma get_word_None_iff: "get_word n bs off = None \<longleftrightarrow> length bs < off + n"
  by (auto simp: get_word_def mread_def)

lemma get_word_in: "off + n \<le> length bs \<Longrightarrow> get_word n bs off = Some (bytes_word (take n (drop off bs)))"
  by (simp add: get_word_def mread_def)

section \<open>Power-of-two rings\<close>

text \<open>
  Free-running counters of width \<open>LENGTH('a)\<close> index a ring of \<open>2 ^ k\<close> slots through
  \<open>pos AND mask\<close>. The wrap-around of the counter is invisible because \<open>2 ^ k\<close> divides
  \<open>2 ^ LENGTH('a)\<close>.
\<close>

lemma unat_ucast_up:
  "LENGTH('a) \<le> LENGTH('b) \<Longrightarrow> unat (ucast (x :: 'a::len word) :: 'b::len word) = unat x"
  by (metis take_bit_nat_eq_self unsigned_ucast_eq unsigned_less order_less_le_trans power_increasing one_le_numeral)

lemma unat_ucast_u64 [simp]: "unat (ucast (x :: u32) :: u64) = unat x"
  by (rule unat_ucast_up) simp

lemma unat_drop_bit_div: "unat (drop_bit k x :: 'a::len word) = unat x div 2 ^ k"
  using unat_drop_bit_eq [of k x] by (simp only: drop_bit_eq_div [of k "unat x"])

lemma unat_suc_word:
  assumes "Suc (unat x) < 2 ^ LENGTH('a)"
  shows "unat (x + 1 :: 'a::len word) = Suc (unat x)"
  using assms by (simp add: unat_word_ariths)

lemma unat_two_power:
  assumes "k < LENGTH('a)"
  shows "unat (2 ^ k :: 'a::len word) = 2 ^ k"
proof -
  have "(2::nat) ^ k < 2 ^ LENGTH('a)" using assms by (intro power_strict_increasing) auto
  then have "unat (of_nat (2 ^ k) :: 'a word) = 2 ^ k" by (simp only: unat_of_nat mod_less)
  then show ?thesis by simp
qed

lemma unat_mask_word:
  assumes "k < LENGTH('a)"
  shows "unat (mask k :: 'a::len word) = 2 ^ k - 1"
proof -
  have "(2 ^ k :: 'a word) \<noteq> 0"
    using unat_two_power [OF assms] by (metis unat_0 power_not_zero zero_neq_numeral)
  then show ?thesis
    by (simp only: mask_eq_exp_minus_1 unat_minus_one unat_two_power [OF assms] not_False_eq_True)
qed

lemma and_not_mask_unat:
  assumes "k < LENGTH('a)"
  shows "unat (x AND NOT (mask k) :: 'a::len word) = unat x div 2 ^ k * 2 ^ k"
proof -
  have eq: "x AND NOT (mask k) = push_bit k (drop_bit k x)"
    by (rule bit_word_eqI) (auto simp: bit_simps)
  have d: "unat (drop_bit k x) = unat x div 2 ^ k"
    using unat_drop_bit_eq [of k x] by (simp only: drop_bit_eq_div [of k "unat x"])
  have "unat x < 2 ^ LENGTH('a)" by (rule unsigned_less)
  then have "unat x div 2 ^ k * 2 ^ k < 2 ^ LENGTH('a)"
    using div_times_less_eq_dividend [of "unat x" "2 ^ k"] by linarith
  then show ?thesis
    by (simp only: eq push_bit_eq_mult unat_word_ariths(2) d unat_two_power [OF assms] mod_less)
qed

lemma unat_add_of_nat_mod:
  assumes "k \<le> LENGTH('a)"
  shows "unat (t + of_nat i :: 'a::len word) mod 2 ^ k = (unat t + i) mod 2 ^ k"
proof -
  have "(2::nat) ^ k dvd 2 ^ LENGTH('a)"
    using assms by (rule le_imp_power_dvd)
  then show ?thesis
    by (simp add: unat_word_ariths unat_of_nat mod_mod_cancel mod_add_right_eq)
qed

lemma unat_and_mask [ring_simps]:
  "unat (x AND mask k :: 'a::len word) = unat x mod 2 ^ k"
proof -
  have "unat (x AND mask k) = take_bit k (unat x)"
    by (simp only: take_bit_eq_mask [symmetric] unsigned_take_bit_eq)
  then show ?thesis by (simp only: take_bit_eq_mod)
qed

lemma unat_ring_index [ring_simps]:
  assumes "k \<le> LENGTH('a)"
  shows "unat ((t + of_nat i) AND mask k :: 'a::len word) = (unat t + i) mod 2 ^ k"
  using assms by (simp add: unat_and_mask unat_add_of_nat_mod)

definition ring_list :: "'a list \<Rightarrow> nat \<Rightarrow> nat \<Rightarrow> 'a list" where
  "ring_list xs t n = map (\<lambda>i. xs ! ((t + i) mod length xs)) [0..<n]"

lemma length_ring_list [simp]: "length (ring_list xs t n) = n"
  by (simp add: ring_list_def)

lemma ring_list_0 [simp]: "ring_list xs t 0 = []"
  by (simp add: ring_list_def)

lemma nth_ring_list: "i < n \<Longrightarrow> ring_list xs t n ! i = xs ! ((t + i) mod length xs)"
  by (simp add: ring_list_def)

lemma ring_slot_inj:
  fixes t :: nat
  assumes "i < m" "j < m" "(t + i) mod m = (t + j) mod m"
  shows "i = j"
proof (cases "i \<le> j")
  case True
  then have "m dvd j - i"
    using assms(3) mod_eq_dvd_iff_nat [of "t + i" "t + j" m] by simp
  with True assms(2) show ?thesis by (auto dest: dvd_imp_le)
next
  case False
  then have "m dvd i - j"
    using assms(3) mod_eq_dvd_iff_nat [of "t + j" "t + i" m] by simp
  with False assms(1) show ?thesis by (auto dest: dvd_imp_le)
qed

lemma ring_list_Suc: "ring_list xs t (Suc n) = xs ! (t mod length xs) # ring_list xs (Suc t) n"
  by (rule nth_equalityI) (auto simp: nth_ring_list nth_Cons split: nat.splits)

lemma ring_list_snoc: "ring_list xs t (Suc n) = ring_list xs t n @ [xs ! ((t + n) mod length xs)]"
  by (simp add: ring_list_def)

lemma ring_list_mod: "t mod length xs = t' mod length xs \<Longrightarrow> ring_list xs t n = ring_list xs t' n"
  by (simp add: ring_list_def) (metis mod_add_left_eq)

lemma ring_list_update_outside:
  assumes "n \<le> j" "j < length xs"
  shows "ring_list (xs[(t + j) mod length xs := v]) t n = ring_list xs t n"
proof (rule nth_equalityI)
  show "length (ring_list (xs[(t + j) mod length xs := v]) t n) = length (ring_list xs t n)"
    by simp
next
  fix i
  assume "i < length (ring_list (xs[(t + j) mod length xs := v]) t n)"
  then have i: "i < n" by simp
  then have "(t + j) mod length xs \<noteq> (t + i) mod length xs"
    using assms ring_slot_inj [of j "length xs" i t] by auto
  with i show "ring_list (xs[(t + j) mod length xs := v]) t n ! i = ring_list xs t n ! i"
    by (simp add: nth_ring_list)
qed

lemma ring_list_push:
  assumes "n < length xs"
  shows "ring_list (xs[(t + n) mod length xs := v]) t (Suc n) = ring_list xs t n @ [v]"
proof -
  from assms have "(t + n) mod length xs < length xs"
    by (intro mod_less_divisor) linarith
  then show ?thesis
    using assms by (simp add: ring_list_snoc ring_list_update_outside)
qed

lemma ring_list_all_slots:
  assumes "j < length xs"
  shows "\<exists>i < length xs. j = (t + i) mod length xs"
proof -
  let ?m = "length xs"
  have m: "0 < ?m" using assms by linarith
  let ?i = "(j + (?m - t mod ?m)) mod ?m"
  have "(t + ?i) mod ?m = (t mod ?m + (j + (?m - t mod ?m))) mod ?m"
    by (metis mod_add_eq mod_mod_trivial)
  also have "t mod ?m + (j + (?m - t mod ?m)) = j + ?m"
    using mod_less_divisor [OF m, of t] by linarith
  finally have "(t + ?i) mod ?m = j" using assms by simp
  moreover have "?i < ?m" using m by simp
  ultimately show ?thesis by metis
qed

section \<open>What a computation ensures\<close>

text \<open>
  \<open>ensures m P\<close>: if \<open>m\<close> returns, its result satisfies \<open>P\<close>. The rules follow the structure of a do-block.
\<close>

definition ensures :: "'a option \<Rightarrow> ('a \<Rightarrow> bool) \<Rightarrow> bool" where
  "ensures m P \<longleftrightarrow> (\<forall>x. m = Some x \<longrightarrow> P x)"

named_theorems ensures_rules

lemma ensures_bind [ensures_rules]: "(\<And>x. m = Some x \<Longrightarrow> ensures (k x) P) \<Longrightarrow> ensures (Option.bind m k) P"
  by (cases m) (auto simp: ensures_def)

lemma ensures_if [ensures_rules]: "(b \<Longrightarrow> ensures m P) \<Longrightarrow> (\<not> b \<Longrightarrow> ensures n P) \<Longrightarrow> ensures (if b then m else n) P"
  by simp

lemma ensures_split [ensures_rules]: "(\<And>x y. p = (x, y) \<Longrightarrow> ensures (k x y) P) \<Longrightarrow> ensures (case p of (x, y) \<Rightarrow> k x y) P"
  by (cases p) simp

lemma ensures_let [ensures_rules]: "ensures (k t) P \<Longrightarrow> ensures (Let t k) P"
  by simp

lemma ensures_Some [ensures_rules]: "P x \<Longrightarrow> ensures (Some x) P"
  by (simp add: ensures_def)

lemma ensuresD: "ensures m P \<Longrightarrow> m = Some x \<Longrightarrow> P x"
  by (simp add: ensures_def)

end
