(* ===== verification/Rng.thy ===== *)
theory Rng
  imports Prelude
begin

unbundle bit_operations_syntax

text \<open>
  Random numbers (\<^verbatim>\<open>include/random.h\<close>): single numbers straight from \<^verbatim>\<open>getrandom\<close>
  (\<^verbatim>\<open>src/get_random_u*.c\<close>, \<^verbatim>\<open>src/random.c\<close>) and numbers cut from a buffer of 1024 bytes that is refilled when
  it is used up (\<^verbatim>\<open>src/generate_random_buffer.c\<close>, \<^verbatim>\<open>src/get_random_from_buffer_u*.c\<close>). The answers of the
  system call are part of the state: \<open>rnd_os\<close> lists them in the order of the calls, \<open>None\<close> for \<open>-1\<close>,
  \<open>Some bs\<close> for a call that wrote \<open>bs\<close> and returned its length. Once the list is used up, calls fail.
\<close>

section \<open>State and system call\<close>

abbreviation (input) RANDOM_BUFFER_SIZE :: nat where "RANDOM_BUFFER_SIZE \<equiv> 1024"

record random_state =
  rnd_buffer :: bytes
  rnd_head :: u32
  rnd_os :: "bytes option list"

fun getrandom :: "nat \<Rightarrow> random_state \<Rightarrow> bytes option \<times> random_state" where
  "getrandom n st = (case rnd_os st of
      [] \<Rightarrow> (None, st)
    | r # rs \<Rightarrow> (map_option (take n) r, st\<lparr>rnd_os := rs\<rparr>))"

text \<open>The state of the program when it starts.\<close>

definition random_start :: "bytes option list \<Rightarrow> random_state" where
  "random_start os = \<lparr>rnd_buffer = replicate RANDOM_BUFFER_SIZE 0, rnd_head = 0, rnd_os = os\<rparr>"

section \<open>Operations\<close>

text \<open>\<open>random_word n\<close> is the common body of the three functions: an error or a short read yields 0.\<close>

definition random_word :: "nat \<Rightarrow> random_state \<Rightarrow> 'a::len word \<times> random_state" where
  "random_word n st =
     (case getrandom n st of
        (None, st') \<Rightarrow> (0, st')
      | (Some bs, st') \<Rightarrow> (if length bs \<noteq> n then 0 else bytes_word bs, st'))"

definition get_random_u16 :: "random_state \<Rightarrow> u16 \<times> random_state" where
  "get_random_u16 = random_word 2"

definition get_random_u32 :: "random_state \<Rightarrow> u32 \<times> random_state" where
  "get_random_u32 = random_word 4"

definition get_random_u64 :: "random_state \<Rightarrow> u64 \<times> random_state" where
  "get_random_u64 = random_word 8"

text \<open>\<^verbatim>\<open>get_random\<close> returns nothing: after an error the buffer keeps its bytes, after a short read its rest.\<close>

definition get_random :: "bytes \<Rightarrow> random_state \<Rightarrow> bytes \<times> random_state" where
  "get_random buf st =
     (case getrandom (length buf) st of
        (None, st') \<Rightarrow> (buf, st')
      | (Some bs, st') \<Rightarrow> (bs @ drop (length bs) buf, st'))"

definition generate_random_buffer :: "random_state \<Rightarrow> random_state" where
  "generate_random_buffer st =
     (let st = st\<lparr>rnd_head := 0\<rparr>; (buf, st) = get_random (rnd_buffer st) st in st\<lparr>rnd_buffer := buf\<rparr>)"

definition buffer_has :: "u64 \<Rightarrow> random_state \<Rightarrow> bool" where
  "buffer_has n st \<longleftrightarrow> of_nat RANDOM_BUFFER_SIZE - ucast (rnd_head st) \<ge> n"

definition buffer_take :: "nat \<Rightarrow> random_state \<Rightarrow> ('a::len word \<times> random_state) option" where
  "buffer_take n st =
     do { w \<leftarrow> get_word n (rnd_buffer st) (unat (rnd_head st));
          Some (w, st\<lparr>rnd_head := rnd_head st + of_nat n\<rparr>) }"

lemma head_getrandom: "rnd_head (snd (getrandom n st)) = rnd_head st"
  by (cases "rnd_os st") auto

lemma head_generate [simp]: "rnd_head (generate_random_buffer st) = 0"
  by (cases "rnd_os st") (auto simp: generate_random_buffer_def get_random_def Let_def split: option.splits prod.splits)

lemma buffer_has_generate: "n \<le> 1024 \<Longrightarrow> buffer_has n (generate_random_buffer st)"
  by (simp add: buffer_has_def)

function get_random_from_buffer_u16 :: "random_state \<Rightarrow> (u16 \<times> random_state) option" where
  "get_random_from_buffer_u16 st =
     (if buffer_has 2 st then buffer_take 2 st else get_random_from_buffer_u16 (generate_random_buffer st))"
  by pat_completeness auto
termination by (relation "measure (\<lambda>st. if buffer_has 2 st then 0 else 1)") (auto simp: buffer_has_generate)

function get_random_from_buffer_u32 :: "random_state \<Rightarrow> (u32 \<times> random_state) option" where
  "get_random_from_buffer_u32 st =
     (if buffer_has 4 st then buffer_take 4 st else get_random_from_buffer_u32 (generate_random_buffer st))"
  by pat_completeness auto
termination by (relation "measure (\<lambda>st. if buffer_has 4 st then 0 else 1)") (auto simp: buffer_has_generate)

function get_random_from_buffer_u64 :: "random_state \<Rightarrow> (u64 \<times> random_state) option" where
  "get_random_from_buffer_u64 st =
     (if buffer_has 8 st then buffer_take 8 st else get_random_from_buffer_u64 (generate_random_buffer st))"
  by pat_completeness auto
termination by (relation "measure (\<lambda>st. if buffer_has 8 st then 0 else 1)") (auto simp: buffer_has_generate)

declare get_random_from_buffer_u16.simps [simp del] get_random_from_buffer_u32.simps [simp del]
  get_random_from_buffer_u64.simps [simp del]

section \<open>Invariant\<close>

definition rnd_inv :: "random_state \<Rightarrow> bool" where
  "rnd_inv st \<longleftrightarrow> length (rnd_buffer st) = RANDOM_BUFFER_SIZE \<and> unat (rnd_head st) \<le> RANDOM_BUFFER_SIZE"

lemma rnd_inv_start: "rnd_inv (random_start os)"
  by (simp add: rnd_inv_def random_start_def)

lemma buffer_getrandom: "rnd_buffer (snd (getrandom n st)) = rnd_buffer st"
  by (cases "rnd_os st") auto

lemma random_word_inv: "rnd_inv st \<Longrightarrow> rnd_inv (snd (random_word n st))"
  using head_getrandom [of n st] buffer_getrandom [of n st]
  by (auto simp: random_word_def rnd_inv_def split: option.splits prod.splits)

lemma rnd_inv_generate: "length (rnd_buffer st) = 1024 \<Longrightarrow> rnd_inv (generate_random_buffer st)"
  by (cases "rnd_os st")
    (auto simp: rnd_inv_def generate_random_buffer_def get_random_def Let_def map_option_case split: option.splits prod.splits)

lemma buffer_has_room:
  assumes "rnd_inv st" "n \<le> 1024"
  shows "buffer_has (of_nat n) st \<longleftrightarrow> unat (rnd_head st) + n \<le> 1024"
proof -
  have h: "unat (ucast (rnd_head st) :: u64) \<le> unat (1024 :: u64)" using assms(1) by (simp add: rnd_inv_def)
  then have "unat (1024 - ucast (rnd_head st) :: u64) = 1024 - unat (rnd_head st)"
    by (subst unat_sub) (simp_all add: word_le_nat_alt)
  moreover have "unat (of_nat n :: u64) = n" using assms(2) by (simp add: unat_of_nat)
  ultimately show ?thesis using assms by (auto simp: buffer_has_def word_le_nat_alt rnd_inv_def)
qed

lemma buffer_take_ok:
  assumes "rnd_inv st" "unat (rnd_head st) + n \<le> 1024"
  shows "\<exists>st'. buffer_take n st = Some (bytes_word (take n (drop (unat (rnd_head st)) (rnd_buffer st))), st')
    \<and> rnd_inv st' \<and> unat (rnd_head st') = unat (rnd_head st) + n \<and> rnd_buffer st' = rnd_buffer st \<and> rnd_os st' = rnd_os st"
proof -
  have "unat (of_nat n :: u32) = n" using assms(2) by (simp add: unat_of_nat)
  then have "unat (rnd_head st + of_nat n) = unat (rnd_head st) + n" using assms(2) by (simp add: unat_word_ariths)
  then show ?thesis using assms by (simp add: buffer_take_def get_word_in rnd_inv_def)
qed

text \<open>The three functions are one function of the width.\<close>

definition from_buffer :: "nat \<Rightarrow> random_state \<Rightarrow> ('a::len word \<times> random_state) option" where
  "from_buffer n st = buffer_take n (if buffer_has (of_nat n) st then st else generate_random_buffer st)"

lemma from_buffer_eqs:
  "get_random_from_buffer_u16 = from_buffer 2" "get_random_from_buffer_u32 = from_buffer 4"
  "get_random_from_buffer_u64 = from_buffer 8"
  by (simp_all add: fun_eq_iff from_buffer_def get_random_from_buffer_u16.simps get_random_from_buffer_u32.simps
      get_random_from_buffer_u64.simps buffer_has_generate)

lemma from_buffer_ok:
  assumes "rnd_inv st" "n \<le> 1024"
  shows "\<exists>w st'. from_buffer n st = Some (w, st') \<and> rnd_inv st'"
proof (cases "buffer_has (of_nat n) st")
  case True
  then show ?thesis
    using buffer_take_ok [OF assms(1)] buffer_has_room [OF assms] by (fastforce simp: from_buffer_def)
next
  case False
  have "rnd_inv (generate_random_buffer st)" using assms(1) by (intro rnd_inv_generate) (simp add: rnd_inv_def)
  then show ?thesis using False buffer_take_ok [of "generate_random_buffer st" n] assms(2) by (fastforce simp: from_buffer_def)
qed

section \<open>Sequences of draws\<close>

fun draws_u32 :: "nat \<Rightarrow> random_state \<Rightarrow> (u32 list \<times> random_state) option" where
  "draws_u32 0 st = Some ([], st)"
| "draws_u32 (Suc k) st =
     do { (w, st1) \<leftarrow> get_random_from_buffer_u32 st; (ws, st2) \<leftarrow> draws_u32 k st1; Some (w # ws, st2) }"

lemma from_buffer_next:
  assumes "rnd_inv st" "unat (rnd_head st) + n \<le> 1024"
  shows "\<exists>st'. from_buffer n st = Some (bytes_word (take n (drop (unat (rnd_head st)) (rnd_buffer st))), st')
    \<and> rnd_inv st' \<and> unat (rnd_head st') = unat (rnd_head st) + n \<and> rnd_buffer st' = rnd_buffer st \<and> rnd_os st' = rnd_os st"
  using buffer_take_ok [OF assms] buffer_has_room [OF assms(1), of n] assms(2) by (auto simp: from_buffer_def)

lemma draws_u32_windows:
  assumes "rnd_inv st" "unat (rnd_head st) + 4 * k \<le> 1024"
  shows "\<exists>st'. draws_u32 k st = Some (map (\<lambda>i. bytes_word (take 4 (drop (unat (rnd_head st) + 4 * i) (rnd_buffer st)))) [0..<k], st')
    \<and> rnd_inv st' \<and> unat (rnd_head st') = unat (rnd_head st) + 4 * k \<and> rnd_buffer st' = rnd_buffer st \<and> rnd_os st' = rnd_os st"
  using assms
proof (induction k arbitrary: st)
  case (Suc k)
  let ?h = "unat (rnd_head st)"
  obtain st1 where st1: "from_buffer 4 st = Some (bytes_word (take 4 (drop ?h (rnd_buffer st))) :: u32, st1)"
      "rnd_inv st1" "unat (rnd_head st1) = ?h + 4" "rnd_buffer st1 = rnd_buffer st" "rnd_os st1 = rnd_os st"
    using from_buffer_next [OF Suc.prems(1), of 4] Suc.prems(2) by auto
  have "unat (rnd_head st1) + 4 * k \<le> 1024" using st1(3) Suc.prems(2) by simp
  from Suc.IH [OF st1(2) this] st1 show ?case
    by (auto simp: from_buffer_eqs upt_conv_Cons map_Suc_upt [symmetric] o_def algebra_simps simp del: upt_Suc)
qed simp

section \<open>Properties\<close>

text \<open>Draws of the three widths in any order; the numbers drawn are widened to 64 bits.\<close>

datatype draw = Draw16 | Draw32 | Draw64

fun draw_width :: "draw \<Rightarrow> nat" where
  "draw_width Draw16 = 2" | "draw_width Draw32 = 4" | "draw_width Draw64 = 8"

fun draw_one :: "draw \<Rightarrow> random_state \<Rightarrow> (u64 \<times> random_state) option" where
  "draw_one Draw16 st = do { (w, st) \<leftarrow> get_random_from_buffer_u16 st; Some (ucast w, st) }"
| "draw_one Draw32 st = do { (w, st) \<leftarrow> get_random_from_buffer_u32 st; Some (ucast w, st) }"
| "draw_one Draw64 st = do { (w, st) \<leftarrow> get_random_from_buffer_u64 st; Some (ucast w, st) }"

fun draw_seq :: "draw list \<Rightarrow> random_state \<Rightarrow> (u64 list \<times> random_state) option" where
  "draw_seq [] st = Some ([], st)"
| "draw_seq (d # ds) st = do { (v, st) \<leftarrow> draw_one d st; (vs, st) \<leftarrow> draw_seq ds st; Some (v # vs, st) }"

text \<open>
  The specification: a buffer of bytes, the number of bytes handed out, and the answers of the system to come. A draw takes the next bytes; when
  too few are left, one answer overwrites the buffer from its beginning, an error leaving it as it is, and the draw takes the first bytes.
\<close>

definition refilled :: "bytes \<Rightarrow> bytes option list \<Rightarrow> bytes" where
  "refilled buf os = (case os of Some bs # _ \<Rightarrow> take 1024 bs @ drop (length bs) buf | _ \<Rightarrow> buf)"

fun draws_ref :: "draw list \<Rightarrow> bytes \<Rightarrow> nat \<Rightarrow> bytes option list \<Rightarrow> u64 list \<times> bytes \<times> nat \<times> bytes option list" where
  "draws_ref [] buf h os = ([], buf, h, os)"
| "draws_ref (d # ds) buf h os =
     (if h + draw_width d \<le> 1024
      then apfst (Cons (bytes_word (take (draw_width d) (drop h buf)))) (draws_ref ds buf (h + draw_width d) os)
      else let buf = refilled buf os in apfst (Cons (bytes_word (take (draw_width d) buf))) (draws_ref ds buf (draw_width d) (tl os)))"

lemma generate_refilled:
  assumes "length (rnd_buffer st) = 1024"
  shows "rnd_buffer (generate_random_buffer st) = refilled (rnd_buffer st) (rnd_os st)" "rnd_os (generate_random_buffer st) = tl (rnd_os st)"
  using assms by (cases "rnd_os st"; cases "hd (rnd_os st)"; simp add: generate_random_buffer_def get_random_def refilled_def min_def)+

lemma bit_bytes_word_length: "bit (bytes_word bs :: 'a::len word) i \<Longrightarrow> i < 8 * length bs"
proof (induction bs arbitrary: i)
  case (Cons b bs)
  show ?case
  proof (cases "i < 8")
    case False
    then have "i - 8 < 8 * length bs" using Cons by (auto simp: bit_simps dest: bit_imp_le_length)
    then show ?thesis by simp
  qed simp
qed simp

lemma ucast_bytes_word:
  assumes "8 * length bs \<le> LENGTH('a)"
  shows "(ucast (bytes_word bs :: 'a::len word) :: u64) = bytes_word bs"
  using assms
proof (induction bs)
  case (Cons b bs)
  have "bit (bytes_word bs :: 'a word) (i - 8) \<Longrightarrow> i < LENGTH('a)" for i
    using bit_bytes_word_length [of bs "i - 8", where 'a = 'a] Cons.prems by simp
  then have "(ucast (push_bit 8 (bytes_word bs :: 'a word)) :: u64) = push_bit 8 (ucast (bytes_word bs :: 'a word))"
    by (intro bit_word_eqI) (auto simp: bit_simps)
  moreover have "(ucast (ucast b :: 'a word) :: u64) = ucast b"
    using Cons.prems by (intro bit_word_eqI) (auto simp: bit_simps dest: bit_imp_le_length)
  ultimately show ?case using Cons by (simp add: unsigned_or_eq)
qed simp

lemma from_buffer_ref:
  assumes "rnd_inv st" "n \<le> 1024"
  shows "\<exists>st'. (from_buffer n st :: ('a::len word \<times> random_state) option) = Some
      (bytes_word (if unat (rnd_head st) + n \<le> 1024 then take n (drop (unat (rnd_head st)) (rnd_buffer st)) else take n (refilled (rnd_buffer st) (rnd_os st))), st')
    \<and> rnd_inv st' \<and> (rnd_buffer st', unat (rnd_head st'), rnd_os st') =
        (if unat (rnd_head st) + n \<le> 1024 then (rnd_buffer st, unat (rnd_head st) + n, rnd_os st) else (refilled (rnd_buffer st) (rnd_os st), n, tl (rnd_os st)))"
proof (cases "unat (rnd_head st) + n \<le> 1024")
  case True
  then show ?thesis using from_buffer_next [OF assms(1) True] by auto
next
  case False
  have l: "length (rnd_buffer st) = 1024" using assms(1) by (simp add: rnd_inv_def)
  let ?g = "generate_random_buffer st"
  have "\<not> buffer_has (of_nat n) st" using False buffer_has_room [OF assms] by simp
  then have "(from_buffer n st :: ('a word \<times> random_state) option) = buffer_take n ?g" by (simp add: from_buffer_def)
  moreover obtain st' where "buffer_take n ?g = Some (bytes_word (take n (rnd_buffer ?g)) :: 'a word, st')" "rnd_inv st'"
      "unat (rnd_head st') = n" "rnd_buffer st' = rnd_buffer ?g" "rnd_os st' = rnd_os ?g"
    using buffer_take_ok [OF rnd_inv_generate [OF l], of n] assms(2) by auto
  ultimately show ?thesis using False generate_refilled [OF l] by simp
qed

lemma draw_ref:
  assumes "rnd_inv st"
  shows "\<exists>st'. draw_one d st = Some
      (bytes_word (if unat (rnd_head st) + draw_width d \<le> 1024 then take (draw_width d) (drop (unat (rnd_head st)) (rnd_buffer st))
         else take (draw_width d) (refilled (rnd_buffer st) (rnd_os st))), st')
    \<and> rnd_inv st' \<and> (rnd_buffer st', unat (rnd_head st'), rnd_os st') =
        (if unat (rnd_head st) + draw_width d \<le> 1024 then (rnd_buffer st, unat (rnd_head st) + draw_width d, rnd_os st)
         else (refilled (rnd_buffer st) (rnd_os st), draw_width d, tl (rnd_os st)))"
proof -
  show ?thesis
    using from_buffer_ref [OF assms, of 2, where 'a = 16] from_buffer_ref [OF assms, of 4, where 'a = 32] from_buffer_ref [OF assms, of 8, where 'a = 64]
    by (cases d) (auto simp: from_buffer_eqs ucast_bytes_word)
qed

text \<open>
  C35. Every sequence of 16-, 32- and 64-bit draws from the buffer returns, whatever \<^verbatim>\<open>getrandom\<close> answers, and is the one the specification gives: each
  draw is the next bytes of the buffer, behind those of the draw before; only a draw for which too few bytes are left refills, and it
  refills once, with one answer of the system.
\<close>

theorem random_draws_return:
  assumes "rnd_inv st"
  shows "\<exists>vs st'. draw_seq ds st = Some (vs, st') \<and> rnd_inv st'
    \<and> (vs, rnd_buffer st', unat (rnd_head st'), rnd_os st') = draws_ref ds (rnd_buffer st) (unat (rnd_head st)) (rnd_os st)"
  using assms
proof (induction ds arbitrary: st)
  case (Cons d ds)
  obtain v st1 where v: "draw_one d st = Some (v, st1)" "rnd_inv st1"
      "v = bytes_word (if unat (rnd_head st) + draw_width d \<le> 1024 then take (draw_width d) (drop (unat (rnd_head st)) (rnd_buffer st))
         else take (draw_width d) (refilled (rnd_buffer st) (rnd_os st)))"
      "(rnd_buffer st1, unat (rnd_head st1), rnd_os st1) =
        (if unat (rnd_head st) + draw_width d \<le> 1024 then (rnd_buffer st, unat (rnd_head st) + draw_width d, rnd_os st)
         else (refilled (rnd_buffer st) (rnd_os st), draw_width d, tl (rnd_os st)))"
    using draw_ref [OF Cons.prems, of d] by blast
  obtain vs st2 where "draw_seq ds st1 = Some (vs, st2)" "rnd_inv st2"
      "draws_ref ds (rnd_buffer st1) (unat (rnd_head st1)) (rnd_os st1) = (vs, rnd_buffer st2, unat (rnd_head st2), rnd_os st2)"
    using Cons.IH [OF v(2)] by metis
  then show ?case using v by (cases "unat (rnd_head st) + draw_width d \<le> 1024") (simp_all add: Let_def)
qed simp

theorem random_draws_return_witness:
  "\<exists>st'. draw_seq [Draw64, Draw16] \<lparr>rnd_buffer = replicate 1024 7, rnd_head = 1020, rnd_os = [Some [1, 2], None]\<rparr> = Some ([0x0707070707070201, 0x0707], st')
    \<and> unat (rnd_head st') = 10 \<and> rnd_os st' = [None]"
proof -
  let ?st = "\<lparr>rnd_buffer = replicate 1024 7, rnd_head = 1020, rnd_os = [Some [1, 2], None]\<rparr>"
  have "rnd_inv ?st" by (simp add: rnd_inv_def)
  moreover have "replicate 8 7 = [7, 7, 7, 7, 7, 7, 7, 7 :: u8]" by (simp add: numeral_eq_Suc)
  then have "replicate 1022 7 = [7, 7, 7, 7, 7, 7, 7, 7] @ replicate 1014 (7 :: u8)"
    using replicate_add [of 8 1014 "7 :: u8"] by simp
  then have "draws_ref [Draw64, Draw16] (rnd_buffer ?st) (unat (rnd_head ?st)) (rnd_os ?st)
      = ([0x0707070707070201, 0x0707], [1, 2] @ replicate 1022 7, 10, [None])"
    by (simp add: refilled_def Let_def)
  ultimately show ?thesis using random_draws_return [of ?st "[Draw64, Draw16]"] by force
qed

text \<open>
  Between two refills no byte of the buffer is handed out twice: consecutive 32-bit draws are the
  consecutive words of the buffer.
\<close>

theorem random_draws_disjoint:
  assumes "rnd_inv st" "unat (rnd_head st) + 4 * k \<le> 1024"
  shows "\<exists>st'. draws_u32 k st = Some (map (\<lambda>i. bytes_word (take 4 (drop (unat (rnd_head st) + 4 * i) (rnd_buffer st)))) [0..<k], st')
    \<and> unat (rnd_head st') = unat (rnd_head st) + 4 * k \<and> rnd_buffer st' = rnd_buffer st"
  using draws_u32_windows [OF assms] by blast

theorem random_draws_disjoint_witness:
  "\<exists>st'. draws_u32 3 (random_start []) = Some (map (\<lambda>i. bytes_word (take 4 (drop (0 + 4 * i) (replicate 1024 0)))) [0..<3], st')
    \<and> unat (rnd_head st') = 0 + 4 * 3 \<and> rnd_buffer st' = replicate 1024 0"
  using random_draws_disjoint [OF rnd_inv_start [of "[]"], of 3] by (simp add: random_start_def)

text \<open>
  The buffer starts as zeros with the head at its beginning, and nothing refills it before it is used
  up: the first 256 random words of a run are all 0, whatever the system's entropy. The first INIT therefore
  carries the initiate tag 0 and the initial TSN 0.
\<close>

theorem random_first_draws_zero:
  assumes "k \<le> 256"
  shows "\<exists>st. draws_u32 k (random_start os) = Some (replicate k 0, st) \<and> rnd_os st = os"
proof -
  have z: "bytes_word (replicate n 0) = (0 :: u32)" for n by (induction n) simp_all
  have "unat (rnd_head (random_start os)) + 4 * k \<le> 1024" using assms by (simp add: random_start_def)
  from draws_u32_windows [OF rnd_inv_start this] assms show ?thesis
    by (auto simp: random_start_def z map_replicate_const min_def)
qed

theorem random_first_draws_zero_witness:
  "\<exists>st. draws_u32 2 (random_start [Some [7, 7, 7, 7]]) = Some (replicate 2 0, st) \<and> rnd_os st = [Some [7, 7, 7, 7]]"
  by (rule random_first_draws_zero) simp

text \<open>
  A failed refill goes unnoticed: when the buffer is used up and \<^verbatim>\<open>getrandom\<close> fails, the draws start again
  at the beginning of the old buffer, so a run hands out the same 256 words again.
\<close>

theorem random_refill_failure_repeats:
  assumes "rnd_inv st" "rnd_head st = 0" "rnd_os st = []"
  shows "\<exists>ws st1. draws_u32 256 st = Some (ws, st1) \<and> draws_u32 (Suc k) st1 = draws_u32 (Suc k) st"
proof -
  obtain st1 where st1: "draws_u32 256 st = Some (map (\<lambda>i. bytes_word (take 4 (drop (4 * i) (rnd_buffer st)))) [0..<256], st1)"
      "rnd_inv st1" "unat (rnd_head st1) = 1024" "rnd_buffer st1 = rnd_buffer st" "rnd_os st1 = []"
    using draws_u32_windows [OF assms(1), of 256] assms(2,3) by auto
  have "\<not> buffer_has (of_nat 4) st1" using buffer_has_room [OF st1(2), of 4] st1(3) by simp
  then have "\<not> buffer_has 4 st1" by simp
  moreover have "generate_random_buffer st1 = st"
    using st1(4,5) assms(2,3) by (simp add: generate_random_buffer_def get_random_def)
  ultimately have "get_random_from_buffer_u32 st1 = get_random_from_buffer_u32 st"
    by (subst get_random_from_buffer_u32.simps) simp
  then show ?thesis using st1(1) by auto
qed

theorem random_refill_failure_repeats_witness:
  "\<exists>ws st1. draws_u32 256 (random_start []) = Some (ws, st1) \<and> draws_u32 (Suc 2) st1 = draws_u32 (Suc 2) (random_start [])"
  by (rule random_refill_failure_repeats) (simp_all add: rnd_inv_start, simp_all add: random_start_def)

end
