(* ===== verification/Ringbuf.thy ===== *)
theory Ringbuf
  imports Prelude
begin

unbundle bit_operations_syntax

text \<open>
  The multi-producer multi-consumer ring of \<^verbatim>\<open>include/ring_buffer.h\<close>, \<^verbatim>\<open>src/create_ringbuf.c\<close>,
  \<^verbatim>\<open>src/push_ringbuf.c\<close>, \<^verbatim>\<open>src/pop_ringbuf.c\<close>, \<^verbatim>\<open>src/free_ringbuf.c\<close> and the block allocator
  \<^verbatim>\<open>src/create_allocator.c\<close> built on it, as one thread sees them while no other thread runs.
  The weak compare-and-swap may fail spuriously: the oracle \<open>cas\<close> lists the outcomes of the
  attempts (an exhausted list is success). The ring refines a bounded list (locale
  \<open>bounded_fifo\<close>).
\<close>

section \<open>Data\<close>

record ringbuf_cell =
  cell_seq :: u64
  cell_plen :: u64
  cell_packet :: ptr

record ringbuf =
  rb_size :: u64
  rb_mask :: u64
  rb_head :: u64
  rb_tail :: u64
  rb_cells :: "ringbuf_cell list"

section \<open>Operations\<close>

text \<open>
  The state both constructors set up: free-running counters at 0 and the sequence number of every
  cell at its index. \<open>g\<close> gives the \<open>plen\<close> and \<open>packet\<close> of each cell.
\<close>

definition ring_init :: "(nat \<Rightarrow> u64 \<times> ptr) \<Rightarrow> u64 \<Rightarrow> ringbuf" where
  "ring_init g n = \<lparr>rb_size = n, rb_mask = n - 1, rb_head = 0, rb_tail = 0,
     rb_cells = map (\<lambda>i. \<lparr>cell_seq = of_nat i, cell_plen = fst (g i), cell_packet = snd (g i)\<rparr>) [0..<unat n]\<rparr>"

text \<open>
  \<open>create_ringbuf a1 a2 g n\<close>: the two flags say whether the two \<^verbatim>\<open>malloc\<close> calls succeed;
  \<open>g\<close> is the indeterminate content of the \<open>plen\<close> fields, which the code leaves
  uninitialised. The result \<open>None\<close> is the NULL pointer.
\<close>

definition create_ringbuf :: "bool \<Rightarrow> bool \<Rightarrow> (nat \<Rightarrow> u64) \<Rightarrow> u64 \<Rightarrow> ringbuf option" where
  "create_ringbuf a1 a2 g n =
     (if \<not> a1 then None
      else if \<not> a2 then None
      else Some (ring_init (\<lambda>i. (g i, NULL)) n))"

fun cas_weak :: "bool list \<Rightarrow> bool" where
  "cas_weak [] = True"
| "cas_weak (b # _) = b"

text \<open>
  The claim loop of \<^verbatim>\<open>push_ringbuf\<close>. \<open>Some (Some pos)\<close>: position \<open>pos\<close> was claimed by the
  compare-and-swap; \<open>Some None\<close>: the loop returned \<open>-1\<close>.
\<close>

partial_function (option) push_claim :: "bool list \<Rightarrow> ringbuf \<Rightarrow> u64 \<Rightarrow> u64 option option" where
  "push_claim cas rb pos =
     (let idx = unat (pos AND rb_mask rb) in
      if idx < length (rb_cells rb) then
        let diff = cell_seq (rb_cells rb ! idx) - pos in
        if diff = 0 \<and> rb_head rb = pos \<and> cas_weak cas then Some (Some pos)
        else if diff <s 0 then Some None
        else push_claim (if diff = 0 then tl cas else cas) rb (rb_head rb)
      else None)"

definition push_ringbuf :: "bool list \<Rightarrow> ringbuf \<Rightarrow> ptr \<Rightarrow> u64 \<Rightarrow> (ringbuf \<times> i64) option" where
  "push_ringbuf cas rb packet plen =
     (case push_claim cas rb (rb_head rb) of
        None \<Rightarrow> None
      | Some None \<Rightarrow> Some (rb, -1)
      | Some (Some pos) \<Rightarrow>
          Some (rb\<lparr>rb_head := pos + 1,
                   rb_cells := (rb_cells rb)[unat (pos AND rb_mask rb) :=
                     \<lparr>cell_seq = pos + 1, cell_plen = plen, cell_packet = packet\<rparr>]\<rparr>, 0))"

partial_function (option) pop_claim :: "bool list \<Rightarrow> ringbuf \<Rightarrow> u64 \<Rightarrow> u64 option option" where
  "pop_claim cas rb pos =
     (let idx = unat (pos AND rb_mask rb) in
      if idx < length (rb_cells rb) then
        let diff = cell_seq (rb_cells rb ! idx) - (pos + 1) in
        if diff = 0 \<and> rb_tail rb = pos \<and> cas_weak cas then Some (Some pos)
        else if diff <s 0 then Some None
        else pop_claim (if diff = 0 then tl cas else cas) rb (rb_tail rb)
      else None)"

text \<open>
  \<^verbatim>\<open>pop_ringbuf\<close> returns a pointer into the cell array, here the index of the cell
  (\<open>None\<close>: NULL); the caller reads \<open>packet\<close> and \<open>plen\<close> through it.
\<close>

definition pop_ringbuf :: "bool list \<Rightarrow> ringbuf \<Rightarrow> (ringbuf \<times> nat option) option" where
  "pop_ringbuf cas rb =
     (case pop_claim cas rb (rb_tail rb) of
        None \<Rightarrow> None
      | Some None \<Rightarrow> Some (rb, None)
      | Some (Some pos) \<Rightarrow>
          let idx = unat (pos AND rb_mask rb) in
          Some (rb\<lparr>rb_tail := pos + 1,
                   rb_cells := (rb_cells rb)[idx :=
                     (rb_cells rb ! idx)\<lparr>cell_seq := pos + rb_mask rb + 1\<rparr>]\<rparr>, Some idx))"

definition cell_data :: "ringbuf_cell \<Rightarrow> ptr \<times> u64" where
  "cell_data c = (cell_packet c, cell_plen c)"

definition rb_cell_data :: "ringbuf \<Rightarrow> nat \<Rightarrow> ptr \<times> u64" where
  "rb_cell_data rb i = cell_data (rb_cells rb ! i)"

section \<open>Invariant and abstraction\<close>

definition rb_count :: "ringbuf \<Rightarrow> nat" where
  "rb_count rb = unat (rb_head rb - rb_tail rb)"

definition rb_cap :: "ringbuf \<Rightarrow> nat" where
  "rb_cap rb = length (rb_cells rb)"

definition rb_items :: "ringbuf \<Rightarrow> (ptr \<times> u64) list" where
  "rb_items rb = map cell_data (ring_list (rb_cells rb) (unat (rb_tail rb)) (rb_count rb))"

definition rb_shape :: "nat \<Rightarrow> ringbuf \<Rightarrow> bool" where
  "rb_shape k rb \<longleftrightarrow> 1 \<le> k \<and> k \<le> 63 \<and> rb_size rb = 2 ^ k \<and> rb_mask rb = mask k
     \<and> length (rb_cells rb) = 2 ^ k"

definition rb_seqs :: "ringbuf \<Rightarrow> bool" where
  "rb_seqs rb \<longleftrightarrow> (\<forall>i < length (rb_cells rb).
     cell_seq (rb_cells rb ! ((unat (rb_tail rb) + i) mod length (rb_cells rb)))
       = rb_tail rb + of_nat i + (if i < rb_count rb then 1 else 0))"

definition rb_inv :: "ringbuf \<Rightarrow> bool" where
  "rb_inv rb \<longleftrightarrow> (\<exists>k \<in> {1..63}. rb_shape k rb) \<and> rb_count rb \<le> rb_cap rb \<and> rb_seqs rb"

section \<open>Lemmas\<close>

lemma ring_wrap_negative:
  assumes "1 \<le> k" "k \<le> 63"
  shows "(1 - 2 ^ k :: 64 word) <s 0"
proof -
  have "1 - 2 ^ k = NOT (mask k) OR (1 :: 64 word)"
  proof -
    have "NOT (mask k) OR (1 :: 64 word) = NOT (mask k) + 1"
      using assms by (intro disjunctive_add [symmetric]) (auto simp: bit_simps bit_1_iff)
    also have "\<dots> = 1 - 2 ^ k"
      by (simp add: not_eq_complement mask_eq_exp_minus_1)
    finally show ?thesis by simp
  qed
  then have "bit (1 - 2 ^ k :: 64 word) 63"
    using assms by (simp add: bit_simps)
  then show ?thesis
    using bit_last_iff [of "1 - 2 ^ k :: 64 word"] by (simp add: word_sless_alt)
qed

lemma rb_head_eq: "rb_head rb = rb_tail rb + of_nat (rb_count rb)"
  by (simp add: rb_count_def)

lemma rb_invD:
  assumes "rb_inv rb"
  obtains k where "rb_shape k rb" "1 \<le> k" "k \<le> 63" "length (rb_cells rb) = 2 ^ k" "rb_mask rb = mask k"
    "rb_count rb \<le> 2 ^ k" "rb_seqs rb"
  using assms by (auto simp: rb_inv_def rb_shape_def rb_cap_def)

lemma rb_slot:
  assumes "rb_shape k rb"
  shows "unat ((rb_tail rb + of_nat i) AND rb_mask rb) = (unat (rb_tail rb) + i) mod length (rb_cells rb)"
  using assms by (simp add: rb_shape_def unat_ring_index)

lemma rb_slot_less:
  assumes "rb_inv rb"
  shows "(unat (rb_tail rb) + i) mod length (rb_cells rb) < length (rb_cells rb)"
proof -
  from assms have "length (rb_cells rb) > 0" by (elim rb_invD) simp
  then show ?thesis by simp
qed

lemma rb_seqsD:
  "rb_seqs rb \<Longrightarrow> i < length (rb_cells rb) \<Longrightarrow>
   cell_seq (rb_cells rb ! ((unat (rb_tail rb) + i) mod length (rb_cells rb)))
     = rb_tail rb + of_nat i + (if i < rb_count rb then 1 else 0)"
  by (simp add: rb_seqs_def)

lemma push_claim_room:
  assumes "rb_inv rb" "rb_count rb < rb_cap rb"
  shows "push_claim cas rb (rb_head rb) = Some (Some (rb_head rb))"
proof -
  from assms(1) obtain k where k: "rb_shape k rb" and s: "rb_seqs rb" by (elim rb_invD)
  let ?idx = "(unat (rb_tail rb) + rb_count rb) mod length (rb_cells rb)"
  have idx: "unat (rb_head rb AND rb_mask rb) = ?idx"
    using rb_slot [OF k, of "rb_count rb"] by (simp add: rb_head_eq)
  have seq: "cell_seq (rb_cells rb ! ?idx) = rb_head rb"
    using rb_seqsD [OF s, of "rb_count rb"] assms(2) by (simp add: rb_cap_def rb_head_eq)
  have lt: "?idx < length (rb_cells rb)" using assms(1) by (rule rb_slot_less)
  show ?thesis
    by (induction cas) (simp_all add: push_claim.simps [of _ rb "rb_head rb"] Let_def idx seq lt)
qed

lemma push_claim_full:
  assumes "rb_inv rb" "rb_count rb = rb_cap rb"
  shows "push_claim cas rb (rb_head rb) = Some None"
proof -
  from assms(1) obtain k where k: "rb_shape k rb" "1 \<le> k" "k \<le> 63" "length (rb_cells rb) = 2 ^ k"
    and s: "rb_seqs rb" by (elim rb_invD)
  let ?idx = "unat (rb_tail rb) mod length (rb_cells rb)"
  have h: "rb_head rb = rb_tail rb + 2 ^ k"
    using assms(2) k(4) by (simp add: rb_head_eq rb_cap_def)
  have idx: "unat (rb_head rb AND rb_mask rb) = ?idx"
    using rb_slot [OF k(1), of "2 ^ k"] k(4) by (simp add: h)
  have seq: "cell_seq (rb_cells rb ! ?idx) - rb_head rb = 1 - 2 ^ k"
    using rb_seqsD [OF s, of 0] assms(2) k(4) by (simp add: rb_cap_def h)
  have lt: "?idx < length (rb_cells rb)" using k(4) by simp
  have ne: "(2 ^ k :: 64 word) \<noteq> 1"
    using ring_wrap_negative [OF k(2,3)] by auto
  show ?thesis
    by (simp add: push_claim.simps [of _ rb "rb_head rb"] Let_def idx seq lt ne ring_wrap_negative [OF k(2,3)])
qed

lemma pop_claim_nonempty:
  assumes "rb_inv rb" "0 < rb_count rb"
  shows "pop_claim cas rb (rb_tail rb) = Some (Some (rb_tail rb))"
proof -
  from assms(1) obtain k where k: "rb_shape k rb" "length (rb_cells rb) = 2 ^ k" and s: "rb_seqs rb"
    by (elim rb_invD)
  let ?idx = "unat (rb_tail rb) mod length (rb_cells rb)"
  have idx: "unat (rb_tail rb AND rb_mask rb) = ?idx"
    using rb_slot [OF k(1), of 0] by simp
  have seq: "cell_seq (rb_cells rb ! ?idx) = rb_tail rb + 1"
    using rb_seqsD [OF s, of 0] assms(2) k(2) by simp
  have lt: "?idx < length (rb_cells rb)" using k(2) by simp
  show ?thesis
    by (induction cas) (simp_all add: pop_claim.simps [of _ rb "rb_tail rb"] Let_def idx seq lt)
qed

lemma pop_claim_empty:
  assumes "rb_inv rb" "rb_count rb = 0"
  shows "pop_claim cas rb (rb_tail rb) = Some None"
proof -
  from assms(1) obtain k where k: "rb_shape k rb" "length (rb_cells rb) = 2 ^ k" and s: "rb_seqs rb"
    by (elim rb_invD)
  let ?idx = "unat (rb_tail rb) mod length (rb_cells rb)"
  have idx: "unat (rb_tail rb AND rb_mask rb) = ?idx"
    using rb_slot [OF k(1), of 0] by simp
  have seq: "cell_seq (rb_cells rb ! ?idx) = rb_tail rb"
    using rb_seqsD [OF s, of 0] assms(2) k(2) by simp
  have lt: "?idx < length (rb_cells rb)" using k(2) by simp
  show ?thesis
    by (simp add: pop_claim.simps [of _ rb "rb_tail rb"] Let_def idx seq lt word_sless_alt)
qed

definition rb_pushed :: "ringbuf \<Rightarrow> ptr \<Rightarrow> u64 \<Rightarrow> ringbuf" where
  "rb_pushed rb p l = rb\<lparr>rb_head := rb_head rb + 1,
     rb_cells := (rb_cells rb)[(unat (rb_tail rb) + rb_count rb) mod length (rb_cells rb) :=
       \<lparr>cell_seq = rb_head rb + 1, cell_plen = l, cell_packet = p\<rparr>]\<rparr>"

definition rb_popped :: "ringbuf \<Rightarrow> ringbuf" where
  "rb_popped rb = (let idx = unat (rb_tail rb) mod length (rb_cells rb) in
     rb\<lparr>rb_tail := rb_tail rb + 1,
        rb_cells := (rb_cells rb)[idx := (rb_cells rb ! idx)\<lparr>cell_seq := rb_tail rb + rb_mask rb + 1\<rparr>]\<rparr>)"

lemma rb_pushed_simps [simp]:
  "rb_head (rb_pushed rb p l) = rb_head rb + 1" "rb_tail (rb_pushed rb p l) = rb_tail rb"
  "rb_mask (rb_pushed rb p l) = rb_mask rb" "rb_size (rb_pushed rb p l) = rb_size rb"
  "length (rb_cells (rb_pushed rb p l)) = length (rb_cells rb)"
  by (simp_all add: rb_pushed_def)

lemma rb_popped_simps [simp]:
  "rb_head (rb_popped rb) = rb_head rb" "rb_tail (rb_popped rb) = rb_tail rb + 1"
  "rb_mask (rb_popped rb) = rb_mask rb" "rb_size (rb_popped rb) = rb_size rb"
  "length (rb_cells (rb_popped rb)) = length (rb_cells rb)"
  by (simp_all add: rb_popped_def Let_def)

lemma push_ringbuf_room:
  assumes "rb_inv rb" "rb_count rb < rb_cap rb"
  shows "push_ringbuf cas rb p l = Some (rb_pushed rb p l, 0)"
proof -
  from assms(1) obtain k where k: "rb_shape k rb" by (elim rb_invD)
  have "unat (rb_head rb AND rb_mask rb) = (unat (rb_tail rb) + rb_count rb) mod length (rb_cells rb)"
    using rb_slot [OF k, of "rb_count rb"] by (simp add: rb_head_eq)
  then show ?thesis
    using push_claim_room [OF assms] by (simp add: push_ringbuf_def rb_pushed_def)
qed

lemma push_ringbuf_full:
  assumes "rb_inv rb" "rb_count rb = rb_cap rb"
  shows "push_ringbuf cas rb p l = Some (rb, -1)"
  using push_claim_full [OF assms] by (simp add: push_ringbuf_def)

lemma pop_ringbuf_nonempty:
  assumes "rb_inv rb" "0 < rb_count rb"
  shows "pop_ringbuf cas rb = Some (rb_popped rb, Some (unat (rb_tail rb) mod length (rb_cells rb)))"
proof -
  from assms(1) obtain k where k: "rb_shape k rb" by (elim rb_invD)
  have "unat (rb_tail rb AND rb_mask rb) = unat (rb_tail rb) mod length (rb_cells rb)"
    using rb_slot [OF k, of 0] by simp
  then show ?thesis
    using pop_claim_nonempty [OF assms] by (simp add: pop_ringbuf_def rb_popped_def Let_def)
qed

lemma pop_ringbuf_empty:
  assumes "rb_inv rb" "rb_count rb = 0"
  shows "pop_ringbuf cas rb = Some (rb, None)"
  using pop_claim_empty [OF assms] by (simp add: pop_ringbuf_def)

lemma rb_cap_64: "rb_inv rb \<Longrightarrow> rb_cap rb < 2 ^ 64"
proof (elim rb_invD)
  fix k :: nat
  assume "k \<le> 63" "length (rb_cells rb) = 2 ^ k"
  moreover have "k \<le> 63 \<Longrightarrow> (2::nat) ^ k < 2 ^ 64" by (intro power_strict_increasing) auto
  ultimately show ?thesis by (simp add: rb_cap_def)
qed

lemma rb_count_pushed:
  assumes "rb_inv rb" "rb_count rb < rb_cap rb"
  shows "rb_count (rb_pushed rb p l) = Suc (rb_count rb)"
proof -
  have "Suc (unat (rb_head rb - rb_tail rb)) < 2 ^ 64"
    using assms rb_cap_64 by (fastforce simp: rb_count_def)
  then have "unat ((rb_head rb - rb_tail rb) + 1) = Suc (unat (rb_head rb - rb_tail rb))"
    by (intro unat_suc_word) simp
  moreover have "rb_head rb + 1 - rb_tail rb = (rb_head rb - rb_tail rb) + 1" by simp
  ultimately show ?thesis
    by (simp only: rb_count_def rb_pushed_simps)
qed

lemma rb_count_popped:
  assumes "0 < rb_count rb"
  shows "rb_count (rb_popped rb) = rb_count rb - 1"
proof -
  have "rb_head rb - (rb_tail rb + 1) = (rb_head rb - rb_tail rb) - 1" by simp
  moreover have "rb_head rb - rb_tail rb \<noteq> 0" using assms by (auto simp: rb_count_def)
  ultimately show ?thesis
    by (simp only: rb_count_def rb_popped_simps unat_minus_one not_False_eq_True)
qed

lemma rb_items_pushed:
  assumes "rb_inv rb" "rb_count rb < rb_cap rb"
  shows "rb_items (rb_pushed rb p l) = rb_items rb @ [(p, l)]"
  using assms ring_list_push [of "rb_count rb" "rb_cells rb" "unat (rb_tail rb)"]
  by (simp add: rb_items_def rb_count_pushed, simp add: rb_pushed_def rb_cap_def cell_data_def)

lemma unat_tail_suc_mod:
  assumes "rb_inv rb"
  shows "(unat (rb_tail rb + 1) + i) mod length (rb_cells rb) = (unat (rb_tail rb) + Suc i) mod length (rb_cells rb)"
proof -
  from assms obtain k where "k \<le> 63" "length (rb_cells rb) = 2 ^ k" by (elim rb_invD)
  then show ?thesis
    using unat_add_of_nat_mod [of k "rb_tail rb" 1] by (simp, metis add_Suc mod_add_left_eq)
qed

lemma rb_items_popped:
  assumes "rb_inv rb" "0 < rb_count rb"
  shows "rb_items rb = rb_cell_data (rb_popped rb) (unat (rb_tail rb) mod length (rb_cells rb)) # rb_items (rb_popped rb)"
proof -
  let ?m = "length (rb_cells rb)" and ?t = "unat (rb_tail rb)"
  have m: "0 < ?m" and c: "rb_count rb \<le> ?m"
    using assms(1) by (auto elim!: rb_invD)
  obtain n where n: "rb_count rb = Suc n" using assms(2) by (cases "rb_count rb") auto
  define d where "d = (rb_cells rb ! (?t mod ?m))\<lparr>cell_seq := rb_tail rb + rb_mask rb + 1\<rparr>"
  have cells: "rb_cells (rb_popped rb) = (rb_cells rb)[?t mod ?m := d]"
    by (simp add: rb_popped_def Let_def d_def)
  have "Suc ?t + (?m - 1) = ?t + ?m" using m by linarith
  then have slots: "(Suc ?t + (?m - 1)) mod ?m = ?t mod ?m" by (simp only: mod_add_self2)
  have "ring_list ((rb_cells rb)[?t mod ?m := d]) (Suc ?t) n = ring_list (rb_cells rb) (Suc ?t) n"
    using ring_list_update_outside [of n "?m - 1" "rb_cells rb" "Suc ?t" d] n c m by (simp only: slots)
  moreover have "ring_list ((rb_cells rb)[?t mod ?m := d]) (unat (rb_tail rb + 1)) n
      = ring_list ((rb_cells rb)[?t mod ?m := d]) (Suc ?t) n"
    using unat_tail_suc_mod [OF assms(1), of 0] by (intro ring_list_mod) simp
  ultimately have "rb_items (rb_popped rb) = map cell_data (ring_list (rb_cells rb) (Suc ?t) n)"
    using rb_count_popped [OF assms(2)] n by (simp add: rb_items_def cells)
  moreover have "rb_cell_data (rb_popped rb) (?t mod ?m) = cell_data (rb_cells rb ! (?t mod ?m))"
    using m by (simp add: rb_cell_data_def cells d_def cell_data_def)
  ultimately show ?thesis
    by (simp add: rb_items_def n ring_list_Suc)
qed

lemma rb_seqs_pushed:
  assumes "rb_inv rb" "rb_count rb < rb_cap rb"
  shows "rb_seqs (rb_pushed rb p l)"
proof -
  let ?m = "length (rb_cells rb)" and ?t = "unat (rb_tail rb)"
  have s: "rb_seqs rb" using assms(1) by (elim rb_invD)
  have c: "rb_count rb < ?m" using assms(2) by (simp add: rb_cap_def)
  show ?thesis unfolding rb_seqs_def
  proof (intro allI impI)
    fix i assume "i < length (rb_cells (rb_pushed rb p l))"
    then have i: "i < ?m" by simp
    show "cell_seq (rb_cells (rb_pushed rb p l) ! ((unat (rb_tail (rb_pushed rb p l)) + i) mod length (rb_cells (rb_pushed rb p l))))
        = rb_tail (rb_pushed rb p l) + of_nat i + (if i < rb_count (rb_pushed rb p l) then 1 else 0)"
    proof (cases "i = rb_count rb")
      case True
      then show ?thesis
        using rb_slot_less [OF assms(1), of i] rb_count_pushed [OF assms]
        by (simp add: rb_pushed_def rb_head_eq)
    next
      case False
      then have "(?t + rb_count rb) mod ?m \<noteq> (?t + i) mod ?m"
        using ring_slot_inj [OF c i, of ?t] by auto
      then show ?thesis
        using rb_seqsD [OF s i] rb_count_pushed [OF assms] False by (simp add: rb_pushed_def less_Suc_eq)
    qed
  qed
qed

lemma rb_seqs_popped:
  assumes "rb_inv rb" "0 < rb_count rb"
  shows "rb_seqs (rb_popped rb)"
proof -
  let ?m = "length (rb_cells rb)" and ?t = "unat (rb_tail rb)"
  obtain k where k: "?m = 2 ^ k" "rb_mask rb = mask k" "rb_count rb \<le> ?m" and s: "rb_seqs rb"
    using assms(1) by (elim rb_invD) auto
  have m: "0 < ?m" using k(1) by simp
  have sz: "of_nat ?m = rb_mask rb + 1"
    using k by (simp add: mask_eq_exp_minus_1)
  show ?thesis unfolding rb_seqs_def
  proof (intro allI impI)
    fix i assume "i < length (rb_cells (rb_popped rb))"
    then have i: "i < ?m" by simp
    have slot: "(unat (rb_tail rb + 1) + i) mod ?m = (?t + Suc i) mod ?m"
      by (rule unat_tail_suc_mod [OF assms(1)])
    show "cell_seq (rb_cells (rb_popped rb) ! ((unat (rb_tail (rb_popped rb)) + i) mod length (rb_cells (rb_popped rb))))
        = rb_tail (rb_popped rb) + of_nat i + (if i < rb_count (rb_popped rb) then 1 else 0)"
    proof (cases "Suc i = ?m")
      case True
      then have e: "(?t + Suc i) mod ?m = ?t mod ?m" by simp
      have "\<not> i < rb_count rb - 1" using True k(3) by linarith
      moreover have "rb_tail rb + rb_mask rb + 1 = rb_tail rb + 1 + of_nat i"
        using sz by (simp add: True [symmetric] add_ac)
      ultimately show ?thesis
        using m e by (simp add: slot rb_count_popped [OF assms(2)])
          (simp add: rb_popped_def Let_def)
    next
      case False
      then have i': "Suc i < ?m" using i by simp
      then have "?t mod ?m \<noteq> (?t + Suc i) mod ?m"
        using ring_slot_inj [OF m i', of ?t] by auto
      then have "rb_cells (rb_popped rb) ! ((?t + Suc i) mod ?m) = rb_cells rb ! ((?t + Suc i) mod ?m)"
        by (simp add: rb_popped_def Let_def)
      moreover have "(i < rb_count rb - 1) = (Suc i < rb_count rb)" by linarith
      ultimately show ?thesis
        using rb_seqsD [OF s i'] by (simp add: slot rb_count_popped [OF assms(2)])
    qed
  qed
qed

lemma rb_inv_pushed:
  assumes "rb_inv rb" "rb_count rb < rb_cap rb"
  shows "rb_inv (rb_pushed rb p l)" and "rb_cap (rb_pushed rb p l) = rb_cap rb"
  using assms rb_seqs_pushed [OF assms] rb_count_pushed [OF assms]
  by (auto simp: rb_inv_def rb_shape_def rb_cap_def)

lemma rb_inv_popped:
  assumes "rb_inv rb" "0 < rb_count rb"
  shows "rb_inv (rb_popped rb)" and "rb_cap (rb_popped rb) = rb_cap rb"
  using assms rb_seqs_popped [OF assms] rb_count_popped [OF assms(2)]
  by (auto simp: rb_inv_def rb_shape_def rb_cap_def)

lemma ring_init_inv:
  assumes "1 \<le> k" "k \<le> 63"
  shows "rb_inv (ring_init g (2 ^ k))" and "rb_items (ring_init g (2 ^ k)) = []"
    and "rb_cap (ring_init g (2 ^ k)) = 2 ^ k"
proof -
  let ?rb = "ring_init g (2 ^ k)"
  have u: "unat (2 ^ k :: u64) = 2 ^ k" using assms(2) by (intro unat_two_power) simp
  have c: "rb_count ?rb = 0" by (simp add: ring_init_def rb_count_def)
  have "rb_shape k ?rb" using assms u by (simp add: ring_init_def rb_shape_def mask_eq_exp_minus_1)
  moreover have "rb_seqs ?rb" unfolding rb_seqs_def c by (simp add: ring_init_def u)
  ultimately show "rb_inv ?rb" using assms c by (auto simp: rb_inv_def)
  show "rb_items ?rb = []" using c by (simp add: rb_items_def)
  show "rb_cap ?rb = 2 ^ k" by (simp add: rb_cap_def ring_init_def u)
qed

lemma length_rb_items [simp]: "length (rb_items rb) = rb_count rb"
  by (simp add: rb_items_def)

section \<open>The bounded queue interface\<close>

text \<open>
  Operations on a queue, and their run on an implementation and on plain lists with a capacity.
\<close>

datatype 'a fifo_op = Push 'a | Pop

datatype 'a fifo_out = Pushed bool | Popped "'a option"

fun fifo_run ::
  "('q \<Rightarrow> 'a \<Rightarrow> ('q \<times> bool) option) \<Rightarrow> ('q \<Rightarrow> ('q \<times> 'a option) option)
   \<Rightarrow> 'q \<Rightarrow> 'a fifo_op list \<Rightarrow> ('q \<times> 'a fifo_out list) option" where
  "fifo_run push pop q [] = Some (q, [])"
| "fifo_run push pop q (Push x # ops) =
     do { (q', ok) \<leftarrow> push q x; (q'', out) \<leftarrow> fifo_run push pop q' ops; Some (q'', Pushed ok # out) }"
| "fifo_run push pop q (Pop # ops) =
     do { (q', r) \<leftarrow> pop q; (q'', out) \<leftarrow> fifo_run push pop q' ops; Some (q'', Popped r # out) }"

fun list_run :: "nat \<Rightarrow> 'a list \<Rightarrow> 'a fifo_op list \<Rightarrow> 'a list \<times> 'a fifo_out list" where
  "list_run cap xs [] = (xs, [])"
| "list_run cap xs (Push x # ops) =
     (if length xs < cap
      then let (ys, out) = list_run cap (xs @ [x]) ops in (ys, Pushed True # out)
      else let (ys, out) = list_run cap xs ops in (ys, Pushed False # out))"
| "list_run cap xs (Pop # ops) =
     (case xs of
        [] \<Rightarrow> let (ys, out) = list_run cap [] ops in (ys, Popped None # out)
      | x # xs' \<Rightarrow> let (ys, out) = list_run cap xs' ops in (ys, Popped (Some x) # out))"

locale bounded_fifo =
  fixes push :: "'q \<Rightarrow> 'a \<Rightarrow> ('q \<times> bool) option"
    and pop :: "'q \<Rightarrow> ('q \<times> 'a option) option"
    and items :: "'q \<Rightarrow> 'a list"
    and cap :: "'q \<Rightarrow> nat"
    and inv :: "'q \<Rightarrow> bool"
  assumes bounded: "inv q \<Longrightarrow> length (items q) \<le> cap q"
    and push_room: "inv q \<Longrightarrow> length (items q) < cap q \<Longrightarrow>
      \<exists>q'. push q x = Some (q', True) \<and> inv q' \<and> cap q' = cap q \<and> items q' = items q @ [x]"
    and push_full: "inv q \<Longrightarrow> length (items q) = cap q \<Longrightarrow> push q x = Some (q, False)"
    and pop_empty: "inv q \<Longrightarrow> items q = [] \<Longrightarrow> pop q = Some (q, None)"
    and pop_front: "inv q \<Longrightarrow> items q = x # xs \<Longrightarrow>
      \<exists>q'. pop q = Some (q', Some x) \<and> inv q' \<and> cap q' = cap q \<and> items q' = xs"
begin

lemma run_refines:
  assumes "inv q" "list_run (cap q) (items q) ops = (ys, out)"
  shows "\<exists>q'. fifo_run push pop q ops = Some (q', out) \<and> inv q' \<and> cap q' = cap q \<and> items q' = ys"
  using assms
proof (induction ops arbitrary: q ys out)
  case Nil
  then show ?case by simp
next
  case (Cons a ops)
  show ?case
  proof (cases a)
    case (Push x)
    show ?thesis
    proof (cases "length (items q) < cap q")
      case True
      from push_room [OF Cons.prems(1) True, of x] obtain q1 where
        q1: "push q x = Some (q1, True)" "inv q1" "cap q1 = cap q" "items q1 = items q @ [x]" by blast
      obtain zs o1 where r: "list_run (cap q) (items q @ [x]) ops = (zs, o1)" by fastforce
      with Cons.IH [OF q1(2), of zs o1] q1 Cons.prems(2) Push True show ?thesis by auto
    next
      case False
      then have full: "push q x = Some (q, False)"
        using push_full bounded Cons.prems(1) by (metis le_neq_implies_less)
      obtain zs o1 where r: "list_run (cap q) (items q) ops = (zs, o1)" by fastforce
      with Cons.IH [OF Cons.prems(1), of zs o1] full Cons.prems(2) Push False show ?thesis by auto
    qed
  next
    case Pop
    show ?thesis
    proof (cases "items q")
      case Nil
      obtain zs o1 where r: "list_run (cap q) (items q) ops = (zs, o1)" by fastforce
      with Cons.IH [OF Cons.prems(1), of zs o1] pop_empty [OF Cons.prems(1) Nil] Cons.prems(2) Pop Nil
      show ?thesis by auto
    next
      case (Cons x xs)
      from pop_front [OF Cons.prems(1) Cons] obtain q1 where
        q1: "pop q = Some (q1, Some x)" "inv q1" "cap q1 = cap q" "items q1 = xs" by blast
      obtain zs o1 where r: "list_run (cap q) xs ops = (zs, o1)" by fastforce
      with Cons.IH [OF q1(2), of zs o1] q1 Cons.prems(2) Pop Cons show ?thesis by auto
    qed
  qed
qed

text \<open>Filling an empty queue and draining it gives the elements back in order.\<close>

lemma push_all:
  assumes "inv q" "length (items q) + length xs \<le> cap q"
  shows "\<exists>q'. fifo_run push pop q (map Push xs) = Some (q', map (\<lambda>_. Pushed True) xs)
    \<and> inv q' \<and> cap q' = cap q \<and> items q' = items q @ xs"
proof -
  have "list_run c ys (map Push xs) = (ys @ xs, map (\<lambda>_. Pushed True) xs)"
    if "length ys + length xs \<le> c" for c and ys :: "'a list"
    using that by (induction xs arbitrary: ys) auto
  then show ?thesis using assms run_refines by blast
qed

end

text \<open>The ring as a queue of (packet, length) pairs: the result of a pop is read through the cell.\<close>

definition rb_push :: "bool list \<Rightarrow> ringbuf \<Rightarrow> ptr \<times> u64 \<Rightarrow> (ringbuf \<times> bool) option" where
  "rb_push cas rb x = map_option (\<lambda>(rb', r). (rb', r = 0)) (push_ringbuf cas rb (fst x) (snd x))"

definition rb_pop :: "bool list \<Rightarrow> ringbuf \<Rightarrow> (ringbuf \<times> (ptr \<times> u64) option) option" where
  "rb_pop cas rb = map_option (\<lambda>(rb', c). (rb', map_option (rb_cell_data rb') c)) (pop_ringbuf cas rb)"

interpretation rbq: bounded_fifo "rb_push cas" "rb_pop cas" rb_items rb_cap rb_inv for cas
proof (unfold_locales, goal_cases)
  case (1 q)
  then show ?case by (simp add: rb_inv_def)
next
  case (2 q x)
  then show ?case
    using rb_inv_pushed [of q "fst x" "snd x"]
    by (simp add: rb_push_def push_ringbuf_room rb_items_pushed)
next
  case (3 q x)
  then show ?case by (simp add: rb_push_def push_ringbuf_full)
next
  case (4 q)
  then have "rb_count q = 0" by (metis length_rb_items list.size(3))
  with 4 show ?case by (simp add: rb_pop_def pop_ringbuf_empty)
next
  case (5 q x xs)
  then have "0 < rb_count q" by (metis length_rb_items length_greater_0_conv list.distinct(1))
  with 5 show ?case
    using rb_inv_popped [of q] rb_items_popped [of q] by (simp add: rb_pop_def pop_ringbuf_nonempty)
qed

section \<open>The block allocator\<close>

text \<open>
  \<^verbatim>\<open>memory_size + (CACHELINE_SIZE - 1) & ~(CACHELINE_SIZE - 1)\<close>: addition binds tighter than
  \<^verbatim>\<open>&\<close>.
\<close>

definition cacheline_round :: "u64 \<Rightarrow> u64 \<Rightarrow> u64" where
  "cacheline_round line n = (n + (line - 1)) AND NOT (line - 1)"

text \<open>
  The filling loop over the results of \<^verbatim>\<open>aligned_alloc\<close>. After a failed allocation the code pops
  every cell and calls \<^verbatim>\<open>free\<close> on the cell pointer, which points into the cell array: as soon as
  one cell is popped the run is undefined.
\<close>

fun allocator_fill :: "u64 \<Rightarrow> ptr list \<Rightarrow> ringbuf \<Rightarrow> ringbuf option" where
  "allocator_fill len [] rb = Some rb"
| "allocator_fill len (m # ms) rb =
     do { rb1 \<leftarrow> (if m = NULL
                 then do { (rb', c) \<leftarrow> pop_ringbuf [] rb; (case c of None \<Rightarrow> Some rb' | Some _ \<Rightarrow> None) }
                 else Some rb);
          (rb2, r) \<leftarrow> push_ringbuf [] rb1 m len;
          allocator_fill len ms rb2 }"

definition create_allocator ::
  "bool \<Rightarrow> bool \<Rightarrow> (nat \<Rightarrow> u64 \<times> ptr) \<Rightarrow> (nat \<Rightarrow> ptr) \<Rightarrow> u64 \<Rightarrow> u64 \<Rightarrow> u64 \<Rightarrow> ringbuf option option" where
  "create_allocator a1 a2 g alloc line memory_size memory_num =
     (if \<not> a1 then Some None
      else if \<not> a2 then Some None
      else
        map_option Some
          (allocator_fill (cacheline_round line memory_size) (map alloc [0..<unat memory_num])
            (ring_init g memory_num)))"

text \<open>
  \<^verbatim>\<open>free_ringbuf\<close> frees the packet of every cell, occupied or not, and then the cells and the
  ring. \<open>live\<close> is the set of pointers \<^verbatim>\<open>free\<close> accepts.
\<close>

fun free_packets :: "ptr list \<Rightarrow> ptr list \<Rightarrow> ptr list option" where
  "free_packets [] live = Some live"
| "free_packets (p # ps) live =
     (if p = NULL then free_packets ps live
      else if p \<in> set live then free_packets ps (removeAll p live)
      else None)"

definition free_ringbuf :: "ringbuf \<Rightarrow> ptr list \<Rightarrow> ptr list option" where
  "free_ringbuf rb live =
     (if unat (rb_size rb) \<le> length (rb_cells rb)
      then free_packets (map cell_packet (take (unat (rb_size rb)) (rb_cells rb))) live
      else None)"

lemma cacheline_round_mask:
  "cacheline_round (2 ^ k) n = (n + mask k) AND NOT (mask k)"
  by (simp add: cacheline_round_def mask_eq_exp_minus_1)

lemma cacheline_round_unat:
  assumes "k < 64" "unat n + 2 ^ k \<le> 2 ^ 64"
  shows "unat (cacheline_round (2 ^ k) n) = (unat n + (2 ^ k - 1)) div 2 ^ k * 2 ^ k"
proof -
  have m: "unat (mask k :: u64) = 2 ^ k - 1"
    using assms(1) by (intro unat_mask_word) simp
  have "unat (n + mask k) = unat n + (2 ^ k - 1)"
    using assms m by (simp add: unat_word_ariths)
  then show ?thesis
    using assms(1) by (simp add: cacheline_round_mask and_not_mask_unat)
qed

lemma allocator_fill_ok:
  assumes "rb_inv rb" "rb_count rb + length ms \<le> rb_cap rb" "NULL \<notin> set ms"
  shows "\<exists>rb'. allocator_fill len ms rb = Some rb' \<and> rb_inv rb' \<and> rb_cap rb' = rb_cap rb
    \<and> rb_items rb' = rb_items rb @ map (\<lambda>m. (m, len)) ms"
  using assms
proof (induction ms arbitrary: rb)
  case Nil
  then show ?case by simp
next
  case (Cons m ms)
  then have room: "rb_count rb < rb_cap rb" by simp
  let ?rb = "rb_pushed rb m len"
  from Cons.prems room have "rb_inv ?rb" "rb_count ?rb + length ms \<le> rb_cap ?rb" "rb_cap ?rb = rb_cap rb"
    by (simp_all add: rb_inv_pushed rb_count_pushed)
  with Cons.IH [of ?rb] Cons.prems room show ?case
    by (auto simp: push_ringbuf_room rb_items_pushed)
qed

lemma allocator_fill_failed:
  assumes "rb_inv rb" "0 < rb_count rb"
  shows "allocator_fill len (NULL # ms) rb = None"
  using assms by (simp add: pop_ringbuf_nonempty)

lemma allocator_fill_append:
  "allocator_fill len (xs @ ys) rb = do { rb' \<leftarrow> allocator_fill len xs rb; allocator_fill len ys rb' }"
  by (induction xs arbitrary: rb) (auto split: Option.bind_splits)

lemma free_packets_dead:
  "p \<in> set ps \<Longrightarrow> p \<noteq> NULL \<Longrightarrow> p \<notin> set live \<Longrightarrow> free_packets ps live = None"
  by (induction ps arbitrary: live) auto

section \<open>Properties\<close>

text \<open>
  C5. Every sequence of pushes and pops on a well-formed ring behaves as the same sequence on a
  bounded list: each call returns, whatever the spurious failures of the weak compare-and-swap;
  a push succeeds exactly while fewer than \<open>size\<close> items are queued and returns \<open>-1\<close>
  otherwise; a pop returns the oldest item, or NULL when the queue is empty; the 64-bit counters
  may wrap in between.
\<close>

theorem ringbuf_refines_list:
  assumes "rb_inv rb" and "list_run (rb_cap rb) (rb_items rb) ops = (ys, out)"
  shows "\<exists>rb'. fifo_run (rb_push cas) (rb_pop cas) rb ops = Some (rb', out)
    \<and> rb_inv rb' \<and> rb_cap rb' = rb_cap rb \<and> rb_items rb' = ys"
  using assms by (rule rbq.run_refines)

definition ring2 :: ringbuf where
  "ring2 = \<lparr>rb_size = 2, rb_mask = 1, rb_head = 0, rb_tail = 0xFFFFFFFFFFFFFFFF,
     rb_cells = [\<lparr>cell_seq = 0, cell_plen = 0, cell_packet = 0\<rparr>, \<lparr>cell_seq = 0, cell_plen = 60, cell_packet = 7\<rparr>]\<rparr>"

lemma ring2_inv: "rb_inv ring2" and ring2_items: "rb_items ring2 = [(7, 60)]" and ring2_cap: "rb_cap ring2 = 2"
proof -
  have c: "rb_count ring2 = 1" by (simp add: ring2_def rb_count_def)
  have m: "(18446744073709551615 :: nat) mod Suc (Suc 0) = 1" "(18446744073709551616 :: nat) mod Suc (Suc 0) = 0"
    by (simp_all flip: numeral_2_eq_2)
  have "rb_shape 1 ring2" by (simp add: rb_shape_def ring2_def mask_eq_exp_minus_1)
  moreover have "rb_seqs ring2"
    unfolding rb_seqs_def c
  proof (intro allI impI)
    fix i assume "i < length (rb_cells ring2)"
    then have "i = 0 \<or> i = 1" by (auto simp: ring2_def)
    then show "cell_seq (rb_cells ring2 ! ((unat (rb_tail ring2) + i) mod length (rb_cells ring2)))
        = rb_tail ring2 + of_nat i + (if i < 1 then 1 else 0)"
      by (auto simp: ring2_def m)
  qed
  ultimately show "rb_inv ring2" using c by (auto simp: rb_inv_def rb_cap_def ring2_def)
  show "rb_items ring2 = [(7, 60)]"
    by (simp add: rb_items_def c ring_list_def) (simp add: ring2_def cell_data_def m)
  show "rb_cap ring2 = 2" by (simp add: rb_cap_def ring2_def)
qed

theorem ringbuf_refines_list_witness:
  "rb_inv ring2 \<and> (\<exists>rb'. fifo_run (rb_push [False]) (rb_pop [False]) ring2
      [Push (9, 64), Push (8, 64), Pop, Pop, Pop] =
      Some (rb', [Pushed True, Pushed False, Popped (Some (7, 60)), Popped (Some (9, 64)), Popped None])
    \<and> rb_inv rb' \<and> rb_items rb' = [])"
proof -
  have "list_run (rb_cap ring2) (rb_items ring2) [Push (9, 64), Push (8, 64), Pop, Pop, Pop] =
      ([], [Pushed True, Pushed False, Popped (Some (7, 60)), Popped (Some (9, 64)), Popped None])"
    by (simp add: ring2_items ring2_cap)
  from ringbuf_refines_list [OF ring2_inv this, of "[False]"] show ?thesis
    using ring2_inv by blast
qed

text \<open>
  A freshly created ring of a power-of-two size of at least two is well formed, empty and has
  the requested capacity, whatever the uninitialised fields hold.
\<close>

theorem create_ringbuf_ok:
  assumes "1 \<le> k" "k \<le> 63"
  shows "\<exists>rb. create_ringbuf True True g (2 ^ k) = Some rb \<and> rb_inv rb \<and> rb_items rb = [] \<and> rb_cap rb = 2 ^ k"
  using ring_init_inv [OF assms, of "\<lambda>i. (g i, NULL)"] by (simp add: create_ringbuf_def)

theorem create_ringbuf_ok_witness:
  "\<exists>rb. create_ringbuf True True (\<lambda>_. 5) 256 = Some rb \<and> rb_inv rb \<and> rb_items rb = [] \<and> rb_cap rb = 256"
  using create_ringbuf_ok [of 8 "\<lambda>_. 5"] by simp

lemma create_allocator_items:
  assumes "1 \<le> k" "k \<le> 63" "\<forall>i < 2 ^ k. alloc i \<noteq> NULL"
  shows "\<exists>rb. create_allocator True True g alloc line msz (2 ^ k) = Some (Some rb)
    \<and> rb_inv rb \<and> rb_cap rb = 2 ^ k
    \<and> rb_items rb = map (\<lambda>i. (alloc i, cacheline_round line msz)) [0..<2 ^ k]"
proof -
  let ?ms = "map alloc [0..<2 ^ k]" and ?rb = "ring_init g (2 ^ k)"
  have u: "unat (2 ^ k :: u64) = 2 ^ k" using assms(2) by (intro unat_two_power) simp
  have "rb_count ?rb + length ?ms \<le> rb_cap ?rb"
    using ring_init_inv [OF assms(1,2), of g] by (simp flip: length_rb_items)
  moreover have "NULL \<notin> set ?ms" using assms(3) by auto
  ultimately show ?thesis
    using allocator_fill_ok [of ?rb ?ms] ring_init_inv [OF assms(1,2), of g]
    by (auto simp: create_allocator_def u comp_def)
qed

text \<open>
  C37. The block allocator: when every \<^verbatim>\<open>aligned_alloc\<close> succeeds, \<^verbatim>\<open>create_allocator\<close> returns a
  ring that holds exactly the allocated blocks, in order, each with the block size rounded up to
  the cache line.
\<close>

theorem create_allocator_ok:
  assumes "1 \<le> k" "k \<le> 63" "\<forall>i < 2 ^ k. alloc i \<noteq> NULL"
  shows "\<exists>rb. create_allocator True True g alloc line msz (2 ^ k) = Some (Some rb)
    \<and> rb_inv rb \<and> rb_cap rb = 2 ^ k
    \<and> rb_items rb = map (\<lambda>i. (alloc i, cacheline_round line msz)) [0..<2 ^ k]"
  by (rule create_allocator_items [OF assms])

theorem create_allocator_ok_witness:
  "\<exists>rb. create_allocator True True (\<lambda>_. (0, 0)) (\<lambda>i. 4096 + 64 * of_nat i) 64 40 4 = Some (Some rb)
    \<and> rb_inv rb \<and> rb_cap rb = 4 \<and> rb_items rb = [(4096, 64), (4160, 64), (4224, 64), (4288, 64)]"
proof -
  have "\<forall>i < 2 ^ 2. (4096 + 64 * of_nat i :: ptr) \<noteq> NULL"
  proof (intro allI impI)
    fix i :: nat assume "i < 2 ^ 2"
    then have "i = 0 \<or> i = 1 \<or> i = 2 \<or> i = 3" by auto
    then show "(4096 + 64 * of_nat i :: ptr) \<noteq> NULL" by auto
  qed
  from create_allocator_ok [OF _ _ this, of "\<lambda>_. (0, 0)" 64 40] show ?thesis
    by (simp add: cacheline_round_def upt_rec)
qed

text \<open>
  Error path of the allocator: if the first failing \<^verbatim>\<open>aligned_alloc\<close> is not the very first
  one, the clean-up loop hands a pointer into the cell array to \<^verbatim>\<open>free\<close> and goes on using the
  ring: \<^verbatim>\<open>create_allocator\<close> does not return NULL, it does not return at all.
\<close>

theorem create_allocator_failure_undefined:
  assumes "1 \<le> k" "k \<le> 63" "0 < i" "i < 2 ^ k" "alloc i = NULL" "\<forall>j < i. alloc j \<noteq> NULL"
  shows "create_allocator True True g alloc line msz (2 ^ k) = None"
proof -
  let ?rb = "ring_init g (2 ^ k)"
  have u: "unat (2 ^ k :: u64) = 2 ^ k" using assms(2) by (intro unat_two_power) simp
  have split: "map alloc [0..<2 ^ k] = map alloc [0..<i] @ NULL # map alloc [Suc i..<2 ^ k]"
    using assms(4,5) upt_add_eq_append [of 0 i "2 ^ k - i"] by (simp add: upt_conv_Cons)
  have cnt: "rb_count ?rb + length (map alloc [0..<i]) \<le> rb_cap ?rb"
    using ring_init_inv [OF assms(1,2), of g] assms(4) by (simp flip: length_rb_items)
  have nn: "NULL \<notin> set (map alloc [0..<i])" using assms(6) by auto
  from allocator_fill_ok [OF ring_init_inv(1) [OF assms(1,2)] cnt nn, of "cacheline_round line msz"]
  obtain rb' where
    rb': "allocator_fill (cacheline_round line msz) (map alloc [0..<i]) ?rb = Some rb'" "rb_inv rb'"
      "rb_items rb' = rb_items ?rb @ map (\<lambda>m. (m, cacheline_round line msz)) (map alloc [0..<i])"
    by blast
  have "0 < rb_count rb'"
    using arg_cong [OF rb'(3), of length] assms(3) by simp
  then show ?thesis
    using rb' by (simp add: create_allocator_def u split allocator_fill_append allocator_fill_failed
        del: allocator_fill.simps)
qed

theorem create_allocator_failure_undefined_witness:
  "create_allocator True True (\<lambda>_. (0, 0)) (\<lambda>i. if i = 3 then NULL else 4096) 64 64 256 = None"
  using create_allocator_failure_undefined [of 8 3 "\<lambda>i. if i = 3 then NULL else 4096"] by simp

text \<open>
  \<^verbatim>\<open>free_ringbuf\<close> frees the packet of every cell, also of cells whose packet was handed out by
  \<^verbatim>\<open>pop_ringbuf\<close>: if the consumer released the packet it popped, the call is a double free.
\<close>

theorem free_ringbuf_after_pop:
  assumes "rb_inv rb" "rb_pop cas rb = Some (rb', Some (p, l))" "p \<noteq> NULL" "p \<notin> set live"
  shows "free_ringbuf rb' live = None"
proof -
  let ?i = "unat (rb_tail rb) mod length (rb_cells rb)"
  have ne: "0 < rb_count rb"
    using assms(1,2) pop_ringbuf_empty [of rb cas] by (cases "rb_count rb = 0") (auto simp: rb_pop_def)
  have rb': "rb' = rb_popped rb" "rb_cell_data rb' ?i = (p, l)"
    using assms(2) pop_ringbuf_nonempty [OF assms(1) ne] by (auto simp: rb_pop_def)
  obtain k where k: "rb_shape k rb'" using rb_inv_popped(1) [OF assms(1) ne] rb' by (auto elim: rb_invD)
  then have sz: "unat (rb_size rb') = length (rb_cells rb')"
    by (simp add: rb_shape_def unat_two_power)
  have "?i < length (rb_cells rb')"
    using rb_slot_less [OF assms(1), of 0] rb' by simp
  then have "p \<in> set (map cell_packet (rb_cells rb'))"
    using rb'(2) by (auto simp: rb_cell_data_def cell_data_def)
  then show ?thesis
    using free_packets_dead [OF _ assms(3,4)] by (simp add: free_ringbuf_def sz)
qed

theorem free_ringbuf_after_pop_witness:
  "\<exists>rb'. rb_pop [] ring2 = Some (rb', Some (7, 60)) \<and> free_ringbuf rb' [] = None"
proof -
  from rbq.pop_front [OF ring2_inv ring2_items, of "[]"] obtain rb' where
    pop: "rb_pop [] ring2 = Some (rb', Some (7, 60))" by blast
  with free_ringbuf_after_pop [OF ring2_inv pop] show ?thesis by simp
qed

end
