(* ===== verification/Ringtimer.thy ===== *)
theory Ringtimer
  imports Ringbuf "HOL-Library.Multiset"
begin

unbundle bit_operations_syntax

text \<open>
  The timer wheel of \<^verbatim>\<open>include/ring_buffer.h\<close>: \<^verbatim>\<open>src/create_ringtimer.c\<close>,
  \<^verbatim>\<open>src/insert_ringtimer.c\<close>, \<^verbatim>\<open>src/tick_ringtimer.c\<close>. Every slot is a circular doubly linked
  list of nodes taken from a block allocator; the nodes live in an explicit heap, so that the
  pointer surgery of the code is modelled as it is written. The abstraction \<open>wheel_rep\<close> relates a
  heap to one list of nodes per slot; \<open>slot_tick\<close> is what a tick does to the entries of a slot.
\<close>

section \<open>Data\<close>

record ringtimer_callback =
  cb_retries :: u64
  cb_signal :: u64
  cb_prev :: ptr
  cb_next :: ptr

type_synonym cb_heap = "ptr \<rightharpoonup> ringtimer_callback"

record ringtimer =
  rt_timers :: "ptr list"
  rt_current :: u32
  rt_max :: u32
  rt_allocator :: ringbuf

text \<open>The result of a tick: the written prefix of the array \<^verbatim>\<open>signals\<close>, whose length is \<^verbatim>\<open>count\<close>.\<close>

type_synonym timer_tick_result = "i32 list"

abbreviation (input) MAX_TICK_TIME :: nat where "MAX_TICK_TIME \<equiv> 64"

section \<open>Operations\<close>

definition create_ringtimer :: "bool \<Rightarrow> bool \<Rightarrow> u32 \<Rightarrow> ringbuf \<Rightarrow> ringtimer option" where
  "create_ringtimer a1 a2 timers_count allocator =
     (if \<not> a1 then None
      else if \<not> a2 then None
      else Some \<lparr>rt_timers = replicate (unat timers_count) NULL, rt_current = 0, rt_max = timers_count,
                 rt_allocator = allocator\<rparr>)"

text \<open>
  The node is popped in a loop that spins while the allocator is empty; with no other thread it
  never ends. The flag of the result is false for the NULL return.
\<close>

definition insert_ringtimer ::
  "u64 \<Rightarrow> u64 \<Rightarrow> cb_heap \<Rightarrow> ringtimer \<Rightarrow> (cb_heap \<times> ringtimer \<times> bool) option" where
  "insert_ringtimer signal time h ring =
     (let slot = ucast (ucast (rt_current ring) + (time - 1)) :: u32 in
      do { (al, c) \<leftarrow> rb_pop [] (rt_allocator ring);
           (packet, plen) \<leftarrow> c;
           if packet = NULL
           then do { (al', r) \<leftarrow> rb_push [] al (NULL, 0);
                     Some (h, ring\<lparr>rt_allocator := al'\<rparr>, False) }
           else if rt_max ring = 0 \<or> length (rt_timers ring) \<le> unat (slot mod rt_max ring) then None
           else
             let i = unat (slot mod rt_max ring);
                 retries = ucast (slot div rt_max ring);
                 first = rt_timers ring ! i
             in if first = NULL
                then Some (h(packet \<mapsto> \<lparr>cb_retries = retries, cb_signal = signal, cb_prev = packet, cb_next = packet\<rparr>),
                           ring\<lparr>rt_timers := (rt_timers ring)[i := packet], rt_allocator := al\<rparr>, True)
                else do { f \<leftarrow> h first;
                          l \<leftarrow> h (cb_prev f);
                          let h1 = h(cb_prev f \<mapsto> l\<lparr>cb_next := packet\<rparr>);
                              h2 = h1(packet \<mapsto> \<lparr>cb_retries = retries, cb_signal = signal, cb_prev = cb_prev f, cb_next = first\<rparr>)
                          in do { f' \<leftarrow> h2 first;
                                  Some (h2(first \<mapsto> f'\<lparr>cb_prev := packet\<rparr>), ring\<lparr>rt_allocator := al\<rparr>, True) } } })"

text \<open>A due node \<open>t\<close>: its signal is recorded, it is unlinked and its block released.\<close>

definition tick_unlink :: "nat \<Rightarrow> ptr \<Rightarrow> cb_heap \<Rightarrow> ptr list \<Rightarrow> (cb_heap \<times> ptr list) option" where
  "tick_unlink current t h timers =
     do { n \<leftarrow> h t;
          if cb_next n = t then Some (h, timers[current := NULL])
          else do { p \<leftarrow> h (cb_prev n);
                    let h1 = h(cb_prev n \<mapsto> p\<lparr>cb_next := cb_next n\<rparr>) in
                    do { n1 \<leftarrow> h1 t;
                         q \<leftarrow> h1 (cb_next n1);
                         let h2 = h1(cb_next n1 \<mapsto> q\<lparr>cb_prev := cb_prev n1\<rparr>) in
                         do { n2 \<leftarrow> h2 t;
                              Some (h2, if timers ! current = t then timers[current := cb_next n2] else timers) } } } }"

definition tick_node ::
  "nat \<Rightarrow> ptr \<Rightarrow> cb_heap \<Rightarrow> ringtimer \<Rightarrow> timer_tick_result \<Rightarrow> (cb_heap \<times> ringtimer \<times> timer_tick_result) option" where
  "tick_node current t h ring res =
     do { n \<leftarrow> h t;
          if cb_signal n \<noteq> 0 then
            if cb_retries n = 0 then
              if length res < MAX_TICK_TIME
              then do { (h', timers') \<leftarrow> tick_unlink current t h (rt_timers ring);
                        (al', r) \<leftarrow> rb_push [] (rt_allocator ring) (t, 64);
                        Some (h', ring\<lparr>rt_timers := timers', rt_allocator := al'\<rparr>, res @ [ucast (cb_signal n)]) }
              else None
            else Some (h(t \<mapsto> n\<lparr>cb_retries := cb_retries n - 1\<rparr>), ring, res)
          else Some (h, ring, res) }"

text \<open>The \<^verbatim>\<open>do ... while (t != head)\<close> loop; a run that never ends is \<open>None\<close>.\<close>

partial_function (option) tick_loop ::
  "nat \<Rightarrow> ptr \<Rightarrow> ptr \<Rightarrow> cb_heap \<Rightarrow> ringtimer \<Rightarrow> timer_tick_result \<Rightarrow> (cb_heap \<times> ringtimer \<times> timer_tick_result) option" where
  "tick_loop current head t h ring res =
     Option.bind (h t) (\<lambda>n.
       Option.bind (tick_node current t h ring res) (\<lambda>(h', ring', res').
         if rt_timers ring' ! current = NULL then Some (h', ring', res')
         else if cb_next n \<noteq> head then tick_loop current head (cb_next n) h' ring' res'
         else Some (h', ring', res')))"

definition tick_ringtimer :: "cb_heap \<Rightarrow> ringtimer \<Rightarrow> (cb_heap \<times> ringtimer \<times> timer_tick_result) option" where
  "tick_ringtimer h ring =
     (let current = unat (rt_current ring) in
      if length (rt_timers ring) \<le> current \<or> rt_max ring = 0 then None
      else
        let head = rt_timers ring ! current in
        do { (h', ring', res) \<leftarrow> (if head \<noteq> NULL then tick_loop current head head h ring [] else Some (h, ring, []));
             Some (h', ring'\<lparr>rt_current := (rt_current ring' + 1) mod rt_max ring'\<rparr>, res) })"

section \<open>Circular lists\<close>

definition nextp :: "cb_heap \<Rightarrow> ptr \<Rightarrow> ptr" where "nextp h p = cb_next (the (h p))"
definition prevp :: "cb_heap \<Rightarrow> ptr \<Rightarrow> ptr" where "prevp h p = cb_prev (the (h p))"
definition entry :: "cb_heap \<Rightarrow> ptr \<Rightarrow> u64 \<times> u64" where
  "entry h p = (cb_signal (the (h p)), cb_retries (the (h p)))"

definition linked :: "cb_heap \<Rightarrow> ptr \<Rightarrow> ptr \<Rightarrow> bool" where
  "linked h a b \<longleftrightarrow> nextp h a = b \<and> prevp h b = a"

fun chain :: "cb_heap \<Rightarrow> ptr list \<Rightarrow> bool" where
  "chain h (a # b # xs) \<longleftrightarrow> linked h a b \<and> chain h (b # xs)"
| "chain h _ \<longleftrightarrow> True"

definition links :: "cb_heap \<Rightarrow> ptr list \<Rightarrow> bool" where
  "links h xs \<longleftrightarrow> distinct xs \<and> NULL \<notin> set xs \<and> set xs \<subseteq> dom h \<and> (xs \<noteq> [] \<longrightarrow> chain h (xs @ [hd xs]))"

lemma chain_snoc: "xs \<noteq> [] \<Longrightarrow> chain h (xs @ [a]) \<longleftrightarrow> chain h xs \<and> linked h (last xs) a"
  by (induction h xs rule: chain.induct) auto

lemma chain_cong:
  "\<forall>a \<in> set (butlast xs). nextp h' a = nextp h a \<Longrightarrow> \<forall>b \<in> set (tl xs). prevp h' b = prevp h b \<Longrightarrow>
   chain h' xs \<longleftrightarrow> chain h xs"
  by (induction h xs rule: chain.induct) (auto simp: linked_def)

lemma chain_Cons: "xs \<noteq> [] \<Longrightarrow> chain h (a # xs) \<longleftrightarrow> linked h a (hd xs) \<and> chain h xs"
  by (cases xs) auto

lemma links_rotate: "links h (xs @ [x]) \<longleftrightarrow> links h (x # xs)"
proof (cases xs)
  case (Cons y ys)
  then show ?thesis
    using chain_snoc [of "y # ys @ [x]" h y] by (auto simp: links_def)
qed simp

lemma links_rotate_append: "links h (xs @ ys) \<longleftrightarrow> links h (ys @ xs)"
proof (induction xs arbitrary: ys)
  case (Cons x xs)
  from Cons [of "ys @ [x]"] show ?case by (simp add: links_rotate [of h "xs @ ys", simplified])
qed simp

lemma links_dom: "links h xs \<Longrightarrow> x \<in> set xs \<Longrightarrow> \<exists>n. h x = Some n"
  by (auto simp: links_def)

lemma links_hd: "links h xs \<Longrightarrow> xs \<noteq> [] \<Longrightarrow> hd xs \<noteq> NULL"
  by (metis hd_in_set links_def)

lemma links_next: "links h (x # ys) \<Longrightarrow> nextp h x = hd (ys @ [x])"
  by (cases ys) (auto simp: links_def linked_def)

lemma links_prev: "links h (x # ys) \<Longrightarrow> prevp h x = last (x # ys)"
  using chain_snoc [of "x # ys" h x] by (simp add: links_def linked_def)

lemma links_cong:
  assumes "links h xs" "\<forall>a \<in> set xs. a \<in> dom h' \<and> nextp h' a = nextp h a \<and> prevp h' a = prevp h a"
  shows "links h' xs"
proof (cases "xs = []")
  case False
  then have "chain h' (xs @ [hd xs]) \<longleftrightarrow> chain h (xs @ [hd xs])"
    using assms(2) by (intro chain_cong) (auto simp: tl_append2 dest: list.set_sel(2))
  then show ?thesis using assms False by (auto simp: links_def)
qed (use assms in \<open>simp add: links_def\<close>)

text \<open>Appending \<open>p\<close> behind the last node, and unlinking the first one.\<close>

lemma distinct_ends:
  "distinct xs \<Longrightarrow> xs \<noteq> [] \<Longrightarrow> last xs \<notin> set (butlast xs) \<and> hd xs \<notin> set (tl xs)"
  by (intro conjI, cases xs rule: rev_cases, auto, cases xs, auto)

lemma links_append:
  assumes "links h xs" "xs \<noteq> []" "p \<notin> set xs" "p \<noteq> NULL" "insert p (set xs) \<subseteq> dom h'"
    and "nextp h' (last xs) = p" "nextp h' p = hd xs" "prevp h' (hd xs) = p" "prevp h' p = last xs"
    and "\<forall>a \<in> set xs - {last xs}. nextp h' a = nextp h a" "\<forall>a \<in> set xs - {hd xs}. prevp h' a = prevp h a"
  shows "links h' (xs @ [p])"
proof -
  have d: "distinct xs" using assms(1) by (simp add: links_def)
  have "last xs \<notin> set (butlast xs)" "hd xs \<notin> set (tl xs)"
    using distinct_ends [OF d assms(2)] by auto
  then have "chain h' xs \<longleftrightarrow> chain h xs"
    using assms(2,10,11) by (intro chain_cong) (auto dest: in_set_butlastD list.set_sel(2))
  moreover have "chain h (xs @ [hd xs])" using assms(1,2) by (simp add: links_def)
  ultimately show ?thesis
    using assms chain_snoc [of xs h "hd xs"] chain_snoc [of "xs @ [p]" h' "hd xs"] chain_snoc [of xs h' p] d
    by (auto simp: links_def linked_def)
qed

lemma links_remove:
  assumes "links h (t # ys)" "ys \<noteq> []" "set ys \<subseteq> dom h'"
    and "nextp h' (last ys) = hd ys" "prevp h' (hd ys) = last ys"
    and "\<forall>a \<in> set ys - {last ys}. nextp h' a = nextp h a" "\<forall>a \<in> set ys - {hd ys}. prevp h' a = prevp h a"
  shows "links h' ys"
proof -
  have d: "distinct ys" using assms(1) by (simp add: links_def)
  have "last ys \<notin> set (butlast ys)" "hd ys \<notin> set (tl ys)"
    using distinct_ends [OF d assms(2)] by auto
  then have "chain h' ys \<longleftrightarrow> chain h ys"
    using assms(2,6,7) by (intro chain_cong) (auto dest: in_set_butlastD list.set_sel(2))
  moreover have "chain h ys"
    using assms(1,2) chain_snoc [of "t # ys" h t] chain_Cons [of ys h t] by (simp add: links_def)
  ultimately show ?thesis
    using assms d chain_snoc [of ys h' "hd ys"] by (auto simp: links_def linked_def)
qed

lemma tick_unlink_single:
  assumes "links h [t]"
  shows "tick_unlink current t h timers = Some (h, timers[current := NULL])"
  using assms links_next [OF assms] by (auto simp: links_def tick_unlink_def nextp_def)

lemma tick_unlink_step:
  assumes "links h (t # ys)" "ys \<noteq> []"
  shows "\<exists>h'. tick_unlink current t h timers =
      Some (h', if timers ! current = t then timers[current := hd ys] else timers)
    \<and> links h' ys \<and> (\<forall>a. a \<notin> set ys \<longrightarrow> h' a = h a) \<and> (\<forall>a. entry h' a = entry h a) \<and> dom h' = dom h"
proof -
  let ?l = "last ys" and ?f = "hd ys"
  have in_ys: "?l \<in> set ys" "?f \<in> set ys" using assms(2) by auto
  then have ne: "?l \<noteq> t" "?f \<noteq> t" using assms(1) by (auto simp: links_def)
  obtain n pl pf where n: "h t = Some n" and pl: "h ?l = Some pl" and pf: "h ?f = Some pf"
    using in_ys links_dom [OF assms(1)] by (metis list.set_intros)
  have nx: "cb_next n = ?f" "cb_prev n = ?l"
    using links_next [OF assms(1)] links_prev [OF assms(1)] assms(2) n by (simp_all add: nextp_def prevp_def)
  define h1 where "h1 = h(?l \<mapsto> pl\<lparr>cb_next := ?f\<rparr>)"
  define q where "q = the (h1 ?f)"
  define h' where "h' = h1(?f \<mapsto> q\<lparr>cb_prev := ?l\<rparr>)"
  have q: "h1 ?f = Some q" using pf by (simp add: h1_def q_def)
  have qq: "q = (if ?f = ?l then pl\<lparr>cb_next := ?f\<rparr> else pf)" using pf pl by (simp add: q_def h1_def)
  have u: "tick_unlink current t h timers = Some (h', if timers ! current = t then timers[current := ?f] else timers)"
    using n nx ne pl q by (auto simp: tick_unlink_def Let_def h1_def h'_def split: if_splits)
  have ent: "entry h' a = entry h a" for a using pl pf qq by (auto simp: h'_def h1_def entry_def)
  have dom': "dom h' = dom h" using pl pf by (auto simp: h'_def h1_def)
  have "links h' ys"
  proof (rule links_remove [OF assms])
    show "set ys \<subseteq> dom h'" using assms(1) dom' by (auto simp: links_def)
    show "nextp h' ?l = ?f" using qq by (auto simp: nextp_def h'_def h1_def)
    show "prevp h' ?f = ?l" by (simp add: prevp_def h'_def)
    show "\<forall>a \<in> set ys - {?l}. nextp h' a = nextp h a" using qq pf by (auto simp: nextp_def h'_def h1_def)
    show "\<forall>a \<in> set ys - {?f}. prevp h' a = prevp h a" using qq pl by (auto simp: prevp_def h'_def h1_def)
  qed
  moreover have "\<forall>a. a \<notin> set ys \<longrightarrow> h' a = h a" using in_ys by (auto simp: h'_def h1_def)
  ultimately show ?thesis using u ent dom' by blast
qed

lemma tick_node_fire:
  assumes "h t = Some n" "entry h t = (s, 0)" "s \<noteq> 0" "length res < 64"
    and "tick_unlink current t h (rt_timers ring) = Some (h', tm)"
    and "rb_inv (rt_allocator ring)" "rb_count (rt_allocator ring) < rb_cap (rt_allocator ring)"
  shows "\<exists>al. tick_node current t h ring res = Some (h', ring\<lparr>rt_timers := tm, rt_allocator := al\<rparr>, res @ [ucast s])
    \<and> rb_inv al \<and> rb_cap al = rb_cap (rt_allocator ring) \<and> rb_items al = rb_items (rt_allocator ring) @ [(t, 64)]"
proof -
  obtain al where al: "rb_push [] (rt_allocator ring) (t, 64) = Some (al, True)" "rb_inv al"
      "rb_cap al = rb_cap (rt_allocator ring)" "rb_items al = rb_items (rt_allocator ring) @ [(t, 64)]"
    using rbq.push_room [of "rt_allocator ring" "[]" "(t, 64)"] assms(6,7) by auto
  moreover have "cb_signal n = s" "cb_retries n = 0" using assms(1,2) by (simp_all add: entry_def)
  ultimately show ?thesis using assms(1,3-5) by (intro exI [of _ al]) (simp add: tick_node_def)
qed

lemma tick_node_wait:
  assumes "h t = Some n" "entry h t = (s, r)" "s \<noteq> 0" "r \<noteq> 0"
  shows "tick_node current t h ring res = Some (h(t \<mapsto> n\<lparr>cb_retries := r - 1\<rparr>), ring, res)"
  using assms by (auto simp: tick_node_def entry_def)

lemma wait_frame:
  assumes "h t = Some n" "entry h t = (s, r)" "links h xs"
  shows "links (h(t \<mapsto> n\<lparr>cb_retries := r'\<rparr>)) xs" "entry (h(t \<mapsto> n\<lparr>cb_retries := r'\<rparr>)) t = (s, r')"
    "a \<noteq> t \<Longrightarrow> entry (h(t \<mapsto> n\<lparr>cb_retries := r'\<rparr>)) a = entry h a"
    "dom (h(t \<mapsto> n\<lparr>cb_retries := r'\<rparr>)) = dom h"
  using assms by (auto simp: entry_def links_def [of h] nextp_def prevp_def intro!: links_cong [OF assms(3)])

section \<open>What a tick does to the entries of a slot\<close>

text \<open>Entries are pairs of signal and remaining rounds.\<close>

function drain :: "(u64 \<times> u64) list \<Rightarrow> u64 list" where
  "drain [] = []"
| "drain (e # es) = (if snd e = 0 then fst e # drain es else drain (es @ [(fst e, snd e - 1)]))"
  by pat_completeness auto

definition drain_measure :: "(u64 \<times> u64) list \<Rightarrow> nat" where
  "drain_measure es = length es + sum_list (map (\<lambda>e. unat (snd e)) es)"

lemma drain_measure_simps [simp]:
  "drain_measure [] = 0" "drain_measure (e # es) = Suc (unat (snd e) + drain_measure es)"
  "drain_measure (es @ fs) = drain_measure es + drain_measure fs"
  by (simp_all add: drain_measure_def)

lemma unat_pred_less: "r \<noteq> 0 \<Longrightarrow> unat (r - 1) < unat (r :: 'a::len word)"
  by (simp add: unat_minus_one unat_gt_0)

termination drain
  by (relation "measure drain_measure") (auto simp: unat_pred_less)

definition due :: "u64 \<times> u64 \<Rightarrow> bool" where "due e \<longleftrightarrow> snd e = 0"
definition defer_entry :: "u64 \<times> u64 \<Rightarrow> u64 \<times> u64" where "defer_entry e = (fst e, snd e - 1)"

definition slot_tick :: "(u64 \<times> u64) list \<Rightarrow> u64 list \<times> (u64 \<times> u64) list" where
  "slot_tick es =
     (if es \<noteq> [] \<and> due (hd es) then (drain es, [])
      else (map fst (filter due es), map defer_entry (filter (\<lambda>e. \<not> due e) es)))"

lemma slot_tick_signals: "e \<in> set (snd (slot_tick es)) \<Longrightarrow> fst e \<in> fst ` set es"
proof -
  assume "e \<in> set (snd (slot_tick es))"
  then obtain x where "x \<in> set es" "e = defer_entry x" by (auto simp: slot_tick_def split: if_splits)
  then show ?thesis by (simp add: defer_entry_def)
qed

text \<open>Every entry fires when a slot is drained.\<close>

lemma drain_all: "mset (drain es) = mset (map fst es)"
  by (induction es rule: drain.induct) auto

lemma drain_due: "list_all due es \<Longrightarrow> drain es = map fst es"
  by (induction es) (auto simp: due_def)

text \<open>Effect of a loop on the heap and the allocator: the nodes \<open>ps\<close> were released.\<close>

definition tick_frame :: "ptr set \<Rightarrow> ptr list \<Rightarrow> cb_heap \<Rightarrow> ringbuf \<Rightarrow> cb_heap \<Rightarrow> ringbuf \<Rightarrow> bool" where
  "tick_frame X ps h al h' al' \<longleftrightarrow>
     (\<forall>a. a \<notin> X \<longrightarrow> h' a = h a) \<and> dom h' = dom h \<and> rb_inv al' \<and> rb_cap al' = rb_cap al
     \<and> rb_items al' = rb_items al @ map (\<lambda>p. (p, 64)) ps"

lemma tick_frame_refl: "rb_inv al \<Longrightarrow> tick_frame X [] h al h al"
  by (simp add: tick_frame_def)

lemma tick_frame_trans:
  assumes "tick_frame X ps h al h1 al1" "tick_frame Y qs h1 al1 h2 al2" "Y \<subseteq> X"
  shows "tick_frame X (ps @ qs) h al h2 al2"
  using assms by (auto simp: tick_frame_def)

definition alloc_room :: "ringbuf \<Rightarrow> nat \<Rightarrow> bool" where
  "alloc_room al n \<longleftrightarrow> rb_inv al \<and> rb_count al + n \<le> rb_cap al"

lemma alloc_room_push:
  assumes "alloc_room al (Suc n)" "rb_inv al'" "rb_cap al' = rb_cap al" "rb_items al' = rb_items al @ [x]"
  shows "alloc_room al' n"
proof -
  have "rb_count al' = Suc (rb_count al)" using assms(4) by (metis length_append_singleton length_rb_items)
  then show ?thesis using assms(1-3) by (simp add: alloc_room_def)
qed

text \<open>One round of the loop, for a due node that is not alone and for one that waits.\<close>

lemma tick_loop_fire:
  assumes "links h (t # ys)" "ys \<noteq> []" "entry h t = (s, 0)" "s \<noteq> 0" "length res < 64"
    and "alloc_room (rt_allocator ring) (Suc k)" "rt_timers ring ! current \<in> set (t # ys)" "current < length (rt_timers ring)"
    and "tm = (if rt_timers ring ! current = t then (rt_timers ring)[current := hd ys] else rt_timers ring)"
  shows "\<exists>h1 al1. tick_loop current head t h ring res =
      (if hd ys = head then Some (h1, ring\<lparr>rt_timers := tm, rt_allocator := al1\<rparr>, res @ [ucast s])
       else tick_loop current head (hd ys) h1 (ring\<lparr>rt_timers := tm, rt_allocator := al1\<rparr>) (res @ [ucast s]))
    \<and> links h1 ys \<and> entry h1 = entry h \<and> tick_frame (set (t # ys)) [t] h (rt_allocator ring) h1 al1
    \<and> alloc_room al1 k"
proof -
  obtain n where n: "h t = Some n" using links_dom [OF assms(1)] by auto
  have nx: "cb_next n = hd ys" using links_next [OF assms(1)] assms(2) n by (simp add: nextp_def)
  have room: "rb_inv (rt_allocator ring)" "rb_count (rt_allocator ring) < rb_cap (rt_allocator ring)"
    using assms(6) by (simp_all add: alloc_room_def)
  obtain h1 where h1: "tick_unlink current t h (rt_timers ring) = Some (h1, tm)"
    "links h1 ys" "\<forall>a. a \<notin> set ys \<longrightarrow> h1 a = h a" "entry h1 = entry h" "dom h1 = dom h"
    using tick_unlink_step [OF assms(1,2), of current "rt_timers ring"] assms(9) by (auto simp: fun_eq_iff)
  obtain al where al: "tick_node current t h ring res = Some (h1, ring\<lparr>rt_timers := tm, rt_allocator := al\<rparr>, res @ [ucast s])"
    "rb_inv al" "rb_cap al = rb_cap (rt_allocator ring)" "rb_items al = rb_items (rt_allocator ring) @ [(t, 64)]"
    using tick_node_fire [OF n assms(3-5) h1(1) room] by blast
  have "NULL \<notin> set ys" using assms(1) by (simp add: links_def)
  then have "tm ! current \<noteq> NULL" using assms(2,7-9) hd_in_set [OF assms(2)] by (metis nth_list_update_eq set_ConsD)
  then have "tick_loop current head t h ring res =
      (if hd ys = head then Some (h1, ring\<lparr>rt_timers := tm, rt_allocator := al\<rparr>, res @ [ucast s])
       else tick_loop current head (hd ys) h1 (ring\<lparr>rt_timers := tm, rt_allocator := al\<rparr>) (res @ [ucast s]))"
    using n nx al(1) by (subst tick_loop.simps) simp
  moreover have "tick_frame (set (t # ys)) [t] h (rt_allocator ring) h1 al"
    using h1 al by (auto simp: tick_frame_def)
  ultimately show ?thesis using h1 al alloc_room_push [OF assms(6) al(2-4)] by blast
qed

lemma tick_loop_wait:
  assumes "links h (t # ys)" "entry h t = (s, r)" "s \<noteq> 0" "r \<noteq> 0"
    and "rt_timers ring ! current \<noteq> NULL" "rb_inv (rt_allocator ring)"
  shows "\<exists>h1. tick_loop current head t h ring res =
      (if hd (ys @ [t]) = head then Some (h1, ring, res) else tick_loop current head (hd (ys @ [t])) h1 ring res)
    \<and> links h1 (t # ys) \<and> entry h1 = (entry h)(t := (s, r - 1))
    \<and> tick_frame (set (t # ys)) [] h (rt_allocator ring) h1 (rt_allocator ring)"
proof -
  obtain n where n: "h t = Some n" using links_dom [OF assms(1)] by auto
  have nx: "cb_next n = hd (ys @ [t])" using links_next [OF assms(1)] n by (simp add: nextp_def)
  let ?h = "h(t \<mapsto> n\<lparr>cb_retries := r - 1\<rparr>)"
  note fr = wait_frame [OF n assms(2,1), where r' = "r - 1"]
  have "tick_loop current head t h ring res =
      (if hd (ys @ [t]) = head then Some (?h, ring, res) else tick_loop current head (hd (ys @ [t])) ?h ring res)"
    using n nx assms(5) tick_node_wait [OF n assms(2-4)] by (subst tick_loop.simps) simp
  moreover have "entry ?h = (entry h)(t := (s, r - 1))" using fr(2,3) by (auto simp: fun_eq_iff)
  moreover have "tick_frame (set (t # ys)) [] h (rt_allocator ring) ?h (rt_allocator ring)"
    using fr(4) assms(6) by (auto simp: tick_frame_def)
  ultimately show ?thesis using fr(1) by blast
qed

lemma tick_loop_last:
  assumes "links h [t]" "entry h t = (s, 0)" "s \<noteq> 0" "length res < 64"
    and "alloc_room (rt_allocator ring) 1" "current < length (rt_timers ring)"
  shows "\<exists>al. tick_loop current head t h ring res =
      Some (h, ring\<lparr>rt_timers := (rt_timers ring)[current := NULL], rt_allocator := al\<rparr>, res @ [ucast s])
    \<and> tick_frame {t} [t] h (rt_allocator ring) h al"
proof -
  obtain n where n: "h t = Some n" using links_dom [OF assms(1)] by auto
  have room: "rb_inv (rt_allocator ring)" "rb_count (rt_allocator ring) < rb_cap (rt_allocator ring)"
    using assms(5) by (simp_all add: alloc_room_def)
  from tick_node_fire [OF n assms(2-4) tick_unlink_single [OF assms(1)] room] obtain al where
    al: "tick_node current t h ring res =
        Some (h, ring\<lparr>rt_timers := (rt_timers ring)[current := NULL], rt_allocator := al\<rparr>, res @ [ucast s])"
      "rb_inv al" "rb_cap al = rb_cap (rt_allocator ring)" "rb_items al = rb_items (rt_allocator ring) @ [(t, 64)]"
    by blast
  then show ?thesis
    using n assms(6) by (intro exI [of _ al]) (subst tick_loop.simps, simp add: tick_frame_def)
qed

text \<open>Once the node the loop started at is gone, it goes on until the slot is empty.\<close>

lemma tick_loop_drain:
  assumes "links h xs" "xs \<noteq> []" "head \<notin> set xs" "rt_timers ring ! current \<in> set xs" "current < length (rt_timers ring)"
    and "\<forall>a \<in> set xs. fst (entry h a) \<noteq> 0"
    and "alloc_room (rt_allocator ring) (length xs)" "length res + length xs \<le> 64"
  shows "\<exists>h' al ps. tick_loop current head (hd xs) h ring res =
      Some (h', ring\<lparr>rt_timers := (rt_timers ring)[current := NULL], rt_allocator := al\<rparr>, res @ map ucast (drain (map (entry h) xs)))
    \<and> tick_frame (set xs) ps h (rt_allocator ring) h' al \<and> mset ps = mset xs"
  using assms
proof (induction "drain_measure (map (entry h) xs)" arbitrary: h xs ring res rule: less_induct)
  case less
  obtain t ys where xs: "xs = t # ys" using less.prems(2) by (cases xs) auto
  obtain s r where e: "entry h t = (s, r)" by fastforce
  have s: "s \<noteq> 0" using less.prems(6) xs e by auto
  have t: "t \<noteq> NULL" "t \<notin> set ys" "NULL \<notin> set ys" using less.prems(1) xs by (auto simp: links_def)
  consider (last) "r = 0" "ys = []" | (fire) "r = 0" "ys \<noteq> []" | (wait) "r \<noteq> 0" by blast
  then show ?case
  proof cases
    case last
    then show ?thesis
      using tick_loop_last [of h t s res ring current head] less.prems e s xs by (auto intro!: exI [of _ "[t]"])
  next
    case fire
    define tm where "tm = (if rt_timers ring ! current = t then (rt_timers ring)[current := hd ys] else rt_timers ring)"
    have pre: "links h (t # ys)" "length res < 64" "alloc_room (rt_allocator ring) (Suc (length ys))"
      "rt_timers ring ! current \<in> set (t # ys)" "entry h t = (s, 0)" and hd: "hd ys \<noteq> head"
      using less.prems fire e xs by auto
    obtain h1 al1 where step: "tick_loop current head t h ring res =
        tick_loop current head (hd ys) h1 (ring\<lparr>rt_timers := tm, rt_allocator := al1\<rparr>) (res @ [ucast s])"
      and h1: "links h1 ys" "entry h1 = entry h" "tick_frame (set (t # ys)) [t] h (rt_allocator ring) h1 al1"
        "alloc_room al1 (length ys)"
      using tick_loop_fire [OF pre(1) fire(2) pre(5) s pre(2-4) less.prems(5) tm_def, of head] hd by auto
    have tm: "tm ! current \<in> set ys" "tm[current := NULL] = (rt_timers ring)[current := NULL]"
      "current < length tm"
      using less.prems(4,5) xs fire by (auto simp: tm_def)
    let ?ring = "ring\<lparr>rt_timers := tm, rt_allocator := al1\<rparr>"
    have "drain_measure (map (entry h1) ys) < drain_measure (map (entry h) xs)" unfolding h1(2) xs by simp
    from less.hyps [OF this, of ?ring "res @ [ucast s]"] obtain h' al' ps where
      IH: "tick_loop current head (hd ys) h1 ?ring (res @ [ucast s]) =
          Some (h', ring\<lparr>rt_timers := (rt_timers ring)[current := NULL], rt_allocator := al'\<rparr>,
            res @ ucast s # map ucast (drain (map (entry h) ys)))"
        "tick_frame (set ys) ps h1 al1 h' al'" "mset ps = mset ys"
      using h1 fire less.prems xs tm by auto
    with step tick_frame_trans [OF h1(3) IH(2)] show ?thesis
      using xs e fire by (intro exI [of _ h'] exI [of _ al'] exI [of _ "t # ps"]) auto
  next
    case wait
    let ?xs = "ys @ [t]"
    have hd: "hd ?xs \<noteq> head" "rt_timers ring ! current \<noteq> NULL" "rb_inv (rt_allocator ring)"
      using less.prems(3,4,7) xs t by (auto simp: hd_append alloc_room_def)
    obtain h1 where step: "tick_loop current head t h ring res = tick_loop current head (hd ?xs) h1 ring res"
      and h1: "links h1 ?xs" "entry h1 = (entry h)(t := (s, r - 1))"
        "tick_frame (set xs) [] h (rt_allocator ring) h1 (rt_allocator ring)"
      using tick_loop_wait [OF _ e s wait hd(2,3), of ys head res] less.prems(1) hd(1) xs by (auto simp: links_rotate)
    have ents: "map (entry h1) ?xs = map (entry h) ys @ [(s, r - 1)]" using h1(2) t(2) by simp
    have meas: "drain_measure (map (entry h1) ?xs) < drain_measure (map (entry h) xs)"
      unfolding ents using xs e unat_pred_less [OF wait] by simp
    have nz: "\<forall>a \<in> set ?xs. fst (entry h1 a) \<noteq> 0" using h1(2) less.prems(6) xs s by simp
    have "head \<notin> set ?xs" "rt_timers ring ! current \<in> set ?xs" "alloc_room (rt_allocator ring) (length ?xs)"
      "length res + length ?xs \<le> 64" using less.prems xs by auto
    from less.hyps [OF meas h1(1) _ this(1,2) less.prems(5) nz this(3,4), unfolded ents] obtain h' al ps where
      IH: "tick_loop current head (hd ?xs) h1 ring res =
          Some (h', ring\<lparr>rt_timers := (rt_timers ring)[current := NULL], rt_allocator := al\<rparr>,
            res @ map ucast (drain (map (entry h) ys @ [(s, r - 1)])))"
        "tick_frame (set xs) ps h1 (rt_allocator ring) h' al" "mset ps = mset xs"
      using xs by auto
    with step tick_frame_trans [OF h1(3) IH(2)] show ?thesis
      using xs e wait by (intro exI [of _ h'] exI [of _ al] exI [of _ ps]) auto
  qed
qed

text \<open>While the node it started at stays, the loop makes one round.\<close>

lemma tick_loop_round:
  assumes "links h (done @ todo)" "done \<noteq> []" "todo \<noteq> []" "rt_timers ring ! current = hd done"
    and "current < length (rt_timers ring)" "\<forall>a \<in> set todo. fst (entry h a) \<noteq> 0"
    and "alloc_room (rt_allocator ring) (length todo)" "length res + length todo \<le> 64"
  shows "\<exists>h' al. tick_loop current (hd done) (hd todo) h ring res =
      Some (h', ring\<lparr>rt_allocator := al\<rparr>, res @ map ucast (map fst (filter due (map (entry h) todo))))
    \<and> links h' (done @ filter (\<lambda>a. \<not> due (entry h a)) todo)
    \<and> map (entry h') (done @ filter (\<lambda>a. \<not> due (entry h a)) todo)
        = map (entry h) done @ map defer_entry (filter (\<lambda>e. \<not> due e) (map (entry h) todo))
    \<and> tick_frame (set (done @ todo)) (filter (\<lambda>a. due (entry h a)) todo) h (rt_allocator ring) h' al"
  using assms
proof (induction todo arbitrary: h ring res "done")
  case Nil
  then show ?case by simp
next
  case (Cons t ys)
  obtain s r where e: "entry h t = (s, r)" by fastforce
  let ?head = "hd done"
  have s: "s \<noteq> 0" using Cons.prems(6) e by auto
  have hd_done: "?head \<in> set done" using Cons.prems(2) by (rule hd_in_set)
  have "NULL \<notin> set done" "t \<notin> set done" "t \<notin> set ys" using Cons.prems(1) by (auto simp: links_def)
  with hd_done have d: "t \<notin> set done" "t \<notin> set ys" "?head \<noteq> t" "?head \<noteq> NULL" "?head \<in> set done" by metis+
  have lt: "links h (t # (ys @ done))" using Cons.prems(1) links_rotate_append [of h "done" "t # ys"] by simp
  have hd_ys: "hd (ys @ done) = ?head \<longleftrightarrow> ys = []"
    using Cons.prems(1,2) d(5) by (cases ys) (auto simp: links_def)
  show ?case
  proof (cases "r = 0")
    case True
    obtain h1 al1 where step: "tick_loop current ?head t h ring res =
        (if ys = [] then Some (h1, ring\<lparr>rt_allocator := al1\<rparr>, res @ [ucast s])
         else tick_loop current ?head (hd ys) h1 (ring\<lparr>rt_allocator := al1\<rparr>) (res @ [ucast s]))"
      and h1: "links h1 (done @ ys)" "entry h1 = entry h" "alloc_room al1 (length ys)"
        "tick_frame (set (done @ t # ys)) [t] h (rt_allocator ring) h1 al1"
      using tick_loop_fire [OF lt _ e [unfolded True] s, of res ring "length ys" current "rt_timers ring" ?head]
        Cons.prems d hd_ys links_rotate_append [of _ ys "done"]
      by (auto simp: insert_commute Un_commute)
    show ?thesis
    proof (cases "ys = []")
      case True
      then show ?thesis using step h1 e \<open>r = 0\<close> by (auto simp: due_def)
    next
      case False
      then obtain h' al where IH: "tick_loop current ?head (hd ys) h1 (ring\<lparr>rt_allocator := al1\<rparr>) (res @ [ucast s]) =
          Some (h', ring\<lparr>rt_allocator := al\<rparr>, (res @ [ucast s]) @ map ucast (map fst (filter due (map (entry h) ys))))"
        "links h' (done @ filter (\<lambda>a. \<not> due (entry h a)) ys)"
        "map (entry h') (done @ filter (\<lambda>a. \<not> due (entry h a)) ys)
          = map (entry h) done @ map defer_entry (filter (\<lambda>e. \<not> due e) (map (entry h) ys))"
        "tick_frame (set (done @ ys)) (filter (\<lambda>a. due (entry h a)) ys) h1 al1 h' al"
        using Cons.IH [OF h1(1) Cons.prems(2) False, of "ring\<lparr>rt_allocator := al1\<rparr>" "res @ [ucast s]"] Cons.prems(4-8) h1(2,3)
        by auto
      moreover have "due (s, r)" using \<open>r = 0\<close> by (simp add: due_def)
      ultimately show ?thesis
        using step tick_frame_trans [OF h1(4) IH(4)] False e
        by (intro exI [of _ h'] exI [of _ al]) auto
    qed
  next
    case False
    have inv: "rb_inv (rt_allocator ring)" using Cons.prems(7) by (simp add: alloc_room_def)
    obtain h1 where step: "tick_loop current ?head t h ring res =
        (if ys = [] then Some (h1, ring, res) else tick_loop current ?head (hd ys) h1 ring res)"
      and h1: "links h1 ((done @ [t]) @ ys)" "entry h1 = (entry h)(t := (s, r - 1))"
        "tick_frame (set (done @ t # ys)) [] h (rt_allocator ring) h1 (rt_allocator ring)"
      using tick_loop_wait [OF lt e s False _ inv, of current ?head res] Cons.prems d hd_ys
        links_rotate_append [of _ "done" "t # ys"]
      by (auto simp: insert_commute Un_commute hd_append split: if_splits)
    have ents: "map (entry h1) ys = map (entry h) ys" "map (entry h1) done = map (entry h) done"
        "filter (\<lambda>a. due (entry h1 a)) ys = filter (\<lambda>a. due (entry h a)) ys"
        "filter (\<lambda>a. \<not> due (entry h1 a)) ys = filter (\<lambda>a. \<not> due (entry h a)) ys"
      using h1(2) d by (auto intro!: filter_cong)
    have nd: "\<not> due (s, r)" "defer_entry (s, r) = (s, r - 1)" using False by (simp_all add: due_def defer_entry_def)
    show ?thesis
    proof (cases "ys = []")
      case True
      then show ?thesis
        using step h1 e nd ents inv by (intro exI [of _ h1] exI [of _ "rt_allocator ring"]) auto
    next
      case ne: False
      have "\<forall>a \<in> set ys. fst (entry h1 a) \<noteq> 0"
        using ents(1) Cons.prems(6) by (metis list.set_intros(2) map_eq_conv)
      moreover have "alloc_room (rt_allocator ring) (length ys)" "length res + length ys \<le> 64"
        using Cons.prems(7,8) by (simp_all add: alloc_room_def)
      ultimately obtain h' al where IH: "tick_loop current ?head (hd ys) h1 ring res =
          Some (h', ring\<lparr>rt_allocator := al\<rparr>, res @ map ucast (map fst (filter due (map (entry h) ys))))"
        "links h' ((done @ [t]) @ filter (\<lambda>a. \<not> due (entry h a)) ys)"
        "map (entry h') ((done @ [t]) @ filter (\<lambda>a. \<not> due (entry h a)) ys)
          = map (entry h1) (done @ [t]) @ map defer_entry (filter (\<lambda>e. \<not> due e) (map (entry h) ys))"
        "tick_frame (set ((done @ [t]) @ ys)) (filter (\<lambda>a. due (entry h a)) ys) h1 (rt_allocator ring) h' al"
        using Cons.IH [OF h1(1) _ ne, of ring res, unfolded ents] Cons.prems(2,4,5) by auto
      with step tick_frame_trans [OF h1(3) IH(4)] ne h1(2) show ?thesis
        using e nd ents by (intro exI [of _ h'] exI [of _ al]) auto
    qed
  qed
qed

text \<open>Both cases together: the loop does to the slot what \<open>slot_tick\<close> says.\<close>

definition slot_head :: "ptr list \<Rightarrow> ptr" where
  "slot_head xs = (if xs = [] then NULL else hd xs)"

lemma tick_slot:
  assumes "links h xs" "xs \<noteq> []" "rt_timers ring ! current = hd xs" "current < length (rt_timers ring)"
    and "\<forall>a \<in> set xs. fst (entry h a) \<noteq> 0" "alloc_room (rt_allocator ring) (length xs)" "length xs \<le> 64"
  shows "\<exists>h' al xs' ps. tick_loop current (hd xs) (hd xs) h ring [] =
      Some (h', ring\<lparr>rt_timers := (rt_timers ring)[current := slot_head xs'], rt_allocator := al\<rparr>,
        map ucast (fst (slot_tick (map (entry h) xs))))
    \<and> links h' xs' \<and> map (entry h') xs' = snd (slot_tick (map (entry h) xs))
    \<and> tick_frame (set xs) ps h (rt_allocator ring) h' al \<and> mset xs = mset xs' + mset ps"
proof -
  obtain t ys where xs: "xs = t # ys" using assms(2) by (cases xs) auto
  obtain s r where e: "entry h t = (s, r)" by fastforce
  have s: "s \<noteq> 0" and inv: "rb_inv (rt_allocator ring)" using assms(5,6) xs e by (auto simp: alloc_room_def)
  have t: "t \<noteq> NULL" "t \<notin> set ys" using assms(1) xs by (auto simp: links_def)
  then have hd_ys: "hd ys \<noteq> t" if "ys \<noteq> []" using hd_in_set [OF that] by auto
  have upd: "(rt_timers ring)[current := t] = rt_timers ring" using assms(3,4) xs by (metis list.sel(1) list_update_id)
  consider (last) "r = 0" "ys = []" | (fire) "r = 0" "ys \<noteq> []" | (alone) "r \<noteq> 0" "ys = []" | (round) "r \<noteq> 0" "ys \<noteq> []" by blast
  then show ?thesis
  proof cases
    case last
    then show ?thesis
      using tick_loop_last [of h t s "[]" ring current t] assms xs e s
      by (auto simp: slot_tick_def due_def slot_head_def links_def [of _ "[]"] intro!: exI [of _ "[]"] exI [of _ "[t]"])
  next
    case fire
    obtain h1 al1 where step: "tick_loop current t t h ring [] =
        tick_loop current t (hd ys) h1 (ring\<lparr>rt_timers := (rt_timers ring)[current := hd ys], rt_allocator := al1\<rparr>) [ucast s]"
      and h1: "links h1 ys" "entry h1 = entry h" "tick_frame (set xs) [t] h (rt_allocator ring) h1 al1" "alloc_room al1 (length ys)"
      using tick_loop_fire [of h t ys s "[]" ring "length ys" current "(rt_timers ring)[current := hd ys]" t] assms fire e s xs hd_ys
      by auto
    let ?ring = "ring\<lparr>rt_timers := (rt_timers ring)[current := hd ys], rt_allocator := al1\<rparr>"
    have "rt_timers ?ring ! current \<in> set ys" "current < length (rt_timers ?ring)"
      "\<forall>a \<in> set ys. fst (entry h1 a) \<noteq> 0" "alloc_room (rt_allocator ?ring) (length ys)" "length [ucast s :: i32] + length ys \<le> 64"
      using assms h1 fire xs by auto
    from tick_loop_drain [OF h1(1) fire(2) t(2) this] obtain h' al ps where
      dr: "tick_loop current t (hd ys) h1 ?ring [ucast s] =
        Some (h', ring\<lparr>rt_timers := (rt_timers ring)[current := NULL], rt_allocator := al\<rparr>, ucast s # map ucast (drain (map (entry h) ys)))"
        "tick_frame (set ys) ps h1 al1 h' al" "mset ps = mset ys"
      by (auto simp: h1(2))
    with step tick_frame_trans [OF h1(3) dr(2)] show ?thesis
      using xs e fire
      by (intro exI [of _ h'] exI [of _ al] exI [of _ "[]"] exI [of _ "t # ps"])
        (auto simp: slot_tick_def due_def slot_head_def links_def)
  next
    case alone
    obtain h1 where "tick_loop current t t h ring [] = Some (h1, ring, [])" "links h1 [t]"
      "entry h1 = (entry h)(t := (s, r - 1))" "tick_frame {t} [] h (rt_allocator ring) h1 (rt_allocator ring)"
      using tick_loop_wait [of h t ys s r ring current t "[]"] assms alone e s xs inv t by auto
    then show ?thesis
      using xs alone upd e
      by (intro exI [of _ h1] exI [of _ "rt_allocator ring"] exI [of _ "[t]"] exI [of _ "[]"])
        (simp add: slot_tick_def due_def slot_head_def defer_entry_def)
  next
    case round
    obtain h1 where step: "tick_loop current t t h ring [] = tick_loop current t (hd ys) h1 ring []"
      and h1: "links h1 ([t] @ ys)" "entry h1 = (entry h)(t := (s, r - 1))"
        "tick_frame (set xs) [] h (rt_allocator ring) h1 (rt_allocator ring)"
      using tick_loop_wait [of h t ys s r ring current t "[]"] assms round e s xs inv t hd_ys by auto
    let ?keep = "filter (\<lambda>a. \<not> due (entry h a)) ys"
    have ents: "map (entry h1) ys = map (entry h) ys" "filter (\<lambda>a. due (entry h1 a)) ys = filter (\<lambda>a. due (entry h a)) ys"
        "filter (\<lambda>a. \<not> due (entry h1 a)) ys = ?keep"
      using h1(2) t by (auto intro!: filter_cong)
    have "\<forall>a \<in> set ys. fst (entry h1 a) \<noteq> 0" using ents(1) assms(5) xs by (metis list.set_intros(2) map_eq_conv)
    moreover have "alloc_room (rt_allocator ring) (length ys)" "length ([] :: i32 list) + length ys \<le> 64"
      using assms(6,7) xs by (simp_all add: alloc_room_def)
    ultimately obtain h' al where rd: "tick_loop current t (hd ys) h1 ring [] =
          Some (h', ring\<lparr>rt_allocator := al\<rparr>, map ucast (map fst (filter due (map (entry h) ys))))"
        "links h' (t # ?keep)"
        "map (entry h') (t # ?keep) = (s, r - 1) # map defer_entry (filter (\<lambda>e. \<not> due e) (map (entry h) ys))"
        "tick_frame (set xs) (filter (\<lambda>a. due (entry h a)) ys) h1 (rt_allocator ring) h' al"
      using tick_loop_round [OF h1(1) _ round(2), of ring current "[]", unfolded ents] assms(3,4) h1(2) xs by auto
    have "mset ys = mset ?keep + mset (filter (\<lambda>a. due (entry h a)) ys)" by (induction ys) auto
    with rd step tick_frame_trans [OF h1(3) rd(4)] show ?thesis
      using xs e round upd
      by (intro exI [of _ h'] exI [of _ al] exI [of _ "t # ?keep"] exI [of _ "filter (\<lambda>a. due (entry h a)) ys"])
        (simp add: slot_tick_def due_def slot_head_def defer_entry_def)
  qed
qed

section \<open>The wheel\<close>

definition slots_disjoint :: "ptr list list \<Rightarrow> ptr set \<Rightarrow> bool" where
  "slots_disjoint W F \<longleftrightarrow> (\<forall>i < length W. set (W ! i) \<inter> F = {}
     \<and> (\<forall>j < length W. i \<noteq> j \<longrightarrow> set (W ! i) \<inter> set (W ! j) = {}))"

text \<open>
  \<open>wheel_rep h ring W\<close>: slot \<open>i\<close> of the wheel is the circular list of the nodes \<open>W ! i\<close>; no node
  is in two places, free nodes included; every entry has a signal; released nodes find room.
\<close>

definition wheel_rep :: "cb_heap \<Rightarrow> ringtimer \<Rightarrow> ptr list list \<Rightarrow> bool" where
  "wheel_rep h ring W \<longleftrightarrow>
     length W = length (rt_timers ring) \<and> unat (rt_max ring) = length (rt_timers ring)
     \<and> unat (rt_current ring) < length W
     \<and> (\<forall>i < length W. links h (W ! i) \<and> rt_timers ring ! i = slot_head (W ! i)
          \<and> (\<forall>a \<in> set (W ! i). fst (entry h a) \<noteq> 0))
     \<and> slots_disjoint W (set (map fst (rb_items (rt_allocator ring))))
     \<and> distinct (map fst (rb_items (rt_allocator ring))) \<and> NULL \<notin> set (map fst (rb_items (rt_allocator ring)))
     \<and> alloc_room (rt_allocator ring) (sum_list (map length W))"

definition wheel_entries :: "cb_heap \<Rightarrow> ptr list list \<Rightarrow> (u64 \<times> u64) list list" where
  "wheel_entries h W = map (map (entry h)) W"

definition timer_slot :: "ringtimer \<Rightarrow> u64 \<Rightarrow> u32" where
  "timer_slot ring time = ucast (ucast (rt_current ring) + (time - 1))"

lemma length_wheel_entries [simp]: "length (wheel_entries h W) = length W"
  by (simp add: wheel_entries_def)

lemma sum_list_length_update:
  "i < length W \<Longrightarrow> sum_list (map length (W[i := x])) + length (W ! i) = sum_list (map length W) + length x"
proof (induction W arbitrary: i)
  case (Cons w W)
  then show ?case by (cases i) auto
qed simp

lemma slot_length_le: "i < length W \<Longrightarrow> length (W ! i) \<le> sum_list (map length W)"
  using sum_list_length_update [of i W "[]"] by simp

text \<open>Changing one slot and the heap only at its old and new nodes.\<close>

lemma entry_cong: "h' a = h a \<Longrightarrow> entry h' a = entry h a"
  by (simp add: entry_def)

lemma links_frame: "links h xs \<Longrightarrow> \<forall>a \<in> set xs. h' a = h a \<Longrightarrow> links h' xs"
  by (rule links_cong [of h]) (auto simp: nextp_def prevp_def dest: links_dom)

lemma wheel_rep_update:
  assumes "wheel_rep h ring W" "i < length W" "\<forall>a. a \<notin> X \<longrightarrow> h' a = h a"
    and "\<forall>j < length W. j \<noteq> i \<longrightarrow> set (W ! j) \<inter> X = {}" "links h' xs" "\<forall>a \<in> set xs. fst (entry h' a) \<noteq> 0"
    and "set xs \<subseteq> X" "ring' = ring\<lparr>rt_timers := (rt_timers ring)[i := slot_head xs], rt_allocator := al\<rparr>"
    and "\<forall>j < length W. j \<noteq> i \<longrightarrow> set (W ! j) \<inter> set (map fst (rb_items al)) = {}" "set xs \<inter> set (map fst (rb_items al)) = {}"
    and "distinct (map fst (rb_items al))" "NULL \<notin> set (map fst (rb_items al))"
    and "rb_inv al" "rb_count al + sum_list (map length W) + length xs \<le> rb_cap al + length (W ! i)"
  shows "wheel_rep h' ring' (W[i := xs])" and "wheel_entries h' (W[i := xs]) = (wheel_entries h W)[i := map (entry h') xs]"
proof -
  have W: "length W = length (rt_timers ring)" "unat (rt_max ring) = length (rt_timers ring)"
      "unat (rt_current ring) < length W" "slots_disjoint W (set (map fst (rb_items (rt_allocator ring))))"
    "\<And>j. j < length W \<Longrightarrow> links h (W ! j) \<and> rt_timers ring ! j = slot_head (W ! j) \<and> (\<forall>a \<in> set (W ! j). fst (entry h a) \<noteq> 0)"
    using assms(1) by (auto simp: wheel_rep_def)
  have other: "links h' (W ! j)" "\<forall>a \<in> set (W ! j). entry h' a = entry h a" if "j < length W" "j \<noteq> i" for j
  proof -
    have "\<forall>a \<in> set (W ! j). h' a = h a" using assms(3,4) that by blast
    then show "links h' (W ! j)" "\<forall>a \<in> set (W ! j). entry h' a = entry h a"
      using W(5) that links_frame entry_cong by blast+
  qed
  have "slots_disjoint (W[i := xs]) (set (map fst (rb_items al)))"
    using W(4) assms(2,4,7,9,10) unfolding slots_disjoint_def by (auto simp: nth_list_update)
      (blast, blast)
  moreover have "alloc_room al (sum_list (map length (W[i := xs])))"
    using assms(13,14) sum_list_length_update [OF assms(2), of xs] by (simp add: alloc_room_def)
  moreover have "links h' (W[i := xs] ! j) \<and> rt_timers ring' ! j = slot_head (W[i := xs] ! j)
      \<and> (\<forall>a \<in> set (W[i := xs] ! j). fst (entry h' a) \<noteq> 0)" if "j < length W" for j
    using other [OF that] W(1,5) that assms(5,6,8) by (cases "j = i") (auto simp: nth_list_update)
  ultimately show "wheel_rep h' ring' (W[i := xs])"
    using W assms(8,11,12) by (simp add: wheel_rep_def)
  show "wheel_entries h' (W[i := xs]) = (wheel_entries h W)[i := map (entry h') xs]"
    using other assms(2) by (intro list_eq_iff_nth_eq [THEN iffD2]) (auto simp: wheel_entries_def nth_list_update)
qed

text \<open>Inserting a timer appends an entry to its slot; a tick does \<open>slot_tick\<close> to the current one.\<close>

lemma insert_links:
  assumes "links h xs" "xs \<noteq> []" "p \<notin> set xs" "p \<noteq> NULL"
    and "h (hd xs) = Some f" "h (cb_prev f) = Some l"
    and "h2 = h(cb_prev f \<mapsto> l\<lparr>cb_next := p\<rparr>, p \<mapsto> \<lparr>cb_retries = r, cb_signal = s, cb_prev = cb_prev f, cb_next = hd xs\<rparr>)"
    and "h2 (hd xs) = Some f'" "h3 = h2(hd xs \<mapsto> f'\<lparr>cb_prev := p\<rparr>)"
  shows "links h3 (xs @ [p])" "entry h3 p = (s, r)" "\<forall>a. a \<noteq> p \<longrightarrow> entry h3 a = entry h a"
    "\<forall>a. a \<notin> insert p (set xs) \<longrightarrow> h3 a = h a"
proof -
  have in_xs: "hd xs \<in> set xs" "last xs \<in> set xs" using assms(2) by auto
  have pr: "cb_prev f = last xs"
    using links_prev [of h "hd xs" "tl xs"] assms(1,2,5) by (simp add: prevp_def)
  have ne: "hd xs \<noteq> p" "last xs \<noteq> p" using in_xs assms(3) by auto
  have f': "f' = (if hd xs = last xs then l\<lparr>cb_next := p\<rparr> else f)"
    using assms(5,7,8) pr ne by (auto split: if_splits)
  have h3: "h3 = h(last xs \<mapsto> l\<lparr>cb_next := p\<rparr>, p \<mapsto> \<lparr>cb_retries = r, cb_signal = s, cb_prev = last xs, cb_next = hd xs\<rparr>,
      hd xs \<mapsto> f'\<lparr>cb_prev := p\<rparr>)" using assms(7,9) pr by simp
  have fl: "h (last xs) = Some l" "hd xs = last xs \<longrightarrow> f = l" using assms(5,6) pr by auto
  have dom3: "insert p (set xs) \<subseteq> dom h3" using assms(1) by (auto simp: h3 links_def)
  show "links h3 (xs @ [p])"
  proof (rule links_append [OF assms(1-4) dom3])
    show "nextp h3 (last xs) = p" using f' ne by (auto simp: h3 nextp_def)
    show "nextp h3 p = hd xs" "prevp h3 p = last xs" "prevp h3 (hd xs) = p" using ne by (simp_all add: h3 nextp_def prevp_def)
    show "\<forall>a \<in> set xs - {last xs}. nextp h3 a = nextp h a" using f' assms(3,5) by (auto simp: h3 nextp_def)
    show "\<forall>a \<in> set xs - {hd xs}. prevp h3 a = prevp h a" using fl assms(3) by (auto simp: h3 prevp_def)
  qed
  show "entry h3 p = (s, r)" using ne by (simp add: h3 entry_def)
  show "\<forall>a. a \<noteq> p \<longrightarrow> entry h3 a = entry h a" using f' fl assms(5) by (auto simp: h3 entry_def)
  show "\<forall>a. a \<notin> insert p (set xs) \<longrightarrow> h3 a = h a" using in_xs by (auto simp: h3)
qed

lemma insert_ringtimer_step:
  assumes "wheel_rep h ring W" "rb_items (rt_allocator ring) = (p, l) # rest"
    and "i = unat (timer_slot ring time mod rt_max ring)" "r = ucast (timer_slot ring time div rt_max ring)"
  shows "\<exists>h' al. insert_ringtimer signal time h ring =
      Some (h', ring\<lparr>rt_timers := (rt_timers ring)[i := slot_head (W ! i @ [p])], rt_allocator := al\<rparr>, True)
    \<and> i < length W \<and> p \<noteq> NULL \<and> p \<notin> set (W ! i) \<and> links h' (W ! i @ [p])
    \<and> entry h' p = (signal, r) \<and> (\<forall>a. a \<noteq> p \<longrightarrow> entry h' a = entry h a) \<and> (\<forall>a. a \<notin> insert p (set (W ! i)) \<longrightarrow> h' a = h a)
    \<and> rb_inv al \<and> rb_cap al = rb_cap (rt_allocator ring) \<and> rb_items al = rest"
proof -
  have W: "length W = length (rt_timers ring)" "unat (rt_max ring) = length (rt_timers ring)" "unat (rt_current ring) < length W"
    and inv: "rb_inv (rt_allocator ring)" and p: "p \<noteq> NULL"
    using assms(1,2) by (auto simp: wheel_rep_def alloc_room_def)
  have nz: "rt_max ring \<noteq> 0" using W by auto
  have "0 < length (rt_timers ring)" using W by linarith
  then have i: "i < length W" using assms(3) W by (simp add: unat_mod_distrib)
  have sl: "links h (W ! i)" "rt_timers ring ! i = slot_head (W ! i)" and pW: "p \<notin> set (W ! i)"
    using assms(1,2) i by (auto simp: wheel_rep_def slots_disjoint_def)
  obtain al where al: "rb_pop [] (rt_allocator ring) = Some (al, Some (p, l))" "rb_inv al"
      "rb_cap al = rb_cap (rt_allocator ring)" "rb_items al = rest"
    using rbq.pop_front [OF inv assms(2)] by blast
  have ins: "insert_ringtimer signal time h ring =
      (let first = rt_timers ring ! i in
       if first = NULL
       then Some (h(p \<mapsto> \<lparr>cb_retries = r, cb_signal = signal, cb_prev = p, cb_next = p\<rparr>),
                  ring\<lparr>rt_timers := (rt_timers ring)[i := p], rt_allocator := al\<rparr>, True)
       else do { f \<leftarrow> h first; l \<leftarrow> h (cb_prev f);
                 let h2 = h(cb_prev f \<mapsto> l\<lparr>cb_next := p\<rparr>, p \<mapsto> \<lparr>cb_retries = r, cb_signal = signal, cb_prev = cb_prev f, cb_next = first\<rparr>)
                 in do { f' \<leftarrow> h2 first; Some (h2(first \<mapsto> f'\<lparr>cb_prev := p\<rparr>), ring\<lparr>rt_allocator := al\<rparr>, True) } })"
    using al(1) p nz i W(1) by (simp add: insert_ringtimer_def Let_def assms(3,4) timer_slot_def)
  show ?thesis
  proof (cases "W ! i = []")
    case True
    let ?h = "h(p \<mapsto> \<lparr>cb_retries = r, cb_signal = signal, cb_prev = p, cb_next = p\<rparr>)"
    have "links ?h [p]" using p by (simp add: links_def linked_def nextp_def prevp_def)
    then show ?thesis
      using True ins sl(2) al(2-4) p i pW
      by (intro exI [of _ ?h] exI [of _ al]) (simp add: slot_head_def entry_def)
  next
    case False
    have hd: "hd (W ! i) \<in> set (W ! i)" using False by simp
    then obtain f where f: "h (hd (W ! i)) = Some f" using links_dom [OF sl(1)] by blast
    have "cb_prev f = last (W ! i)"
      using links_prev [of h "hd (W ! i)" "tl (W ! i)"] sl(1) False f by (simp add: prevp_def)
    then obtain l where l: "h (cb_prev f) = Some l" using links_dom [OF sl(1)] False by (metis last_in_set)
    define h2 where "h2 = h(cb_prev f \<mapsto> l\<lparr>cb_next := p\<rparr>, p \<mapsto> \<lparr>cb_retries = r, cb_signal = signal, cb_prev = cb_prev f, cb_next = hd (W ! i)\<rparr>)"
    have "\<exists>f'. h2 (hd (W ! i)) = Some f'" using f by (auto simp: h2_def)
    then obtain f' where f': "h2 (hd (W ! i)) = Some f'" by blast
    note il = insert_links [OF sl(1) False pW p f l h2_def f' refl]
    have "rt_timers ring ! i = hd (W ! i)" "hd (W ! i) \<noteq> NULL"
      using sl(2) False links_hd [OF sl(1) False] by (simp_all add: slot_head_def)
    then have "insert_ringtimer signal time h ring = Some (h2(hd (W ! i) \<mapsto> f'\<lparr>cb_prev := p\<rparr>), ring\<lparr>rt_allocator := al\<rparr>, True)"
      using ins f l f' by (auto simp: Let_def h2_def split: if_splits)
    moreover have "(rt_timers ring)[i := slot_head (W ! i @ [p])] = rt_timers ring"
      using sl(2) False by (metis append_is_Nil_conv hd_append2 list_update_id slot_head_def)
    ultimately show ?thesis
      using il al(2-4) i p pW by (intro exI [of _ "h2(hd (W ! i) \<mapsto> f'\<lparr>cb_prev := p\<rparr>)"] exI [of _ al]) simp
  qed
qed

lemma wheel_slot:
  assumes "wheel_rep h ring W" "i < length W"
  shows "links h (W ! i)" "rt_timers ring ! i = slot_head (W ! i)" "\<forall>a \<in> set (W ! i). fst (entry h a) \<noteq> 0"
    "set (W ! i) \<inter> set (map fst (rb_items (rt_allocator ring))) = {}"
    "j < length W \<Longrightarrow> j \<noteq> i \<Longrightarrow> set (W ! j) \<inter> set (W ! i) = {}"
    "alloc_room (rt_allocator ring) (sum_list (map length W))" "length W = length (rt_timers ring)"
    "distinct (map fst (rb_items (rt_allocator ring)))" "NULL \<notin> set (map fst (rb_items (rt_allocator ring)))"
  using assms by (auto simp: wheel_rep_def slots_disjoint_def)

lemma insert_ringtimer_rep:
  assumes "wheel_rep h ring W" "rb_items (rt_allocator ring) = (p, l) # rest" "signal \<noteq> 0"
    and "i = unat (timer_slot ring time mod rt_max ring)"
  shows "\<exists>h' ring'. insert_ringtimer signal time h ring = Some (h', ring', True) \<and> wheel_rep h' ring' (W[i := W ! i @ [p]])
    \<and> wheel_entries h' (W[i := W ! i @ [p]]) = (wheel_entries h W)
        [i := wheel_entries h W ! i @ [(signal, ucast (timer_slot ring time div rt_max ring))]]
    \<and> rt_current ring' = rt_current ring \<and> rt_max ring' = rt_max ring \<and> rb_items (rt_allocator ring') = rest"
proof -
  obtain h' al where st: "insert_ringtimer signal time h ring =
      Some (h', ring\<lparr>rt_timers := (rt_timers ring)[i := slot_head (W ! i @ [p])], rt_allocator := al\<rparr>, True)"
      "i < length W" "p \<notin> set (W ! i)" "links h' (W ! i @ [p])"
      "entry h' p = (signal, ucast (timer_slot ring time div rt_max ring))"
      "\<forall>a. a \<noteq> p \<longrightarrow> entry h' a = entry h a" "\<forall>a. a \<notin> insert p (set (W ! i)) \<longrightarrow> h' a = h a"
      "rb_inv al" "rb_cap al = rb_cap (rt_allocator ring)" "rb_items al = rest"
    using insert_ringtimer_step [OF assms(1,2,4) refl, of signal] by blast
  let ?ring = "ring\<lparr>rt_timers := (rt_timers ring)[i := slot_head (W ! i @ [p])], rt_allocator := al\<rparr>"
  note ws = wheel_slot [OF assms(1)]
  have cnt: "rb_count (rt_allocator ring) = Suc (rb_count al)"
    using assms(2) st(10) by (metis length_Cons length_rb_items)
  have off: "\<forall>j < length W. j \<noteq> i \<longrightarrow> set (W ! j) \<inter> insert p (set (W ! i)) = {}"
    using ws(4,5) st(2) assms(2) by fastforce
  have nz: "\<forall>a \<in> set (W ! i @ [p]). fst (entry h' a) \<noteq> 0"
  proof
    fix a assume "a \<in> set (W ! i @ [p])"
    then show "fst (entry h' a) \<noteq> 0" using ws(3) [OF st(2)] st(5,6) assms(3) by (cases "a = p") auto
  qed
  have fs: "set (map fst (rb_items (rt_allocator ring))) = insert p (set (map fst (rb_items al)))"
      "p \<notin> set (map fst (rb_items al))" "distinct (map fst (rb_items al))" "NULL \<notin> set (map fst (rb_items al))"
    using assms(2) st(10) ws(8,9) [OF st(2)] by simp_all
  have al: "\<forall>j < length W. j \<noteq> i \<longrightarrow> set (W ! j) \<inter> set (map fst (rb_items al)) = {}"
    "set (W ! i @ [p]) \<inter> set (map fst (rb_items al)) = {}"
    using ws(4) st(2) fs(1,2) by (blast, auto)
  have "rb_count al + sum_list (map length W) + length (W ! i @ [p]) \<le> rb_cap al + length (W ! i)"
    using ws(6) [OF st(2)] cnt st(9) by (simp add: alloc_room_def)
  note up = wheel_rep_update [OF assms(1) st(2,7) off st(4) nz _ refl al fs(3,4) st(8) this]
  have "map (entry h') (W ! i @ [p]) = wheel_entries h W ! i @ [(signal, ucast (timer_slot ring time div rt_max ring))]"
    using st(2,3,5,6) by (auto simp: wheel_entries_def)
  with up st(1,10) show ?thesis by auto
qed

lemma mset_concat_update:
  "i < length W \<Longrightarrow> mset (concat (W[i := x])) + mset (W ! i) = mset (concat W) + mset x"
proof (induction W arbitrary: i)
  case (Cons w W)
  then show ?case by (cases i) (auto simp: add_ac)
qed simp

lemma wheel_rep_current:
  "wheel_rep h ring W \<Longrightarrow> unat c < length W \<Longrightarrow> wheel_rep h (ring\<lparr>rt_current := c\<rparr>) W"
  by (simp add: wheel_rep_def)

lemma tick_slot_update:
  assumes "wheel_rep h ring W" "i < length W" "links h' xs'" "map (entry h') xs' = snd (slot_tick (map (entry h) (W ! i)))"
    and "tick_frame (set (W ! i)) ps h (rt_allocator ring) h' al" "mset (W ! i) = mset xs' + mset ps"
  shows "wheel_rep h' (ring\<lparr>rt_timers := (rt_timers ring)[i := slot_head xs'], rt_allocator := al\<rparr>) (W[i := xs'])"
    and "wheel_entries h' (W[i := xs']) = (wheel_entries h W)[i := map (entry h') xs']"
proof -
  note ws = wheel_slot [OF assms(1,2)]
  have fr: "\<forall>a. a \<notin> set (W ! i) \<longrightarrow> h' a = h a" "rb_inv al" "rb_cap al = rb_cap (rt_allocator ring)"
    "rb_items al = rb_items (rt_allocator ring) @ map (\<lambda>p. (p, 64)) ps"
    using assms(5) by (simp_all add: tick_frame_def)
  have "set (W ! i) = set xs' \<union> set ps" using assms(6) by (metis set_mset_mset set_mset_union)
  then have sub: "set xs' \<subseteq> set (W ! i)" "set ps \<subseteq> set (W ! i)" by auto
  have "distinct (xs' @ ps)" using ws(1) assms(6) by (metis links_def mset_append mset_eq_imp_distinct_iff)
  then have ds: "distinct ps" "set xs' \<inter> set ps = {}" by auto
  have nz: "\<forall>a \<in> set xs'. fst (entry h' a) \<noteq> 0"
  proof
    fix a assume "a \<in> set xs'"
    then have "entry h' a \<in> set (snd (slot_tick (map (entry h) (W ! i))))" by (metis assms(4) imageI list.set_map)
    from slot_tick_signals [OF this] have "fst (entry h' a) \<in> fst ` entry h ` set (W ! i)" by simp
    then show "fst (entry h' a) \<noteq> 0" using ws(3) by auto
  qed
  have items: "map fst (rb_items al) = map fst (rb_items (rt_allocator ring)) @ ps" using fr(4) by (simp add: o_def)
  have off: "\<forall>j < length W. j \<noteq> i \<longrightarrow> set (W ! j) \<inter> set (W ! i) = {}" using ws(5) by blast
  have al: "\<forall>j < length W. j \<noteq> i \<longrightarrow> set (W ! j) \<inter> set (map fst (rb_items al)) = {}"
  proof (intro allI impI)
    fix j assume j: "j < length W" "j \<noteq> i"
    have "set (W ! j) \<inter> set ps = {}" using off j sub(2) by blast
    then show "set (W ! j) \<inter> set (map fst (rb_items al)) = {}"
      using wheel_slot(4) [OF assms(1) j(1)] unfolding items by auto
  qed
  have al2: "set xs' \<inter> set (map fst (rb_items al)) = {}" "distinct (map fst (rb_items al))"
      "NULL \<notin> set (map fst (rb_items al))"
    using ws(4,8,9) ds sub ws(1) unfolding items links_def by auto
  have "length (W ! i) = length xs' + length ps" using assms(6) by (metis size_mset size_union)
  moreover have "rb_count al = rb_count (rt_allocator ring) + length ps"
    using fr(4) by (metis length_append length_map length_rb_items)
  ultimately have "rb_count al + sum_list (map length W) + length xs' \<le> rb_cap al + length (W ! i)"
    using ws(6) fr(3) by (simp add: alloc_room_def)
  note up = wheel_rep_update [OF assms(1,2) fr(1) off assms(3) nz sub(1) refl al al2 fr(2) this]
  then show "wheel_rep h' (ring\<lparr>rt_timers := (rt_timers ring)[i := slot_head xs'], rt_allocator := al\<rparr>) (W[i := xs'])"
    "wheel_entries h' (W[i := xs']) = (wheel_entries h W)[i := map (entry h') xs']" by simp_all
qed

lemma tick_ringtimer_rep:
  assumes "wheel_rep h ring W" "i = unat (rt_current ring)" "length (W ! i) \<le> 64"
  shows "\<exists>h' ring' W'. tick_ringtimer h ring = Some (h', ring', map ucast (fst (slot_tick (wheel_entries h W ! i))))
    \<and> wheel_rep h' ring' W' \<and> wheel_entries h' W' = (wheel_entries h W)[i := snd (slot_tick (wheel_entries h W ! i))]
    \<and> rt_current ring' = (rt_current ring + 1) mod rt_max ring \<and> rt_max ring' = rt_max ring
    \<and> mset (map fst (rb_items (rt_allocator ring'))) + mset (concat W') = mset (map fst (rb_items (rt_allocator ring))) + mset (concat W)"
proof -
  let ?xs = "W ! i" and ?c = "(rt_current ring + 1) mod rt_max ring"
  have i: "i < length W" and mx: "unat (rt_max ring) = length W" using assms(1,2) by (auto simp: wheel_rep_def)
  note ws = wheel_slot [OF assms(1) i]
  have nz: "rt_max ring \<noteq> 0" using mx i by auto
  have "0 < length W" using i by linarith
  then have c: "unat ?c < length W" using mx by (simp add: unat_mod_distrib)
  have ent: "wheel_entries h W ! i = map (entry h) ?xs" using i by (simp add: wheel_entries_def)
  show ?thesis
  proof (cases "?xs = []")
    case True
    then have "rt_timers ring ! i = NULL" using ws(2) by (simp add: slot_head_def)
    then have "tick_ringtimer h ring = Some (h, ring\<lparr>rt_current := ?c\<rparr>, [])"
      using i ws(7) nz by (simp add: tick_ringtimer_def Let_def assms(2) [symmetric])
    moreover have "(wheel_entries h W)[i := []] = wheel_entries h W" using ent True by (metis list.map(1) list_update_id)
    ultimately show ?thesis
      using wheel_rep_current [OF assms(1) c] True ent
      by (intro exI [of _ h] exI [of _ "ring\<lparr>rt_current := ?c\<rparr>"] exI [of _ W]) (simp add: slot_tick_def)
  next
    case False
    have hd: "rt_timers ring ! i = hd ?xs" "hd ?xs \<noteq> NULL"
      using ws(2) False links_hd [OF ws(1) False] by (simp_all add: slot_head_def)
    have il: "i < length (rt_timers ring)" using i ws(7) by simp
    have room: "alloc_room (rt_allocator ring) (length ?xs)"
      using ws(6) slot_length_le [OF i] by (simp add: alloc_room_def)
    obtain h' al xs' ps where lp: "tick_loop i (hd ?xs) (hd ?xs) h ring [] =
        Some (h', ring\<lparr>rt_timers := (rt_timers ring)[i := slot_head xs'], rt_allocator := al\<rparr>, map ucast (fst (slot_tick (map (entry h) ?xs))))"
        "links h' xs'" "map (entry h') xs' = snd (slot_tick (map (entry h) ?xs))"
        "tick_frame (set ?xs) ps h (rt_allocator ring) h' al" "mset ?xs = mset xs' + mset ps"
      using tick_slot [OF ws(1) False hd(1) il ws(3) room assms(3)] by blast
    let ?ring = "ring\<lparr>rt_timers := (rt_timers ring)[i := slot_head xs'], rt_allocator := al\<rparr>"
    have up: "wheel_rep h' ?ring (W[i := xs'])"
        "wheel_entries h' (W[i := xs']) = (wheel_entries h W)[i := map (entry h') xs']"
      using tick_slot_update [OF assms(1) i lp(2-5)] by auto
    have "tick_ringtimer h ring = Some (h', ?ring\<lparr>rt_current := ?c\<rparr>, map ucast (fst (slot_tick (map (entry h) ?xs))))"
      using i ws(7) nz hd lp(1) by (simp add: tick_ringtimer_def Let_def assms(2) [symmetric])
    moreover have "map fst (rb_items al) = map fst (rb_items (rt_allocator ring)) @ ps"
      using lp(4) by (simp add: tick_frame_def o_def)
    ultimately show ?thesis
      using wheel_rep_current [OF up(1)] c up(2) lp(3,5) ent mset_concat_update [OF i, of xs']
      by (intro exI [of _ h'] exI [of _ "?ring\<lparr>rt_current := ?c\<rparr>"] exI [of _ "W[i := xs']"])
        (simp add: add_ac)
  qed
qed

section \<open>One timer on the wheel\<close>

fun wheel_ticks :: "nat \<Rightarrow> cb_heap \<Rightarrow> ringtimer \<Rightarrow> (cb_heap \<times> ringtimer \<times> timer_tick_result list) option" where
  "wheel_ticks 0 h ring = Some (h, ring, [])"
| "wheel_ticks (Suc n) h ring =
     do { (h1, ring1, res) \<leftarrow> tick_ringtimer h ring;
          (h2, ring2, ress) \<leftarrow> wheel_ticks n h1 ring1;
          Some (h2, ring2, res # ress) }"

definition wheel_idle :: "cb_heap \<Rightarrow> ringtimer \<Rightarrow> bool" where
  "wheel_idle h ring \<longleftrightarrow> (\<exists>W. wheel_rep h ring W \<and> concat W = [])"

definition one_timer :: "nat \<Rightarrow> nat \<Rightarrow> u64 \<times> u64 \<Rightarrow> (u64 \<times> u64) list list" where
  "one_timer m i e = (replicate m [])[i := [e]]"

text \<open>The number of further ticks before the slot \<open>i\<close> is visited, from \<open>c\<close> on.\<close>

definition slot_distance :: "nat \<Rightarrow> nat \<Rightarrow> nat \<Rightarrow> nat" where
  "slot_distance m c i = (i + m - c) mod m"

lemma unat_next_current:
  assumes "unat (c :: u32) < unat m"
  shows "unat ((c + 1) mod m) = Suc (unat c) mod unat m"
proof -
  have "unat m < 2 ^ LENGTH(32)" by (rule unsigned_less)
  then have "unat (c + 1) = Suc (unat c)" using assms by (intro unat_suc_word) linarith
  then show ?thesis by (simp add: unat_mod_distrib)
qed

lemma slot_distance_alt:
  assumes "c < m" "i < m"
  shows "slot_distance m c i = (if c \<le> i then i - c else i + m - c)"
proof (cases "c \<le> i")
  case True
  then have "i + m - c = (i - c) + m" by simp
  then have "slot_distance m c i = (i - c) mod m" by (simp only: slot_distance_def mod_add_self2)
  then show ?thesis using True assms by simp
qed (use assms in \<open>simp add: slot_distance_def\<close>)

lemma slot_distance_step:
  assumes "c < m" "i < m" "i \<noteq> c"
  shows "slot_distance m c i = Suc (slot_distance m (Suc c mod m) i)"
  using assms by (cases "Suc c = m") (auto simp: slot_distance_alt)

lemma slot_distance_self: "c < m \<Longrightarrow> slot_distance m c c = 0" "c < m \<Longrightarrow> slot_distance m (Suc c mod m) c = m - 1"
  by (cases "Suc c = m"; simp add: slot_distance_alt)+

lemma one_timer_nth:
  assumes "i < m" "c < m"
  shows "one_timer m i e ! c = (if c = i then [e] else [])"
  using assms by (simp add: one_timer_def nth_list_update)

lemma no_entries:
  assumes "wheel_entries h W = replicate m []"
  shows "concat W = []"
proof -
  have "map (entry h) (concat W) = concat (replicate m [])" using assms by (simp add: wheel_entries_def map_concat)
  then show ?thesis by simp
qed

lemma one_timer_clear: "i < m \<Longrightarrow> (one_timer m i e)[i := []] = replicate m []"
  by (metis length_replicate list_update_id list_update_overwrite nth_replicate one_timer_def)

lemma one_timer_ticks:
  assumes "wheel_rep h ring W" "unat (rt_max ring) = m" "i < m" "wheel_entries h W = one_timer m i (s, r)"
    and "n = slot_distance m (unat (rt_current ring)) i + unat r * m"
  shows "\<exists>h' ring'. wheel_ticks (Suc n) h ring = Some (h', ring', replicate n [] @ [[ucast s]])
    \<and> wheel_idle h' ring' \<and> rt_max ring' = rt_max ring \<and> unat (rt_current ring') = (unat (rt_current ring) + Suc n) mod m
    \<and> mset (map fst (rb_items (rt_allocator ring'))) = mset (map fst (rb_items (rt_allocator ring))) + mset (concat W)"
  using assms
proof (induction n arbitrary: h ring W r)
  case 0
  let ?c = "unat (rt_current ring)"
  have W: "length W = m" "?c < m" using 0 by (auto simp: wheel_rep_def)
  have "?c = i" using 0 W slot_distance_step [of ?c m i] by (cases "i = ?c") auto
  have r: "r = 0" using 0 W by (auto simp: unat_eq_0)
  have len: "length (W ! ?c) = length (wheel_entries h W ! ?c)" using W by (simp add: wheel_entries_def)
  obtain h' ring' W' where t: "tick_ringtimer h ring = Some (h', ring', [ucast s])" "wheel_rep h' ring' W'"
      "wheel_entries h' W' = (wheel_entries h W)[i := []]" "rt_max ring' = rt_max ring"
      "rt_current ring' = (rt_current ring + 1) mod rt_max ring"
      "mset (map fst (rb_items (rt_allocator ring'))) + mset (concat W') = mset (map fst (rb_items (rt_allocator ring))) + mset (concat W)"
    using tick_ringtimer_rep [OF 0(1) refl] len 0(3,4) W \<open>?c = i\<close> r one_timer_nth [of i m ?c "(s, r)"]
    by (auto simp: slot_tick_def due_def)
  have no: "concat W' = []"
    using t(3) 0(3,4) by (intro no_entries) (simp add: one_timer_clear)
  then have "wheel_idle h' ring'" using t(2) unfolding wheel_idle_def by blast
  then show ?case
    using t(1,2,4,5) t(6) [unfolded no] unat_next_current [of "rt_current ring" "rt_max ring"] W 0(2) by auto
next
  case (Suc n)
  let ?c = "unat (rt_current ring)"
  have W: "length W = m" "?c < m" using Suc.prems by (auto simp: wheel_rep_def)
  define r' where "r' = (if i = ?c then r - 1 else r)"
  have "slot_distance m ?c i = 0 \<Longrightarrow> r \<noteq> 0" using Suc.prems(5) by auto
  then have nr: "i = ?c \<Longrightarrow> r \<noteq> 0" using slot_distance_self(1) [OF W(2)] by auto
  have len: "length (W ! ?c) = length (wheel_entries h W ! ?c)" using W by (simp add: wheel_entries_def)
  have st: "slot_tick (wheel_entries h W ! ?c) = ([], if i = ?c then [(s, r - 1)] else [])"
    using Suc.prems(3,4) W nr one_timer_nth [of i m ?c "(s, r)"] by (auto simp: slot_tick_def due_def defer_entry_def)
  have "length (W ! ?c) \<le> 64" using len Suc.prems(3,4) W one_timer_nth [of i m ?c "(s, r)"] by auto
  from tick_ringtimer_rep [OF Suc.prems(1) refl this] obtain h1 ring1 W1 where
    t: "tick_ringtimer h ring = Some (h1, ring1, [])" "wheel_rep h1 ring1 W1"
      "wheel_entries h1 W1 = (wheel_entries h W)[?c := if i = ?c then [(s, r - 1)] else []]" "rt_max ring1 = rt_max ring"
      "rt_current ring1 = (rt_current ring + 1) mod rt_max ring"
      "mset (map fst (rb_items (rt_allocator ring1))) + mset (concat W1) = mset (map fst (rb_items (rt_allocator ring))) + mset (concat W)"
    unfolding st by auto
  have c1: "unat (rt_current ring1) = Suc ?c mod m"
    using t(5) unat_next_current [of "rt_current ring" "rt_max ring"] W Suc.prems(2) by simp
  have e1: "wheel_entries h1 W1 = one_timer m i (s, r')"
    using t(3) Suc.prems(3,4) W by (auto simp: one_timer_def r'_def nth_list_update intro!: nth_equalityI)
  have n: "n = slot_distance m (unat (rt_current ring1)) i + unat r' * m"
  proof (cases "i = ?c")
    case True
    then obtain k where "unat r = Suc k" using nr by (metis not0_implies_Suc unat_eq_0)
    then show ?thesis
      using True Suc.prems(5) c1 slot_distance_self [OF W(2)] nr W(2) by (simp add: r'_def unat_minus_one)
  next
    case False
    then show ?thesis using Suc.prems(3,5) c1 slot_distance_step [OF W(2), of i] by (simp add: r'_def)
  qed
  obtain h' ring' where ih: "wheel_ticks (Suc n) h1 ring1 = Some (h', ring', replicate n [] @ [[ucast s]])"
      "wheel_idle h' ring'" "rt_max ring' = rt_max ring1" "unat (rt_current ring') = (unat (rt_current ring1) + Suc n) mod m"
      "mset (map fst (rb_items (rt_allocator ring'))) = mset (map fst (rb_items (rt_allocator ring1))) + mset (concat W1)"
    using Suc.IH [OF t(2) _ Suc.prems(3) e1 n] Suc.prems(2) t(4) by auto
  have "(Suc ?c mod m + Suc n) mod m = (?c + Suc (Suc n)) mod m"
    using mod_add_left_eq [of "Suc ?c" m "Suc n"] by simp
  then show ?case using ih t(1,4,6) c1 by (subst wheel_ticks.simps) (auto simp del: wheel_ticks.simps)
qed

text \<open>
  The delay the wheel gives a timer of \<open>t\<close> ticks: the position is counted from slot 0, so that a
  timer whose slot lies beyond the end of the array waits one more round.
\<close>

definition wheel_delay :: "nat \<Rightarrow> nat \<Rightarrow> nat \<Rightarrow> nat" where
  "wheel_delay m c t = t + (if m \<le> c + (t - 1) mod m then m else 0)"

lemma wheel_delay_slot:
  assumes "c < m" "1 \<le> t"
  shows "Suc (slot_distance m c ((c + t - 1) mod m) + (c + t - 1) div m * m) = wheel_delay m c t"
proof -
  define q \<rho> where "q = (t - 1) div m" and "\<rho> = (t - 1) mod m"
  have m: "0 < m" and \<rho>: "\<rho> < m" using assms(1) by (auto simp: \<rho>_def)
  have t: "t - 1 = q * m + \<rho>" by (simp add: q_def \<rho>_def)
  have ct: "c + t - 1 = q * m + (c + \<rho>)" and t': "t = Suc (q * m + \<rho>)" using t assms(2) by linarith+
  have wd: "wheel_delay m c t = Suc (q * m + \<rho>) + (if m \<le> c + \<rho> then m else 0)"
    using \<rho> by (simp add: wheel_delay_def t')
  show ?thesis
  proof (cases "c + \<rho> < m")
    case True
    then have "(c + t - 1) mod m = c + \<rho>" "(c + t - 1) div m = q" using ct m by simp_all
    then show ?thesis using True assms by (simp add: slot_distance_alt wd)
  next
    case False
    then have e: "c + t - 1 = Suc q * m + (c + \<rho> - m)" using ct by simp
    have less: "c + \<rho> - m < m" using assms(1) \<rho> by linarith
    have "(c + t - 1) mod m = c + \<rho> - m" "(c + t - 1) div m = Suc q"
      unfolding e using less m by (simp_all del: mult_Suc)
    moreover have "slot_distance m c (c + \<rho> - m) = \<rho>"
      using False assms(1) \<rho> less by (auto simp: slot_distance_alt)
    ultimately show ?thesis using False by (simp add: wd)
  qed
qed

lemma timer_slot_unat:
  assumes "1 \<le> unat t" "unat (rt_current ring) + unat t - 1 < 2 ^ 32"
  shows "unat (timer_slot ring t) = unat (rt_current ring) + unat t - 1"
proof -
  have "t \<noteq> 0" using assms(1) by auto
  then have t1: "unat (t - 1) = unat t - 1" by (rule unat_minus_one)
  have "unat (rt_current ring) < 2 ^ 32" using unsigned_less [of "rt_current ring", where ?'a = nat] by simp
  then have "unat (ucast (rt_current ring) + (t - 1)) = unat (rt_current ring) + (unat t - 1)"
    using assms t1 by (subst unat_add_lem [THEN iffD1]) auto
  then show ?thesis using assms by (simp add: timer_slot_def unsigned_ucast_eq take_bit_nat_eq_self)
qed

lemma insert_idle:
  assumes "wheel_idle h ring" "rb_items (rt_allocator ring) \<noteq> []" "signal \<noteq> 0"
    and "1 \<le> unat t" "unat (rt_current ring) + unat t - 1 < 2 ^ 32" "n = wheel_delay (unat (rt_max ring)) (unat (rt_current ring)) (unat t)"
  shows "\<exists>h1 ring1 h2 ring2. insert_ringtimer signal t h ring = Some (h1, ring1, True)
    \<and> wheel_ticks n h1 ring1 = Some (h2, ring2, replicate (n - 1) [] @ [[ucast signal]])
    \<and> wheel_idle h2 ring2 \<and> rt_max ring2 = rt_max ring
    \<and> unat (rt_current ring2) = (unat (rt_current ring) + n) mod unat (rt_max ring)
    \<and> mset (map fst (rb_items (rt_allocator ring2))) = mset (map fst (rb_items (rt_allocator ring)))"
proof -
  let ?m = "unat (rt_max ring)" and ?c = "unat (rt_current ring)"
  obtain W where W: "wheel_rep h ring W" "concat W = []" using assms(1) by (auto simp: wheel_idle_def)
  obtain p l rest where it: "rb_items (rt_allocator ring) = (p, l) # rest" using assms(2) by (cases "rb_items (rt_allocator ring)") auto
  have len: "length W = ?m" "?c < ?m" using W(1) by (auto simp: wheel_rep_def)
  define i where "i = unat (timer_slot ring t mod rt_max ring)"
  note ts = timer_slot_unat [OF assms(4,5)]
  have i: "i = (?c + unat t - 1) mod ?m" by (simp add: i_def unat_mod_distrib ts)
  then have im: "i < ?m" using len by simp
  obtain h1 ring1 where ins: "insert_ringtimer signal t h ring = Some (h1, ring1, True)" "wheel_rep h1 ring1 (W[i := W ! i @ [p]])"
      "wheel_entries h1 (W[i := W ! i @ [p]]) = (wheel_entries h W)
        [i := wheel_entries h W ! i @ [(signal, ucast (timer_slot ring t div rt_max ring))]]"
      "rt_current ring1 = rt_current ring" "rt_max ring1 = rt_max ring" "rb_items (rt_allocator ring1) = rest"
    using insert_ringtimer_rep [OF W(1) it assms(3) i_def] by blast
  have "\<forall>j < length W. W ! j = []" using W(2) by auto
  then have empty: "wheel_entries h W = replicate ?m []"
    using len by (intro list_eq_iff_nth_eq [THEN iffD2]) (simp add: wheel_entries_def)
  then have e: "wheel_entries h1 (W[i := W ! i @ [p]]) = one_timer ?m i (signal, ucast (timer_slot ring t div rt_max ring))"
    using ins(3) im by (simp add: one_timer_def)
  have "unat (ucast (timer_slot ring t div rt_max ring) :: u64) = (?c + unat t - 1) div ?m"
    by (simp add: unat_div_distrib ts)
  then have n: "n = Suc (slot_distance ?m (unat (rt_current ring1)) i + unat (ucast (timer_slot ring t div rt_max ring) :: u64) * ?m)"
    using wheel_delay_slot [OF len(2) assms(4)] assms(6) ins(4) i by simp
  have wi: "W ! i = []" using W(2) im len by auto
  have "mset (concat (W[i := W ! i @ [p]])) = {#p#}"
    using mset_concat_update [of i W "W ! i @ [p]"] im len by (simp add: wi W(2) del: concat_eq_Nil_conv)
  then show ?thesis
    using one_timer_ticks [OF ins(2) _ im e refl] ins(1,4-6) n it by fastforce
qed

section \<open>A concrete wheel\<close>

text \<open>A wheel of two slots with two free nodes, and one with both nodes in slot 0.\<close>

definition al_full :: ringbuf where
  "al_full = \<lparr>rb_size = 2, rb_mask = 1, rb_head = 2, rb_tail = 0,
     rb_cells = [\<lparr>cell_seq = 1, cell_plen = 64, cell_packet = 4096\<rparr>, \<lparr>cell_seq = 2, cell_plen = 64, cell_packet = 4160\<rparr>]\<rparr>"

definition al_empty :: ringbuf where
  "al_empty = \<lparr>rb_size = 2, rb_mask = 1, rb_head = 0, rb_tail = 0,
     rb_cells = [\<lparr>cell_seq = 0, cell_plen = 64, cell_packet = 0\<rparr>, \<lparr>cell_seq = 1, cell_plen = 64, cell_packet = 0\<rparr>]\<rparr>"

definition idle_wheel :: ringtimer where
  "idle_wheel = \<lparr>rt_timers = [NULL, NULL], rt_current = 1, rt_max = 2, rt_allocator = al_full\<rparr>"

definition busy_heap :: "cb_heap" where
  "busy_heap = [4096 \<mapsto> \<lparr>cb_retries = 0, cb_signal = 5, cb_prev = 4160, cb_next = 4160\<rparr>,
                4160 \<mapsto> \<lparr>cb_retries = 1, cb_signal = 6, cb_prev = 4096, cb_next = 4096\<rparr>]"

definition busy_wheel :: "ptr \<Rightarrow> ringtimer" where
  "busy_wheel p = \<lparr>rt_timers = [p, NULL], rt_current = 0, rt_max = 2, rt_allocator = al_empty\<rparr>"

lemma al_full_inv: "rb_inv al_full" "rb_items al_full = [(4096, 64), (4160, 64)]" "rb_cap al_full = 2"
proof -
  have c: "rb_count al_full = 2" by (simp add: rb_count_def al_full_def)
  have "rb_shape 1 al_full" by (simp add: rb_shape_def al_full_def)
  moreover have "rb_seqs al_full" unfolding rb_seqs_def c by (auto simp: al_full_def less_Suc_eq numeral_2_eq_2)
  ultimately show "rb_inv al_full" unfolding rb_inv_def c by (force simp: al_full_def rb_cap_def)
  show "rb_items al_full = [(4096, 64), (4160, 64)]" "rb_cap al_full = 2"
    unfolding rb_items_def c by (simp_all add: al_full_def ring_list_def cell_data_def rb_cap_def upt_rec)
qed

lemma al_empty_inv: "rb_inv al_empty" "rb_items al_empty = []" "rb_cap al_empty = 2"
proof -
  have c: "rb_count al_empty = 0" by (simp add: rb_count_def al_empty_def)
  have "rb_shape 1 al_empty" by (simp add: rb_shape_def al_empty_def)
  moreover have "rb_seqs al_empty" unfolding rb_seqs_def c by (auto simp: al_empty_def less_Suc_eq numeral_2_eq_2)
  ultimately show "rb_inv al_empty" unfolding rb_inv_def c by (force simp: al_empty_def rb_cap_def)
  show "rb_items al_empty = []" "rb_cap al_empty = 2"
    unfolding rb_items_def c by (simp_all add: al_empty_def ring_list_def rb_cap_def)
qed

lemma idle_wheel_rep: "wheel_rep Map.empty idle_wheel [[], []]"
proof -
  have "rb_count al_full = 2" by (simp add: rb_count_def al_full_def)
  then show ?thesis using al_full_inv
    by (simp add: wheel_rep_def idle_wheel_def slots_disjoint_def alloc_room_def links_def slot_head_def All_less_Suc)
qed

lemma busy_wheel_rep:
  "wheel_rep busy_heap (busy_wheel 4096) [[4096, 4160], []]" "wheel_rep busy_heap (busy_wheel 4160) [[4160, 4096], []]"
  "wheel_entries busy_heap [[4096, 4160], []] = [[(5, 0), (6, 1)], []]"
  "wheel_entries busy_heap [[4160, 4096], []] = [[(6, 1), (5, 0)], []]"
proof -
  have c: "rb_count al_empty = 0" by (simp add: rb_count_def al_empty_def)
  have l: "links busy_heap [4096, 4160]" "links busy_heap [4160, 4096]" "links busy_heap []"
    by (simp_all add: links_def linked_def nextp_def prevp_def busy_heap_def)
  have e: "entry busy_heap 4096 = (5, 0)" "entry busy_heap 4160 = (6, 1)" by (simp_all add: entry_def busy_heap_def)
  show "wheel_rep busy_heap (busy_wheel 4096) [[4096, 4160], []]" "wheel_rep busy_heap (busy_wheel 4160) [[4160, 4096], []]"
    using al_empty_inv l e c
    by (simp_all add: wheel_rep_def busy_wheel_def slots_disjoint_def alloc_room_def slot_head_def All_less_Suc)
  show "wheel_entries busy_heap [[4096, 4160], []] = [[(5, 0), (6, 1)], []]"
    "wheel_entries busy_heap [[4160, 4096], []] = [[(6, 1), (5, 0)], []]"
    using e by (simp_all add: wheel_entries_def)
qed

section \<open>Properties\<close>

text \<open>
  C20. \<^verbatim>\<open>insert_ringtimer\<close>, with a free node in the allocator, links exactly that node behind
  the last entry of the slot \<open>(current + time - 1) mod max\<close>, with the signal and
  \<open>(current + time - 1) div max\<close> rounds to wait, and leaves every other slot and entry as it was.
\<close>

theorem insert_ringtimer_refines:
  assumes "wheel_rep h ring W" "rb_items (rt_allocator ring) = (p, l) # rest" "signal \<noteq> 0"
    and "i = unat (timer_slot ring time mod rt_max ring)"
  shows "\<exists>h' ring'. insert_ringtimer signal time h ring = Some (h', ring', True) \<and> wheel_rep h' ring' (W[i := W ! i @ [p]])
    \<and> wheel_entries h' (W[i := W ! i @ [p]]) = (wheel_entries h W)
        [i := wheel_entries h W ! i @ [(signal, ucast (timer_slot ring time div rt_max ring))]]
    \<and> rt_current ring' = rt_current ring \<and> rt_max ring' = rt_max ring \<and> rb_items (rt_allocator ring') = rest"
  by (rule insert_ringtimer_rep [OF assms])

theorem insert_ringtimer_refines_witness:
  "\<exists>h' ring'. insert_ringtimer 9 2 Map.empty idle_wheel = Some (h', ring', True)
    \<and> wheel_entries h' [[4096], []] = [[(9, 1)], []]"
proof -
  have "timer_slot idle_wheel 2 = 2" by (simp add: timer_slot_def idle_wheel_def)
  then show ?thesis
    using insert_ringtimer_refines [OF idle_wheel_rep, of 4096 64 "[(4160, 64)]" 9 0 2] al_full_inv
    by (auto simp: idle_wheel_def wheel_entries_def)
qed

text \<open>
  C6. A tick on a slot of at most 64 entries returns and keeps the wheel well formed: no node
  is lost or freed twice, the other slots are untouched, and the wheel moves on by one slot. When the
  first entry of the slot is not due, or all of them are, exactly the due entries fire, in the order
  they were inserted, and each of the others waits one round less.
\<close>

theorem tick_ringtimer_refines:
  assumes "wheel_rep h ring W" "i = unat (rt_current ring)" "es = wheel_entries h W ! i" "length es \<le> 64"
    and "list_all due es \<or> \<not> due (hd es)"
  shows "\<exists>h' ring' W'. tick_ringtimer h ring = Some (h', ring', map (\<lambda>e. ucast (fst e)) (filter due es))
    \<and> wheel_rep h' ring' W' \<and> wheel_entries h' W' = (wheel_entries h W)[i := map defer_entry (filter (\<lambda>e. \<not> due e) es)]
    \<and> rt_current ring' = (rt_current ring + 1) mod rt_max ring
    \<and> mset (map fst (rb_items (rt_allocator ring'))) + mset (concat W') = mset (map fst (rb_items (rt_allocator ring))) + mset (concat W)"
proof -
  have "i < length W" using assms(1,2) by (simp add: wheel_rep_def)
  then have len: "length (W ! i) \<le> 64" using assms(3,4) by (simp add: wheel_entries_def)
  have "slot_tick es = (map fst (filter due es), map defer_entry (filter (\<lambda>e. \<not> due e) es))"
    using assms(5) by (auto simp: slot_tick_def drain_due list_all_iff [of due] filter_id_conv filter_empty_conv [of "\<lambda>e. \<not> due e"])
  then show ?thesis using tick_ringtimer_rep [OF assms(1,2) len] unfolding assms(3) [symmetric] by (auto simp: o_def)
qed

theorem tick_ringtimer_refines_witness:
  "\<exists>h' ring' W'. tick_ringtimer busy_heap (busy_wheel 4160) = Some (h', ring', [5])
    \<and> wheel_rep h' ring' W' \<and> wheel_entries h' W' = [[(6, 0)], []]"
proof -
  have "unat (rt_current (busy_wheel 4160)) = 0" by (simp add: busy_wheel_def)
  then show ?thesis
    using tick_ringtimer_refines [OF busy_wheel_rep(2), of 0 "[(6, 1), (5, 0)]"] busy_wheel_rep(4)
    by (auto simp: due_def defer_entry_def)
qed

text \<open>
  C40. When the first entry of the slot is due and unlinked, the end test of the loop, which
  compares with that node, never holds: every entry of the slot fires in the same tick, also one that
  had rounds to wait.
\<close>

theorem tick_ringtimer_premature:
  assumes "wheel_rep h ring W" "i = unat (rt_current ring)" "es = wheel_entries h W ! i" "length es \<le> 64"
    and "es \<noteq> []" "due (hd es)"
  shows "\<exists>h' ring' W' sigs. tick_ringtimer h ring = Some (h', ring', map ucast sigs) \<and> mset sigs = mset (map fst es)
    \<and> wheel_rep h' ring' W' \<and> wheel_entries h' W' = (wheel_entries h W)[i := []]"
proof -
  have "i < length W" using assms(1,2) by (simp add: wheel_rep_def)
  then have len: "length (W ! i) \<le> 64" using assms(3,4) by (simp add: wheel_entries_def)
  have "slot_tick es = (drain es, [])" using assms(5,6) by (simp add: slot_tick_def)
  then show ?thesis
    using tick_ringtimer_rep [OF assms(1,2) len] drain_all [of es] unfolding assms(3) [symmetric] by auto
qed

theorem tick_ringtimer_premature_witness:
  "\<exists>h' ring' W' sigs. tick_ringtimer busy_heap (busy_wheel 4096) = Some (h', ring', map ucast sigs)
    \<and> mset sigs = {#5, 6 :: u64#} \<and> wheel_rep h' ring' W' \<and> wheel_entries h' W' = [[], []]"
proof -
  have "unat (rt_current (busy_wheel 4096)) = 0" by (simp add: busy_wheel_def)
  then show ?thesis
    using tick_ringtimer_premature [OF busy_wheel_rep(1), of 0 "[(5, 0), (6, 1)]"] busy_wheel_rep(3)
    by (simp add: due_def)
qed

text \<open>
  C19. A timer of \<open>t\<close> ticks inserted into an idle wheel fires exactly once, alone, and the node
  returns to the allocator. It fires after \<open>t\<close> ticks when its slot lies before the end of the array
  and after \<open>t + max\<close> ticks when the position wraps around.
\<close>

theorem ringtimer_delay:
  assumes "wheel_idle h ring" "rb_items (rt_allocator ring) \<noteq> []" "signal \<noteq> 0"
    and "1 \<le> unat t" "unat (rt_current ring) + unat t - 1 < 2 ^ 32"
    and "m = unat (rt_max ring)" "c = unat (rt_current ring)" "n = unat t + (if m \<le> c + (unat t - 1) mod m then m else 0)"
  shows "\<exists>h1 ring1 h2 ring2. insert_ringtimer signal t h ring = Some (h1, ring1, True)
    \<and> wheel_ticks n h1 ring1 = Some (h2, ring2, replicate (n - 1) [] @ [[ucast signal]])
    \<and> wheel_idle h2 ring2 \<and> unat (rt_current ring2) = (c + n) mod m
    \<and> mset (map fst (rb_items (rt_allocator ring2))) = mset (map fst (rb_items (rt_allocator ring)))"
  using insert_idle [OF assms(1-5), of n] assms(6-8) by (auto simp: wheel_delay_def)

theorem ringtimer_delay_witness:
  "\<exists>h1 ring1 h2 ring2. insert_ringtimer 9 2 Map.empty idle_wheel = Some (h1, ring1, True)
    \<and> wheel_ticks 4 h1 ring1 = Some (h2, ring2, replicate (4 - 1) [] @ [[ucast (9 :: u64)]])"
proof -
  have idle: "wheel_idle Map.empty idle_wheel" using idle_wheel_rep by (auto simp: wheel_idle_def)
  have w: "rb_items (rt_allocator idle_wheel) \<noteq> []" "rt_current idle_wheel = 1" "rt_max idle_wheel = 2"
    using al_full_inv by (simp_all add: idle_wheel_def)
  have "(9 :: u64) \<noteq> 0" "1 \<le> unat (2 :: u64)" "unat (rt_current idle_wheel) + unat (2 :: u64) - 1 < 2 ^ 32"
    "2 = unat (rt_max idle_wheel)" "1 = unat (rt_current idle_wheel)"
    "4 = unat (2 :: u64) + (if 2 \<le> 1 + (unat (2 :: u64) - 1) mod 2 then 2 else 0 :: nat)"
    by (simp_all add: w)
  from ringtimer_delay [OF idle w(1) this] show ?thesis by blast
qed

end
