(* ===== verification/Umem.thy ===== *)
theory Umem
  imports Prelude
begin

unbundle bit_operations_syntax

text \<open>
  The memory of the AF\_XDP socket: the stack of free chunks (\<^verbatim>\<open>src/create_umem_stack.c\<close>,
  \<^verbatim>\<open>src/umem_stack_pop.c\<close>, \<^verbatim>\<open>src/umem_stack_push.c\<close>) and the slab allocator that cuts chunks
  into 64-byte blocks (\<^verbatim>\<open>src/slab_alloc_64b.c\<close>, \<^verbatim>\<open>src/slab_free_64b.c\<close>). The free list of the
  slab lives in the free blocks themselves, so the slab operations read and write a store of
  pointer-sized words. The slab refines a block allocator (locale \<open>block_allocator\<close>).
\<close>

section \<open>The chunk stack\<close>

abbreviation (input) UMEM_CHUNK_SIZE :: u64 where "UMEM_CHUNK_SIZE \<equiv> 4096"
abbreviation (input) L1_CACHE_BYTES :: u64 where "L1_CACHE_BYTES \<equiv> 64"

record umem_stack =
  us_addrs :: "u64 list"
  us_top :: u32
  us_cap :: u32

text \<open>The flags say whether the two \<^verbatim>\<open>malloc\<close> calls succeed; the result \<open>None\<close> is NULL.\<close>

definition create_umem_stack :: "bool \<Rightarrow> bool \<Rightarrow> u32 \<Rightarrow> u32 \<Rightarrow> umem_stack option" where
  "create_umem_stack a1 a2 num_chunks chunk_size =
     (if \<not> a1 then None
      else if \<not> a2 then None
      else Some \<lparr>us_addrs = map (\<lambda>i. of_nat i * ucast chunk_size) [0..<unat num_chunks],
                 us_top = num_chunks, us_cap = num_chunks\<rparr>)"

definition umem_stack_pop :: "umem_stack \<Rightarrow> (umem_stack \<times> u64) option" where
  "umem_stack_pop st =
     (if us_top st = 0 then Some (st, -1)
      else let top = us_top st - 1 in
        if unat top < length (us_addrs st)
        then Some (st\<lparr>us_top := top\<rparr>, us_addrs st ! unat top)
        else None)"

definition umem_stack_push :: "umem_stack \<Rightarrow> u64 \<Rightarrow> umem_stack option" where
  "umem_stack_push st addr =
     (if us_top st = us_cap st then Some st
      else if unat (us_top st) < length (us_addrs st)
      then Some (st\<lparr>us_addrs := (us_addrs st)[unat (us_top st) := addr], us_top := us_top st + 1\<rparr>)
      else None)"

definition us_list :: "umem_stack \<Rightarrow> u64 list" where
  "us_list st = take (unat (us_top st)) (us_addrs st)"

definition us_inv :: "umem_stack \<Rightarrow> bool" where
  "us_inv st \<longleftrightarrow> us_top st \<le> us_cap st \<and> length (us_addrs st) = unat (us_cap st)"

lemma length_us_list: "us_inv st \<Longrightarrow> length (us_list st) = unat (us_top st)"
  by (simp add: us_inv_def us_list_def word_le_nat_alt)

lemma umem_stack_pop_empty: "us_inv st \<Longrightarrow> us_list st = [] \<Longrightarrow> umem_stack_pop st = Some (st, -1)"
  using length_us_list [of st] by (simp add: umem_stack_pop_def unat_eq_0)

lemma umem_stack_pop_snoc:
  assumes "us_inv st" "us_list st = xs @ [a]"
  shows "\<exists>st'. umem_stack_pop st = Some (st', a) \<and> us_list st' = xs \<and> us_inv st' \<and> us_cap st' = us_cap st"
proof -
  have t: "unat (us_top st) = Suc (length xs)"
    using length_us_list [OF assms(1)] assms(2) by simp
  then have nz: "us_top st \<noteq> 0" by auto
  then have t1: "unat (us_top st - 1) = length xs"
    using t by (simp add: unat_minus_one)
  have len: "length (us_addrs st) = unat (us_cap st)" "unat (us_top st) \<le> unat (us_cap st)"
    using assms(1) by (simp_all add: us_inv_def word_le_nat_alt)
  have "take (Suc (length xs)) (us_addrs st) = xs @ [a]"
    using assms(2) t by (simp add: us_list_def)
  then have "us_addrs st ! length xs = a" "take (length xs) (us_addrs st) = xs"
    by (metis lessI nth_append_length nth_take)
       (metis \<open>take (Suc (length xs)) (us_addrs st) = xs @ [a]\<close> append_eq_conv_conj le_SucI min.absorb1 order_refl take_take)
  then show ?thesis
    using nz t t1 len by (auto simp: umem_stack_pop_def Let_def us_list_def us_inv_def word_le_nat_alt)
qed

lemma umem_stack_push_room:
  assumes "us_inv st" "us_top st \<noteq> us_cap st"
  shows "\<exists>st'. umem_stack_push st a = Some st' \<and> us_list st' = us_list st @ [a] \<and> us_inv st'
    \<and> us_cap st' = us_cap st"
proof -
  have len: "length (us_addrs st) = unat (us_cap st)" "unat (us_top st) < unat (us_cap st)"
    using assms by (auto simp: us_inv_def word_le_nat_alt order_less_le word_unat_eq_iff)
  have "unat (us_cap st) < 2 ^ LENGTH(32)" by (rule unsigned_less)
  then have "Suc (unat (us_top st)) < 2 ^ LENGTH(32)" using len(2) by linarith
  then have t: "unat (us_top st + 1) = Suc (unat (us_top st))"
    by (rule unat_suc_word)
  show ?thesis
    using assms len t
    by (auto simp: umem_stack_push_def us_list_def us_inv_def word_le_nat_alt take_Suc_conv_app_nth)
qed

lemma create_umem_stack_list:
  assumes "create_umem_stack a1 a2 n sz = Some st"
  shows "us_inv st" and "us_list st = map (\<lambda>i. of_nat i * ucast sz) [0..<unat n]"
  using assms by (auto simp: create_umem_stack_def us_inv_def us_list_def split: if_splits)

section \<open>The slab allocator\<close>

record umem_slab_allocator =
  sl_free_list :: ptr
  sl_cur_pos :: ptr
  sl_cur_end :: ptr

text \<open>
  The pointer to the chunk stack, \<^verbatim>\<open>alloc->stack\<close>, is shared with the rest of the program; the
  stack is passed and returned. \<open>mem p\<close> is the pointer stored at address \<open>p\<close>.
\<close>

definition slab_alloc_64b ::
  "(ptr \<Rightarrow> ptr) \<Rightarrow> umem_stack \<Rightarrow> umem_slab_allocator \<Rightarrow> ptr \<Rightarrow> (umem_stack \<times> umem_slab_allocator \<times> ptr) option" where
  "slab_alloc_64b mem st al umem_base =
     (if sl_free_list al \<noteq> NULL
      then Some (st, al\<lparr>sl_free_list := mem (sl_free_list al)\<rparr>, sl_free_list al)
      else if sl_cur_pos al \<ge> sl_cur_end al
      then do { (st', offset) \<leftarrow> umem_stack_pop st;
                if offset = -1 then Some (st', al, NULL)
                else let pos = umem_base + offset in
                  Some (st', al\<lparr>sl_cur_pos := pos + L1_CACHE_BYTES, sl_cur_end := pos + UMEM_CHUNK_SIZE\<rparr>, pos) }
      else Some (st, al\<lparr>sl_cur_pos := sl_cur_pos al + L1_CACHE_BYTES\<rparr>, sl_cur_pos al))"

definition slab_free_64b :: "(ptr \<Rightarrow> ptr) \<Rightarrow> umem_slab_allocator \<Rightarrow> ptr \<Rightarrow> (ptr \<Rightarrow> ptr) \<times> umem_slab_allocator" where
  "slab_free_64b mem al p = (mem(p := sl_free_list al), al\<lparr>sl_free_list := p\<rparr>)"

text \<open>
  Block \<open>b\<close> of the area is the 64-byte block at \<open>base + 64 * b\<close>; chunk \<open>c\<close> is the blocks
  \<open>64 * c\<close> to \<open>64 * c + 63\<close>. \<open>flist mem p bs\<close>: from \<open>p\<close> the free list runs through the
  blocks \<open>bs\<close> and ends in NULL.
\<close>

definition blk :: "ptr \<Rightarrow> nat \<Rightarrow> ptr" where
  "blk base b = base + of_nat (64 * b)"

primrec flist :: "(ptr \<Rightarrow> ptr) \<Rightarrow> ptr \<Rightarrow> ptr \<Rightarrow> nat list \<Rightarrow> bool" where
  "flist mem base p [] \<longleftrightarrow> p = NULL"
| "flist mem base p (b # bs) \<longleftrightarrow> p = blk base b \<and> flist mem base (mem p) bs"

definition chunk_blocks :: "nat list \<Rightarrow> nat list" where
  "chunk_blocks cs = concat (map (\<lambda>c. [64 * c..<64 * c + 64]) cs)"

definition slab_run :: "ptr \<Rightarrow> umem_slab_allocator \<Rightarrow> nat \<Rightarrow> nat \<Rightarrow> bool" where
  "slab_run base al n e \<longleftrightarrow> n \<le> e
     \<and> (if n < e then sl_cur_pos al = blk base n \<and> sl_cur_end al = blk base e else sl_cur_pos al \<ge> sl_cur_end al)"

text \<open>
  The blocks below \<open>T\<close> that are on the free list, in the chunks of the stack, in the rest of the
  current chunk and handed out are pairwise different.
\<close>

definition slab_rep ::
  "ptr \<Rightarrow> nat \<Rightarrow> (ptr \<Rightarrow> ptr) \<Rightarrow> umem_stack \<Rightarrow> umem_slab_allocator \<Rightarrow> nat list \<Rightarrow> nat list \<Rightarrow> nat \<Rightarrow> nat \<Rightarrow> nat list \<Rightarrow> bool" where
  "slab_rep base T mem st al fl cs n e as \<longleftrightarrow>
     0 < unat base \<and> unat base + 64 * T < 2 ^ 64 \<and> us_inv st
     \<and> flist mem base (sl_free_list al) fl
     \<and> us_list st = map (\<lambda>c. of_nat (4096 * c)) cs
     \<and> slab_run base al n e
     \<and> distinct (fl @ chunk_blocks cs @ [n..<e] @ as)
     \<and> (\<forall>b \<in> set (fl @ chunk_blocks cs @ [n..<e] @ as). b < T) \<and> (n < e \<longrightarrow> e \<le> T)"

lemma blk_unat:
  assumes "unat base + 64 * T < 2 ^ 64" "b \<le> T"
  shows "unat (blk base b) = unat base + 64 * b"
proof -
  have "unat base + 64 * b < 2 ^ 64" using assms by linarith
  then show ?thesis by (simp add: blk_def unat_word_ariths unat_of_nat del: of_nat_mult)
qed

lemma blk_add64: "blk base b + 64 = blk base (Suc b)"
  by (simp add: blk_def)

lemma blk_chunk: "base + of_nat (4096 * c) = blk base (64 * c)"
  by (simp add: blk_def)

lemma blk_add4096: "blk base b + 4096 = blk base (b + 64)"
  by (simp add: blk_def)

lemma flist_upd:
  assumes "flist mem base p bs" "unat base + 64 * T < 2 ^ 64" "\<forall>x \<in> set bs. x < T" "b < T" "b \<notin> set bs"
  shows "flist (mem(blk base b := v)) base p bs"
  using assms
proof (induction bs arbitrary: p)
  case (Cons x bs)
  then have "unat (blk base x) \<noteq> unat (blk base b)"
    using blk_unat [of base T x] blk_unat [of base T b] by auto
  with Cons show ?case by auto
qed simp

lemma chunk_blocks_snoc [simp]: "chunk_blocks (cs @ [c]) = chunk_blocks cs @ [64 * c..<64 * c + 64]"
  by (simp add: chunk_blocks_def)

lemma chunk_blocks_Nil [simp]: "chunk_blocks [] = []"
  by (simp add: chunk_blocks_def)

lemma slab_alloc_reuse:
  assumes "slab_rep base T mem st al (b # fl) cs n e as"
  shows "\<exists>al'. slab_alloc_64b mem st al base = Some (st, al', blk base b)
    \<and> slab_rep base T mem st al' fl cs n e (b # as)"
proof -
  let ?al = "al\<lparr>sl_free_list := mem (sl_free_list al)\<rparr>"
  have fl: "sl_free_list al = blk base b" and b: "b < T" "0 < unat base" "unat base + 64 * T < 2 ^ 64"
    using assms by (simp_all add: slab_rep_def)
  then have "blk base b \<noteq> NULL" using blk_unat [of base T b] by (auto simp: unat_eq_0 [symmetric] simp del: unat_eq_0)
  then have "slab_alloc_64b mem st al base = Some (st, ?al, blk base b)"
    by (simp add: slab_alloc_64b_def fl)
  moreover have "slab_rep base T mem st ?al fl cs n e (b # as)"
    using assms by (auto simp: slab_rep_def slab_run_def)
  ultimately show ?thesis by blast
qed

lemma slab_alloc_bump:
  assumes "slab_rep base T mem st al [] cs n e as" "n < e"
  shows "\<exists>al'. slab_alloc_64b mem st al base = Some (st, al', blk base n)
    \<and> slab_rep base T mem st al' [] cs (Suc n) e (n # as)"
proof -
  let ?al = "al\<lparr>sl_cur_pos := sl_cur_pos al + 64\<rparr>"
  have r: "sl_free_list al = NULL" "sl_cur_pos al = blk base n" "sl_cur_end al = blk base e"
    and b: "e \<le> T" "unat base + 64 * T < 2 ^ 64"
    using assms by (simp_all add: slab_rep_def slab_run_def)
  have "unat (blk base n) < unat (blk base e)"
    using assms(2) b blk_unat [OF b(2), of n] blk_unat [OF b(2), of e] by simp
  then have "slab_alloc_64b mem st al base = Some (st, ?al, blk base n)"
    by (simp add: slab_alloc_64b_def r word_le_nat_alt)
  moreover have "slab_run base ?al (Suc n) e"
    using assms(2) r by (cases "Suc n = e") (auto simp: slab_run_def blk_add64)
  moreover have "[n..<e] = n # [Suc n..<e]" using assms(2) by (rule upt_conv_Cons)
  ultimately show ?thesis
    using assms by (auto simp: slab_rep_def)
qed

lemma slab_alloc_chunk:
  assumes "slab_rep base T mem st al [] (cs @ [c]) n n as"
  shows "\<exists>st' al'. slab_alloc_64b mem st al base = Some (st', al', blk base (64 * c))
    \<and> slab_rep base T mem st' al' [] cs (Suc (64 * c)) (64 * c + 64) (64 * c # as)"
proof -
  let ?al = "al\<lparr>sl_cur_pos := blk base (Suc (64 * c)), sl_cur_end := blk base (64 * c + 64)\<rparr>"
  have r: "sl_free_list al = NULL" "sl_cur_pos al \<ge> sl_cur_end al"
    and b: "unat base + 64 * T < 2 ^ 64" "\<forall>x \<in> {64 * c..<64 * c + 64}. x < T" and us: "us_inv st"
    "us_list st = map (\<lambda>c. of_nat (4096 * c)) cs @ [of_nat (4096 * c)]"
    using assms by (simp_all add: slab_rep_def slab_run_def)
  then have "64 * c + 63 < T" by auto
  then have cT: "64 * c + 64 \<le> T" by linarith
  obtain st' where st': "umem_stack_pop st = Some (st', of_nat (4096 * c))"
      "us_list st' = map (\<lambda>c. of_nat (4096 * c)) cs" "us_inv st'"
    using umem_stack_pop_snoc [OF us] by blast
  have "4096 * c < 2 ^ 64 - 1" using cT b(1) by linarith
  moreover have "unat (-1 :: u64) = 2 ^ 64 - 1"
    by (simp add: unsigned_minus_1_eq_mask mask_eq_exp_minus_1)
  ultimately have "unat (of_nat (4096 * c) :: u64) < unat (-1 :: u64)"
    by (simp add: unat_of_nat del: of_nat_mult)
  then have ne: "(of_nat (4096 * c) :: u64) \<noteq> -1" by (metis less_irrefl)
  have "slab_alloc_64b mem st al base = Some (st', ?al, blk base (64 * c))"
    using r st' ne by (simp add: slab_alloc_64b_def Let_def blk_chunk blk_add64 blk_add4096 del: of_nat_mult)
  moreover have "slab_run base ?al (Suc (64 * c)) (64 * c + 64)"
    by (simp add: slab_run_def)
  moreover have "[64 * c..<64 * c + 64] = 64 * c # [Suc (64 * c)..<64 * c + 64]"
    by (simp add: upt_conv_Cons)
  ultimately show ?thesis
    using assms st' cT by (auto simp: slab_rep_def)
qed

lemma slab_alloc_exhausted:
  assumes "slab_rep base T mem st al [] [] n n as"
  shows "slab_alloc_64b mem st al base = Some (st, al, NULL)"
  using assms umem_stack_pop_empty [of st] by (simp add: slab_rep_def slab_run_def slab_alloc_64b_def)

lemma slab_free_rep:
  assumes "slab_rep base T mem st al fl cs n e as" "a \<in> set as"
    and "slab_free_64b mem al (blk base a) = (mem', al')"
  shows "slab_rep base T mem' st al' (a # fl) cs n e (remove1 a as)"
proof -
  have s: "mem' = mem(blk base a := sl_free_list al)" "al' = al\<lparr>sl_free_list := blk base a\<rparr>"
    using assms(3) by (auto simp: slab_free_64b_def)
  have "a < T" "a \<notin> set fl" using assms(1,2) by (auto simp: slab_rep_def)
  then have "flist mem' base (sl_free_list al) fl"
    using assms(1) unfolding s(1) by (intro flist_upd) (auto simp: slab_rep_def)
  then show ?thesis
    using assms(1,2) by (auto simp: slab_rep_def s slab_run_def dest: set_remove1_subset [THEN subsetD])
qed

section \<open>The block allocator interface\<close>

text \<open>
  A client that allocates and releases: \<open>Alloc\<close> keeps the pointer it got (unless NULL),
  \<open>Release i\<close> gives the \<open>i\<close>-th pointer it holds back.
\<close>

datatype alloc_op = Alloc | Release nat

fun alloc_run ::
  "('s \<Rightarrow> ('s \<times> ptr) option) \<Rightarrow> ('s \<Rightarrow> ptr \<Rightarrow> 's) \<Rightarrow> 's \<Rightarrow> ptr list \<Rightarrow> alloc_op list \<Rightarrow> ('s \<times> ptr list) option" where
  "alloc_run alloc free s held [] = Some (s, held)"
| "alloc_run alloc free s held (Alloc # ops) =
     do { (s', p) \<leftarrow> alloc s; alloc_run alloc free s' (if p = NULL then held else p # held) ops }"
| "alloc_run alloc free s held (Release i # ops) =
     (if i < length held
      then alloc_run alloc free (free s (held ! i)) (take i held @ drop (Suc i) held) ops
      else alloc_run alloc free s held ops)"

definition blocks_apart :: "nat \<Rightarrow> ptr set \<Rightarrow> bool" where
  "blocks_apart sz A \<longleftrightarrow> (\<forall>p \<in> A. \<forall>q \<in> A. p \<noteq> q \<longrightarrow> unat p + sz \<le> unat q \<or> unat q + sz \<le> unat p)"

definition blocks_inside :: "nat \<Rightarrow> ptr \<Rightarrow> nat \<Rightarrow> ptr set \<Rightarrow> bool" where
  "blocks_inside sz base len A \<longleftrightarrow> (\<forall>p \<in> A. unat base \<le> unat p \<and> unat p + sz \<le> unat base + len)"

lemma remove_nth_distinct:
  assumes "distinct xs" "i < length xs"
  shows "distinct (take i xs @ drop (Suc i) xs)" and "set (take i xs @ drop (Suc i) xs) = set xs - {xs ! i}"
proof -
  have xs: "xs = take i xs @ xs ! i # drop (Suc i) xs" using assms(2) by (rule id_take_nth_drop)
  from assms(1) have "distinct (take i xs @ xs ! i # drop (Suc i) xs)" using xs by simp
  moreover have "set xs = insert (xs ! i) (set (take i xs @ drop (Suc i) xs))"
    by (subst xs) auto
  ultimately show "distinct (take i xs @ drop (Suc i) xs)" "set (take i xs @ drop (Suc i) xs) = set xs - {xs ! i}"
    by auto
qed

locale block_allocator =
  fixes alloc :: "'s \<Rightarrow> ('s \<times> ptr) option"
    and free :: "'s \<Rightarrow> ptr \<Rightarrow> 's"
    and inv :: "'s \<Rightarrow> ptr set \<Rightarrow> bool"
    and blk_size :: nat
    and base :: ptr
    and len :: nat
  assumes alloc_returns: "inv s A \<Longrightarrow> \<exists>s' p. alloc s = Some (s', p)"
    and alloc_fresh: "inv s A \<Longrightarrow> alloc s = Some (s', p) \<Longrightarrow> p \<noteq> NULL \<Longrightarrow> p \<notin> A \<and> inv s' (insert p A)"
    and alloc_null: "inv s A \<Longrightarrow> alloc s = Some (s', NULL) \<Longrightarrow> inv s' A"
    and free_inv: "inv s A \<Longrightarrow> p \<in> A \<Longrightarrow> inv (free s p) (A - {p})"
    and apart: "inv s A \<Longrightarrow> blocks_apart blk_size A"
    and inside: "inv s A \<Longrightarrow> blocks_inside blk_size base len A"
begin

lemma run_safe:
  assumes "inv s (set held)" "distinct held"
  shows "\<exists>s' held'. alloc_run alloc free s held ops = Some (s', held') \<and> distinct held'
    \<and> inv s' (set held') \<and> blocks_apart blk_size (set held') \<and> blocks_inside blk_size base len (set held')"
  using assms
proof (induction ops arbitrary: s held)
  case Nil
  then show ?case using apart inside by auto
next
  case (Cons a ops)
  show ?case
  proof (cases a)
    case Alloc
    obtain s' p where p: "alloc s = Some (s', p)" using alloc_returns [OF Cons.prems(1)] by blast
    let ?h = "if p = NULL then held else p # held"
    have "inv s' (set ?h)" "distinct ?h"
      using alloc_fresh [OF Cons.prems(1) p] alloc_null [OF Cons.prems(1), of s'] p Cons.prems by auto
    from Cons.IH [OF this] show ?thesis using Alloc p by auto
  next
    case (Release i)
    show ?thesis
    proof (cases "i < length held")
      case True
      have "inv (free s (held ! i)) (set (take i held @ drop (Suc i) held))"
        using free_inv [OF Cons.prems(1), of "held ! i"] remove_nth_distinct(2) [OF Cons.prems(2) True] True
        by simp
      from Cons.IH [OF this remove_nth_distinct(1) [OF Cons.prems(2) True]] show ?thesis
        using Release True by auto
    next
      case False
      with Cons.IH [OF Cons.prems] Release show ?thesis by auto
    qed
  qed
qed

end

type_synonym slab_state = "(ptr \<Rightarrow> ptr) \<times> umem_stack \<times> umem_slab_allocator"

definition slab_alloc :: "ptr \<Rightarrow> slab_state \<Rightarrow> (slab_state \<times> ptr) option" where
  "slab_alloc base s = (case s of (mem, st, al) \<Rightarrow>
     map_option (\<lambda>(st', al', p). ((mem, st', al'), p)) (slab_alloc_64b mem st al base))"

definition slab_free :: "slab_state \<Rightarrow> ptr \<Rightarrow> slab_state" where
  "slab_free s p = (case s of (mem, st, al) \<Rightarrow>
     let (mem', al') = slab_free_64b mem al p in (mem', st, al'))"

definition slab_inv :: "ptr \<Rightarrow> nat \<Rightarrow> slab_state \<Rightarrow> ptr set \<Rightarrow> bool" where
  "slab_inv base T s A \<longleftrightarrow> (case s of (mem, st, al) \<Rightarrow>
     \<exists>fl cs n e as. slab_rep base T mem st al fl cs n e as \<and> A = blk base ` set as)"

lemma blk_inj:
  assumes "unat base + 64 * T < 2 ^ 64" "b < T" "c < T" "blk base b = blk base c"
  shows "b = c"
proof -
  have "unat (blk base b) = unat base + 64 * b" "unat (blk base c) = unat base + 64 * c"
    using assms(2,3) by (simp_all add: blk_unat [OF assms(1)])
  moreover have "unat (blk base b) = unat (blk base c)" by (simp only: assms(4))
  ultimately show ?thesis by linarith
qed

lemma slab_rep_bounds:
  assumes "slab_rep base T mem st al fl cs n e as"
  shows "unat base + 64 * T < 2 ^ 64" "0 < unat base" "distinct as" "\<forall>b \<in> set as. b < T"
  using assms by (auto simp: slab_rep_def)

lemma slab_alloc_step:
  assumes "slab_rep base T mem st al fl cs n e as"
  shows "\<exists>st' al' p. slab_alloc_64b mem st al base = Some (st', al', p)
    \<and> (if p = NULL then st' = st \<and> al' = al
       else \<exists>b fl' cs' n' e'. p = blk base b \<and> slab_rep base T mem st' al' fl' cs' n' e' (b # as))"
proof -
  note rep = assms
  have nz: "p \<noteq> NULL" if "slab_rep base T mem st' al' fl' cs' n' e' (b # as)" "p = blk base b"
    for st' al' fl' cs' n' e' b p
    using slab_rep_bounds [OF that(1)] that(2) blk_unat [of base T b] by auto
  consider b bs where "fl = b # bs" | "fl = []" "n < e" | c ds where "fl = []" "n = e" "cs = ds @ [c]"
    | "fl = []" "n = e" "cs = []"
    using rep by (cases fl; cases cs rule: rev_cases) (auto simp: slab_rep_def slab_run_def order_le_less)
  then show ?thesis
  proof cases
    case 1 with slab_alloc_reuse [of base T mem st al b bs] rep nz show ?thesis by metis
  next
    case 2 with slab_alloc_bump [of base T mem st al] rep nz show ?thesis by metis
  next
    case 3 with slab_alloc_chunk [of base T mem st al ds c] rep nz show ?thesis by metis
  next
    case 4 with slab_alloc_exhausted [of base T mem st al] rep show ?thesis by auto
  qed
qed

lemma slab_inv_apart:
  assumes "slab_rep base T mem st al fl cs n e as"
  shows "blocks_apart 64 (blk base ` set as)" and "blocks_inside 64 base (64 * T) (blk base ` set as)"
proof -
  note b = slab_rep_bounds [OF assms]
  have u: "unat (blk base x) = unat base + 64 * x" if "x \<in> set as" for x
    using that b(4) by (intro blk_unat [OF b(1)]) auto
  show "blocks_apart 64 (blk base ` set as)"
    unfolding blocks_apart_def
  proof (intro ballI impI)
    fix p q assume "p \<in> blk base ` set as" "q \<in> blk base ` set as" "p \<noteq> q"
    then obtain x y where "p = blk base x" "q = blk base y" "x \<in> set as" "y \<in> set as" "x \<noteq> y" by auto
    then have "unat p = unat base + 64 * x" "unat q = unat base + 64 * y" "x \<noteq> y"
      using u [of x] u [of y] by simp_all
    then show "unat p + 64 \<le> unat q \<or> unat q + 64 \<le> unat p" by linarith
  qed
  show "blocks_inside 64 base (64 * T) (blk base ` set as)"
    unfolding blocks_inside_def
  proof
    fix p assume "p \<in> blk base ` set as"
    then obtain x where "p = blk base x" "x \<in> set as" by auto
    moreover from this have "x < T" using b(4) by blast
    ultimately show "unat base \<le> unat p \<and> unat p + 64 \<le> unat base + 64 * T"
      using u [of x] by simp
  qed
qed

interpretation slab: block_allocator "slab_alloc base" slab_free "slab_inv base T" 64 base "64 * T" for base T
proof (unfold_locales, goal_cases)
  case (1 s A)
  then show ?case
    by (auto simp: slab_inv_def slab_alloc_def dest!: slab_alloc_step split: prod.splits)
next
  case (2 s A s' p)
  obtain mem st al where s: "s = (mem, st, al)" by (cases s)
  from 2(1) obtain fl cs n e as where rep: "slab_rep base T mem st al fl cs n e as" and A: "A = blk base ` set as"
    by (auto simp: slab_inv_def s)
  from slab_alloc_step [OF rep] 2(2,3) obtain b fl' cs' n' e' st' al' where
    n: "p = blk base b" "s' = (mem, st', al')" "slab_rep base T mem st' al' fl' cs' n' e' (b # as)"
    by (auto simp: slab_alloc_def s)
  have "p \<notin> A"
    using slab_rep_bounds [OF n(3)] blk_inj [of base T b] n(1) A by auto
  then show ?case
    using n A by (auto simp: slab_inv_def) (metis image_insert list.simps(15))
next
  case (3 s A s')
  then have "s' = s"
    by (auto simp: slab_inv_def slab_alloc_def dest!: slab_alloc_step split: prod.splits if_splits)
  with 3 show ?case by simp
next
  case (4 s A p)
  obtain mem st al where s: "s = (mem, st, al)" by (cases s)
  from 4(1) obtain fl cs n e as where rep: "slab_rep base T mem st al fl cs n e as" and A: "A = blk base ` set as"
    by (auto simp: slab_inv_def s)
  from 4(2) A obtain a where a: "p = blk base a" "a \<in> set as" by auto
  obtain mem' al' where f: "slab_free_64b mem al (blk base a) = (mem', al')" by fastforce
  note b = slab_rep_bounds [OF rep]
  have "blk base ` (set as - {a}) = A - {p}"
    using A a b(4) blk_inj [OF b(1), of _ a] by auto
  then have "A - {p} = blk base ` set (remove1 a as)" using b(3) by (simp add: set_remove1_eq)
  then show ?case
    using slab_free_rep [OF rep a(2) f] by (simp add: slab_inv_def slab_free_def s f a(1)) blast
next
  case (5 s A)
  then show ?case using slab_inv_apart(1) by (auto simp: slab_inv_def split: prod.splits)
next
  case (6 s A)
  then show ?case using slab_inv_apart(2) by (auto simp: slab_inv_def split: prod.splits)
qed

lemma chunk_blocks_upt: "chunk_blocks [0..<N] = [0..<64 * N]"
proof (induction N)
  case (Suc N)
  then show ?case using upt_add_eq_append [of 0 "64 * N" 64] by (simp add: add.commute)
qed simp

lemma slab_inv_start:
  assumes "create_umem_stack True True num 4096 = Some st" "0 < unat base" "unat base + 4096 * unat num < 2 ^ 64"
  shows "slab_inv base (64 * unat num) (mem, st, \<lparr>sl_free_list = NULL, sl_cur_pos = NULL, sl_cur_end = NULL\<rparr>) {}"
proof -
  have "us_list st = map (\<lambda>c. of_nat (4096 * c)) [0..<unat num]"
    using create_umem_stack_list(2) [OF assms(1)] by (simp add: mult.commute)
  then have "slab_rep base (64 * unat num) mem st \<lparr>sl_free_list = NULL, sl_cur_pos = NULL, sl_cur_end = NULL\<rparr>
      [] [0..<unat num] 0 0 []"
    using assms(2,3) create_umem_stack_list(1) [OF assms(1)]
    by (simp add: slab_rep_def slab_run_def chunk_blocks_upt)
  then show ?thesis by (auto simp: slab_inv_def)
qed

section \<open>Properties\<close>

text \<open>
  C7. The slab allocator never hands out overlapping memory: from the state \<^verbatim>\<open>kpnet_env_init\<close> sets
  up, after any sequence of allocations and releases the blocks a client holds are pairwise
  disjoint 64-byte blocks inside the umem area; no call fails to return.
\<close>

theorem slab_blocks_disjoint:
  assumes "create_umem_stack True True num 4096 = Some st" "0 < unat base" "unat base + 4096 * unat num < 2 ^ 64"
  shows "\<exists>s' held. alloc_run (slab_alloc base) slab_free
      (mem, st, \<lparr>sl_free_list = NULL, sl_cur_pos = NULL, sl_cur_end = NULL\<rparr>) [] ops = Some (s', held)
    \<and> distinct held \<and> blocks_apart 64 (set held) \<and> blocks_inside 64 base (4096 * unat num) (set held)"
  using slab.run_safe [of base "64 * unat num" _ "[]" ops] slab_inv_start [OF assms, of mem] by fastforce

theorem slab_blocks_disjoint_witness:
  "\<exists>st s' held. create_umem_stack True True 4096 4096 = Some st
    \<and> alloc_run (slab_alloc 0x7F0000000000) slab_free
      (\<lambda>_. 0, st, \<lparr>sl_free_list = NULL, sl_cur_pos = NULL, sl_cur_end = NULL\<rparr>) []
      [Alloc, Alloc, Release 0, Alloc, Alloc] = Some (s', held)
    \<and> distinct held \<and> blocks_apart 64 (set held) \<and> blocks_inside 64 0x7F0000000000 (4096 * 4096) (set held)"
proof -
  obtain st where st: "create_umem_stack True True 4096 4096 = Some st"
    by (simp add: create_umem_stack_def)
  from slab_blocks_disjoint [OF st, of "0x7F0000000000" "\<lambda>_. 0" "[Alloc, Alloc, Release 0, Alloc, Alloc]"] st
  show ?thesis by simp
qed

end
