(* ===== verification/Xdp.thy ===== *)
theory Xdp
  imports Umem "HOL-Library.Multiset"
begin

unbundle bit_operations_syntax

text \<open>
  The four rings an AF\_XDP socket shares with the kernel (\<^verbatim>\<open>include/xdp.h\<close>) and the user side
  of them: \<^verbatim>\<open>src/xdp_rx.c\<close>, \<^verbatim>\<open>src/xdp_tx.c\<close>, \<^verbatim>\<open>src/xdp_tx_sg.c\<close>, \<^verbatim>\<open>src/xdp_complete_tx.c\<close>,
  \<^verbatim>\<open>src/xdp_fill.c\<close>. Producer and consumer counters are free-running 32-bit integers; the rings
  have \<^verbatim>\<open>UMEM_CHUNK_COUNT\<close> = 4096 entries. Both ends of a ring meet in the locale
  \<open>xdp_channel\<close>; the ownership of receive chunks is a step relation that includes the kernel's
  documented moves.
\<close>

section \<open>Data\<close>

record xdp_desc =
  xd_addr :: u64
  xd_len :: u32
  xd_options :: u32

record xdp_sg_req =
  sg_addr :: u64
  sg_len :: u32
  sg_flags :: u32

text \<open>The mapped rings of \<^verbatim>\<open>xdp_t\<close>, with the counters the ring pointers refer to.\<close>

record xdp =
  rx_ring :: "xdp_desc list"
  rx_ring_producer :: u32
  rx_ring_consumer :: u32
  tx_ring :: "xdp_desc list"
  tx_ring_producer :: u32
  tx_ring_consumer :: u32
  fill_ring :: "u64 list"
  fill_ring_producer :: u32
  fill_ring_consumer :: u32
  completion_ring :: "u64 list"
  completion_ring_producer :: u32
  completion_ring_consumer :: u32

abbreviation (input) UMEM_CHUNK_COUNT :: u32 where "UMEM_CHUNK_COUNT \<equiv> 4096"
abbreviation (input) RING_MASK :: u32 where "RING_MASK \<equiv> UMEM_CHUNK_COUNT - 1"
abbreviation (input) XDP_MAX_SEGS :: u32 where "XDP_MAX_SEGS \<equiv> 16"
abbreviation (input) XDP_PKT_CONTD :: u32 where "XDP_PKT_CONTD \<equiv> 1"

section \<open>Ring accesses\<close>

text \<open>
  The loops \<^verbatim>\<open>for (i = 0; i < n; ++i) ... ring[(pos + i) & RING_MASK] ...\<close>: reading \<open>n\<close>
  entries from \<open>pos\<close> on, and storing the entries of a list from \<open>pos\<close> on.
\<close>

definition ring_take :: "'a list \<Rightarrow> u32 \<Rightarrow> nat \<Rightarrow> 'a list" where
  "ring_take ring pos n = map (\<lambda>i. ring ! unat ((pos + of_nat i) AND RING_MASK)) [0..<n]"

fun ring_put :: "'a list \<Rightarrow> u32 \<Rightarrow> 'a list \<Rightarrow> 'a list" where
  "ring_put ring pos [] = ring"
| "ring_put ring pos (x # xs) = ring_put (ring[unat (pos AND RING_MASK) := x]) (pos + 1) xs"

section \<open>Operations\<close>

text \<open>
  \<open>out\<close> and \<open>out_lens\<close> are the caller's arrays; a store past their end is undefined.
\<close>

definition xdp_rx :: "xdp \<Rightarrow> u64 list \<Rightarrow> u32 list \<Rightarrow> u32 \<Rightarrow> (xdp \<times> u64 list \<times> u32 list \<times> u32) option" where
  "xdp_rx xsk out out_lens max_n =
     (let pr = rx_ring_producer xsk; cons = rx_ring_consumer xsk; n = pr - cons in
      if n = 0 then Some (xsk, out, out_lens, 0)
      else
        let n = (if n > max_n then max_n else n);
            descs = ring_take (rx_ring xsk) cons (unat n)
        in do { out' \<leftarrow> mwrite out 0 (map xd_addr descs);
                out_lens' \<leftarrow> mwrite out_lens 0 (map xd_len descs);
                Some (xsk\<lparr>rx_ring_consumer := cons + n\<rparr>, out', out_lens', n) })"

definition tx_descs :: "u64 list \<Rightarrow> u32 list \<Rightarrow> u32 \<Rightarrow> xdp_desc list" where
  "tx_descs segs lens n =
     map (\<lambda>i. \<lparr>xd_addr = segs ! i, xd_len = lens ! i,
               xd_options = (if of_nat i < n - 1 then XDP_PKT_CONTD else 0)\<rparr>) [0..<unat n]"

text \<open>The result of \<^verbatim>\<open>sendto\<close>, the wake-up of the kernel, is only reported by \<^verbatim>\<open>perror\<close>.\<close>

definition xdp_tx :: "xdp \<Rightarrow> u64 list \<Rightarrow> u32 list \<Rightarrow> u32 \<Rightarrow> (xdp \<times> u32) option" where
  "xdp_tx xsk segs lens n =
     (if n = 0 \<or> n > XDP_MAX_SEGS then Some (xsk, 0)
      else
        let pr = tx_ring_producer xsk; cons = tx_ring_consumer xsk;
            diff = UMEM_CHUNK_COUNT - (pr - cons)
        in if n > diff then Some (xsk, 0)
           else if unat n \<le> length segs \<and> unat n \<le> length lens
           then Some (xsk\<lparr>tx_ring := ring_put (tx_ring xsk) pr (tx_descs segs lens n),
                          tx_ring_producer := pr + n\<rparr>, n)
           else None)"

definition xdp_tx_sg :: "xdp \<Rightarrow> xdp_sg_req list \<Rightarrow> u32 \<Rightarrow> (xdp \<times> u32) option" where
  "xdp_tx_sg xsk reqs n =
     (let pr = tx_ring_producer xsk; cons = tx_ring_consumer xsk;
          free_space = UMEM_CHUNK_COUNT - (pr - cons);
          n = (if n > free_space then free_space else n)
      in if n = 0 then Some (xsk, 0)
         else if unat n \<le> length reqs
         then Some (xsk\<lparr>tx_ring := ring_put (tx_ring xsk) pr
                 (map (\<lambda>r. \<lparr>xd_addr = sg_addr r, xd_len = sg_len r, xd_options = sg_flags r\<rparr>) (take (unat n) reqs)),
               tx_ring_producer := pr + n\<rparr>, n)
         else None)"

definition xdp_complete_tx :: "xdp \<Rightarrow> u64 list \<Rightarrow> u32 \<Rightarrow> (xdp \<times> u64 list \<times> u32) option" where
  "xdp_complete_tx xsk out_addrs max_n =
     (let pr = completion_ring_producer xsk; cons = completion_ring_consumer xsk; n = pr - cons in
      if n = 0 then Some (xsk, out_addrs, 0)
      else
        let n = (if n > max_n then max_n else n)
        in do { out' \<leftarrow> mwrite out_addrs 0 (ring_take (completion_ring xsk) cons (unat n));
                Some (xsk\<lparr>completion_ring_consumer := cons + n\<rparr>, out', n) })"

text \<open>
  The loop of \<^verbatim>\<open>xdp_fill\<close>: \<open>fuel\<close> counts the remaining iterations \<open>n - i\<close>; it stops early
  when the stack is empty. The result is the ring, the stack and the number of chunks moved.
\<close>

fun xdp_fill_loop :: "nat \<Rightarrow> u64 list \<Rightarrow> u32 \<Rightarrow> umem_stack \<Rightarrow> u32 \<Rightarrow> (u64 list \<times> umem_stack \<times> u32) option" where
  "xdp_fill_loop 0 ring pr st i = Some (ring, st, i)"
| "xdp_fill_loop (Suc fuel) ring pr st i =
     do { (st', addr) \<leftarrow> umem_stack_pop st;
          if addr = -1 then Some (ring, st', i)
          else xdp_fill_loop fuel (ring[unat ((pr + i) AND RING_MASK) := addr]) pr st' (i + 1) }"

definition xdp_fill :: "xdp \<Rightarrow> umem_stack \<Rightarrow> u32 \<Rightarrow> (xdp \<times> umem_stack \<times> u32) option" where
  "xdp_fill xsk st max_n =
     (let pr = fill_ring_producer xsk; cons = fill_ring_consumer xsk;
          free_entries = (RING_MASK + 1) - (pr - cons);
          n = (if free_entries < max_n then free_entries else max_n)
      in if n = 0 then Some (xsk, st, 0)
         else do { (ring, st', n') \<leftarrow> xdp_fill_loop (unat n) (fill_ring xsk) pr st 0;
                   if n' > 0
                   then Some (xsk\<lparr>fill_ring := ring, fill_ring_producer := pr + n'\<rparr>, st', n')
                   else Some (xsk\<lparr>fill_ring := ring\<rparr>, st', n') })"

section \<open>Both ends of a ring\<close>

definition chan_ok :: "'a list \<Rightarrow> u32 \<Rightarrow> u32 \<Rightarrow> bool" where
  "chan_ok ring pr cons \<longleftrightarrow> length ring = 4096 \<and> unat (pr - cons) \<le> 4096"

definition chan_content :: "'a list \<Rightarrow> u32 \<Rightarrow> u32 \<Rightarrow> 'a list" where
  "chan_content ring pr cons = ring_list ring (unat cons) (unat (pr - cons))"

lemma ring_index: "unat ((pos + of_nat i) AND 4095 :: u32) = (unat pos + i) mod 4096"
  using unat_ring_index [of 12 pos i] by (simp add: mask_eq_exp_minus_1)

lemma chan_content_length [simp]: "length (chan_content ring pr cons) = unat (pr - cons)"
  by (simp add: chan_content_def)

lemma ring_take_content:
  assumes "chan_ok ring pr cons" "n \<le> unat (pr - cons)"
  shows "ring_take ring cons n = take n (chan_content ring pr cons)"
proof (rule nth_equalityI)
  show "length (ring_take ring cons n) = length (take n (chan_content ring pr cons))"
    using assms(2) by (simp add: ring_take_def)
next
  fix i assume "i < length (ring_take ring cons n)"
  then have "i < n" by (simp add: ring_take_def)
  then show "ring_take ring cons n ! i = take n (chan_content ring pr cons) ! i"
    using assms by (simp add: ring_take_def chan_content_def nth_ring_list chan_ok_def ring_index)
qed

lemma chan_content_advance:
  assumes "chan_ok ring pr cons" "n \<le> unat (pr - cons)"
  shows "chan_ok ring pr (cons + of_nat n)"
    and "chan_content ring pr (cons + of_nat n) = drop n (chan_content ring pr cons)"
proof -
  have "unat (pr - cons) < 2 ^ 32" using unsigned_less [of "pr - cons", where ?'a = nat] by simp
  then have n32: "n < 2 ^ 32" using assms(2) by linarith
  then have un: "unat (of_nat n :: u32) = n" by (simp add: unat_of_nat)
  have "pr - (cons + of_nat n) = (pr - cons) - of_nat n" by simp
  moreover have "of_nat n \<le> pr - cons" using assms(2) un by (simp add: word_le_nat_alt)
  ultimately have d: "unat (pr - (cons + of_nat n)) = unat (pr - cons) - n"
    using un by (simp only: unat_sub)
  show "chan_ok ring pr (cons + of_nat n)" using assms(1) d by (auto simp: chan_ok_def)
  have len: "length ring = 4096" using assms(1) by (simp add: chan_ok_def)
  show "chan_content ring pr (cons + of_nat n) = drop n (chan_content ring pr cons)"
  proof (rule nth_equalityI)
    show "length (chan_content ring pr (cons + of_nat n)) = length (drop n (chan_content ring pr cons))"
      by (simp add: d)
  next
    fix i assume "i < length (chan_content ring pr (cons + of_nat n))"
    then have i: "i < unat (pr - cons) - n" by (simp add: d)
    have "(unat (cons + of_nat n) + i) mod 4096 = (unat cons + n + i) mod 4096"
      using unat_add_of_nat_mod [of 12 cons n] by (simp, metis mod_add_left_eq)
    then show "chan_content ring pr (cons + of_nat n) ! i = drop n (chan_content ring pr cons) ! i"
      using i by (simp add: chan_content_def nth_ring_list d len add.assoc)
  qed
qed

lemma ring_put_content:
  assumes "chan_ok ring pr cons" "unat (pr - cons) + length xs \<le> 4096"
  shows "chan_ok (ring_put ring pr xs) (pr + of_nat (length xs)) cons
    \<and> chan_content (ring_put ring pr xs) (pr + of_nat (length xs)) cons = chan_content ring pr cons @ xs"
  using assms
proof (induction xs arbitrary: ring pr)
  case Nil
  then show ?case by simp
next
  case (Cons x xs)
  let ?r = "ring[unat (pr AND RING_MASK) := x]" and ?c = "unat (pr - cons)"
  have len: "length ring = 4096" and c: "?c < 4096"
    using Cons.prems by (simp_all add: chan_ok_def)
  have "Suc ?c < 2 ^ LENGTH(32)" using c by simp
  then have "unat ((pr - cons) + 1) = Suc ?c" by (rule unat_suc_word)
  moreover have "pr + 1 - cons = (pr - cons) + 1" by simp
  ultimately have d: "unat (pr + 1 - cons) = Suc ?c" by (simp only:)
  have "pr = cons + of_nat ?c" by simp
  then have idx: "unat (pr AND 4095) = (unat cons + ?c) mod 4096"
    using ring_index [of cons ?c] by simp
  have "chan_ok ?r (pr + 1) cons" "unat (pr + 1 - cons) + length xs \<le> 4096"
    using Cons.prems d by (simp_all add: chan_ok_def)
  from Cons.IH [OF this] have
    IH: "chan_ok (ring_put ?r (pr + 1) xs) (pr + 1 + of_nat (length xs)) cons"
      "chan_content (ring_put ?r (pr + 1) xs) (pr + 1 + of_nat (length xs)) cons
        = chan_content ?r (pr + 1) cons @ xs" by simp_all
  have "chan_content ?r (pr + 1) cons = chan_content ring pr cons @ [x]"
    using ring_list_push [of ?c ring "unat cons" x] c len by (simp add: chan_content_def d idx)
  with IH show ?case by (simp add: add.assoc)
qed

section \<open>The channel interface\<close>

text \<open>
  A producer and a consumer interleave on a ring. A batch that does not fit is not produced; the
  consumer takes at most what there is. \<open>chan_run\<close> returns the ring, what was produced and what
  was consumed, each in order.
\<close>

datatype 'a chan_event = Produce "'a list" | Consume nat

fun chan_run ::
  "('r \<Rightarrow> 'a list \<Rightarrow> 'r) \<Rightarrow> ('r \<Rightarrow> nat \<Rightarrow> 'a list \<times> 'r) \<Rightarrow> ('r \<Rightarrow> 'a list) \<Rightarrow> ('r \<Rightarrow> nat)
   \<Rightarrow> 'r \<Rightarrow> 'a chan_event list \<Rightarrow> 'r \<times> 'a list \<times> 'a list" where
  "chan_run put get content room r [] = (r, [], [])"
| "chan_run put get content room r (Produce xs # evs) =
     (let ys = (if length xs \<le> room r then xs else []); (r', sent, recv) = chan_run put get content room (put r ys) evs
      in (r', ys @ sent, recv))"
| "chan_run put get content room r (Consume n # evs) =
     (let (ys, r1) = get r (min n (length (content r)));
          (r', sent, recv) = chan_run put get content room r1 evs
      in (r', sent, ys @ recv))"

locale xdp_channel =
  fixes put :: "'r \<Rightarrow> 'a list \<Rightarrow> 'r"
    and get :: "'r \<Rightarrow> nat \<Rightarrow> 'a list \<times> 'r"
    and content :: "'r \<Rightarrow> 'a list"
    and room :: "'r \<Rightarrow> nat"
    and ok :: "'r \<Rightarrow> bool"
  assumes put_law: "ok r \<Longrightarrow> length xs \<le> room r \<Longrightarrow> ok (put r xs) \<and> content (put r xs) = content r @ xs"
    and get_law: "ok r \<Longrightarrow> n \<le> length (content r) \<Longrightarrow>
      fst (get r n) = take n (content r) \<and> ok (snd (get r n)) \<and> content (snd (get r n)) = drop n (content r)"
begin

lemma run_fifo:
  assumes "ok r" "chan_run put get content room r evs = (r', sent, recv)"
  shows "ok r' \<and> recv @ content r' = content r @ sent"
  using assms
proof (induction evs arbitrary: r r' sent recv)
  case Nil
  then show ?case by simp
next
  case (Cons ev evs)
  show ?case
  proof (cases ev)
    case (Produce xs)
    let ?ys = "if length xs \<le> room r then xs else []"
    obtain s1 where "chan_run put get content room (put r ?ys) evs = (r', s1, recv)" "sent = ?ys @ s1"
      using Cons.prems(2) Produce by (auto simp: Let_def split: prod.splits)
    then show ?thesis
      using Cons.IH [of "put r ?ys" r' s1 recv] put_law [OF Cons.prems(1), of ?ys] by simp
  next
    case (Consume n)
    let ?n = "min n (length (content r))"
    obtain r1 c1 where g: "get r ?n = (take ?n (content r), r1)" "ok r1" "content r1 = drop ?n (content r)"
      using get_law [OF Cons.prems(1), of ?n] by (cases "get r ?n") auto
    obtain v1 where "chan_run put get content room r1 evs = (r', sent, v1)" "recv = take ?n (content r) @ v1"
      using Cons.prems(2) Consume g(1) by (auto simp: Let_def split: prod.splits)
    then show ?thesis
      using Cons.IH [OF g(2), of r' sent v1] g(3) by (metis append.assoc append_take_drop_id)
  qed
qed

end

type_synonym 'a chan = "'a list \<times> u32 \<times> u32"

definition chan_put :: "'a chan \<Rightarrow> 'a list \<Rightarrow> 'a chan" where
  "chan_put r xs = (case r of (ring, pr, cons) \<Rightarrow> (ring_put ring pr xs, pr + of_nat (length xs), cons))"

definition chan_get :: "'a chan \<Rightarrow> nat \<Rightarrow> 'a list \<times> 'a chan" where
  "chan_get r n = (case r of (ring, pr, cons) \<Rightarrow> (ring_take ring cons n, (ring, pr, cons + of_nat n)))"

definition chan_items :: "'a chan \<Rightarrow> 'a list" where
  "chan_items r = (case r of (ring, pr, cons) \<Rightarrow> chan_content ring pr cons)"

definition chan_room :: "'a chan \<Rightarrow> nat" where
  "chan_room r = (case r of (ring, pr, cons) \<Rightarrow> unat (UMEM_CHUNK_COUNT - (pr - cons)))"

definition chan_inv :: "'a chan \<Rightarrow> bool" where
  "chan_inv r = (case r of (ring, pr, cons) \<Rightarrow> chan_ok ring pr cons)"

lemma free_entries_unat:
  assumes "chan_ok ring pr cons"
  shows "unat (4096 - (pr - cons) :: u32) = 4096 - unat (pr - cons)"
proof -
  have "pr - cons \<le> 4096" using assms by (simp add: chan_ok_def word_le_nat_alt)
  then show ?thesis by (simp only: unat_sub) simp
qed

interpretation chan: xdp_channel chan_put chan_get chan_items chan_room chan_inv
proof (unfold_locales, goal_cases)
  case (1 r xs)
  obtain ring pr cons where r: "r = (ring, pr, cons)" by (cases r)
  have "unat (pr - cons) + length xs \<le> 4096"
    using 1 free_entries_unat [of ring pr cons] by (auto simp: r chan_inv_def chan_room_def chan_ok_def)
  then show ?case
    using 1(1) ring_put_content [of ring pr cons xs] by (simp add: r chan_inv_def chan_put_def chan_items_def)
next
  case (2 r n)
  obtain ring pr cons where r: "r = (ring, pr, cons)" by (cases r)
  with 2 show ?case
    using chan_content_advance [of ring pr cons n] ring_take_content [of ring pr cons n]
    by (simp add: chan_inv_def chan_get_def chan_items_def)
qed

section \<open>The operations on the channels\<close>

abbreviation (input) rx_chan :: "xdp \<Rightarrow> xdp_desc chan" where
  "rx_chan x \<equiv> (rx_ring x, rx_ring_producer x, rx_ring_consumer x)"
abbreviation (input) tx_chan :: "xdp \<Rightarrow> xdp_desc chan" where
  "tx_chan x \<equiv> (tx_ring x, tx_ring_producer x, tx_ring_consumer x)"
abbreviation (input) fill_chan :: "xdp \<Rightarrow> u64 chan" where
  "fill_chan x \<equiv> (fill_ring x, fill_ring_producer x, fill_ring_consumer x)"
abbreviation (input) completion_chan :: "xdp \<Rightarrow> u64 chan" where
  "completion_chan x \<equiv> (completion_ring x, completion_ring_producer x, completion_ring_consumer x)"

lemmas chan_defs = chan_inv_def chan_items_def chan_put_def chan_get_def chan_room_def

lemma clamp_word:
  assumes "m = min (unat b) (unat a)"
  shows "(if a > b then b else a) = (of_nat m :: u32)" "unat (of_nat m :: u32) = m"
proof -
  have m: "m = unat (if a > b then b else a)" using assms by (auto simp: word_less_nat_alt)
  then show "(if a > b then b else a) = (of_nat m :: u32)" by simp
  then show "unat (of_nat m :: u32) = m" using m by simp
qed

lemma xdp_rx_step:
  assumes "chan_inv (rx_chan x)"
    and "m = min (unat max_n) (length (chan_items (rx_chan x)))" "m \<le> length out" "m \<le> length out_lens"
  shows "xdp_rx x out out_lens max_n = Some (x\<lparr>rx_ring_consumer := rx_ring_consumer x + of_nat m\<rparr>,
      splice out 0 (map xd_addr (take m (chan_items (rx_chan x)))),
      splice out_lens 0 (map xd_len (take m (chan_items (rx_chan x)))), of_nat m)"
proof -
  let ?n = "rx_ring_producer x - rx_ring_consumer x"
  have len: "length (chan_items (rx_chan x)) = unat ?n" by (simp add: chan_defs)
  note c = clamp_word [OF assms(2) [unfolded len]]
  have le: "m \<le> unat ?n" using assms(2) len by simp
  have "ring_take (rx_ring x) (rx_ring_consumer x) m = take m (chan_items (rx_chan x))"
    using ring_take_content [OF _ le] assms(1) by (simp add: chan_defs)
  then show ?thesis
    using assms(3,4) le len c
    by (cases "?n = 0") (simp_all add: xdp_rx_def Let_def mwrite_def splice_def)
qed

lemma xdp_complete_tx_step:
  assumes "chan_inv (completion_chan x)"
    and "m = min (unat max_n) (length (chan_items (completion_chan x)))" "m \<le> length out"
  shows "xdp_complete_tx x out max_n = Some (x\<lparr>completion_ring_consumer := completion_ring_consumer x + of_nat m\<rparr>,
      splice out 0 (take m (chan_items (completion_chan x))), of_nat m)"
proof -
  let ?n = "completion_ring_producer x - completion_ring_consumer x"
  have len: "length (chan_items (completion_chan x)) = unat ?n" by (simp add: chan_defs)
  note c = clamp_word [OF assms(2) [unfolded len]]
  have le: "m \<le> unat ?n" using assms(2) len by simp
  have "ring_take (completion_ring x) (completion_ring_consumer x) m = take m (chan_items (completion_chan x))"
    using ring_take_content [OF _ le] assms(1) by (simp add: chan_defs)
  then show ?thesis
    using assms(3) le len c
    by (cases "?n = 0") (simp_all add: xdp_complete_tx_def Let_def mwrite_def splice_def)
qed

lemma length_tx_descs [simp]: "length (tx_descs segs lens n) = unat n"
  by (simp add: tx_descs_def)

lemma xdp_tx_step:
  assumes "chan_inv (tx_chan x)" "unat n \<le> length segs" "unat n \<le> length lens"
  shows "xdp_tx x segs lens n =
    (if n = 0 \<or> n > 16 \<or> length (chan_items (tx_chan x)) + unat n > 4096 then Some (x, 0)
     else Some (x\<lparr>tx_ring := ring_put (tx_ring x) (tx_ring_producer x) (tx_descs segs lens n),
                  tx_ring_producer := tx_ring_producer x + n\<rparr>, n))"
proof -
  let ?d = "tx_ring_producer x - tx_ring_consumer x"
  have "chan_ok (tx_ring x) (tx_ring_producer x) (tx_ring_consumer x)"
    using assms(1) by (simp add: chan_defs)
  from free_entries_unat [OF this] this
  have "n > UMEM_CHUNK_COUNT - ?d \<longleftrightarrow> unat ?d + unat n > 4096"
    by (auto simp: word_less_nat_alt chan_ok_def)
  then show ?thesis using assms by (simp add: xdp_tx_def Let_def chan_defs)
qed

lemma tx_put_items:
  assumes "chan_inv (tx_chan x)" "length (chan_items (tx_chan x)) + length ds \<le> 4096"
  shows "chan_inv (ring_put (tx_ring x) (tx_ring_producer x) ds, tx_ring_producer x + of_nat (length ds), tx_ring_consumer x)
    \<and> chan_items (ring_put (tx_ring x) (tx_ring_producer x) ds, tx_ring_producer x + of_nat (length ds), tx_ring_consumer x)
        = chan_items (tx_chan x) @ ds"
  using ring_put_content [of "tx_ring x" "tx_ring_producer x" "tx_ring_consumer x" ds] assms
  by (simp add: chan_defs)

lemma xdp_fill_loop_step:
  assumes "us_inv st" "-1 \<notin> set (us_list st)" "m = min k (length (us_list st))"
  shows "\<exists>st'. xdp_fill_loop k ring pr st i =
      Some (ring_put ring (pr + i) (take m (rev (us_list st))), st', i + of_nat m)
    \<and> us_inv st' \<and> us_list st' = take (length (us_list st) - m) (us_list st)"
  using assms
proof (induction k arbitrary: ring st i m)
  case 0
  then show ?case by simp
next
  case (Suc k)
  show ?case
  proof (cases "us_list st" rule: rev_cases)
    case Nil
    then show ?thesis using Suc.prems umem_stack_pop_empty [of st] by simp
  next
    case (snoc xs a)
    obtain st1 where st1: "umem_stack_pop st = Some (st1, a)" "us_list st1 = xs" "us_inv st1"
      using umem_stack_pop_snoc [OF Suc.prems(1) snoc] by blast
    let ?m = "min k (length xs)"
    have "-1 \<notin> set (us_list st1)" "a \<noteq> -1" using Suc.prems(2) snoc st1 by auto
    moreover have "m = Suc ?m" using Suc.prems(3) snoc by simp
    ultimately show ?thesis
      using Suc.IH [of st1 ?m "ring[unat ((pr + i) AND 4095) := a]" "i + 1"] st1 snoc
      by (auto simp: add.assoc)
  qed
qed

lemma fill_put_items:
  assumes "chan_inv (fill_chan x)" "length (chan_items (fill_chan x)) + length ds \<le> 4096"
  shows "chan_inv (ring_put (fill_ring x) (fill_ring_producer x) ds, fill_ring_producer x + of_nat (length ds), fill_ring_consumer x)
    \<and> chan_items (ring_put (fill_ring x) (fill_ring_producer x) ds, fill_ring_producer x + of_nat (length ds), fill_ring_consumer x)
        = chan_items (fill_chan x) @ ds"
  using ring_put_content [of "fill_ring x" "fill_ring_producer x" "fill_ring_consumer x" ds] assms
  by (simp add: chan_defs)

lemma xdp_fill_step:
  assumes "chan_inv (fill_chan x)" "us_inv st" "-1 \<notin> set (us_list st)"
    and "m = min (min (unat max_n) (4096 - length (chan_items (fill_chan x)))) (length (us_list st))"
  shows "\<exists>st'. xdp_fill x st max_n =
      Some (x\<lparr>fill_ring := ring_put (fill_ring x) (fill_ring_producer x) (take m (rev (us_list st))),
              fill_ring_producer := fill_ring_producer x + of_nat m\<rparr>, st', of_nat m)
    \<and> us_inv st' \<and> us_list st' = take (length (us_list st) - m) (us_list st)"
proof -
  let ?c = "fill_ring_producer x - fill_ring_consumer x"
  let ?f = "4096 - ?c :: u32"
  let ?n = "if ?f < max_n then ?f else max_n"
  have "chan_ok (fill_ring x) (fill_ring_producer x) (fill_ring_consumer x)"
    using assms(1) by (simp add: chan_defs)
  from free_entries_unat [OF this] have "unat ?n = min (unat max_n) (4096 - length (chan_items (fill_chan x)))"
    by (auto simp: word_less_nat_alt chan_defs)
  then have mn: "m = min (unat ?n) (length (us_list st))" using assms(4) by simp
  show ?thesis
  proof (cases "?n = 0")
    case True
    then have "m = 0" "xdp_fill x st max_n = Some (x, st, 0)"
      using mn by (simp_all add: xdp_fill_def Let_def)
    then show ?thesis using assms(2) by simp
  next
    case False
    obtain st' where st': "xdp_fill_loop (unat ?n) (fill_ring x) (fill_ring_producer x) st 0
        = Some (ring_put (fill_ring x) (fill_ring_producer x) (take m (rev (us_list st))), st', of_nat m)"
      "us_inv st'" "us_list st' = take (length (us_list st) - m) (us_list st)"
      using xdp_fill_loop_step [OF assms(2,3) mn, of "fill_ring x" "fill_ring_producer x" 0] by auto
    have "of_nat m > (0 :: u32) \<or> of_nat m = (0 :: u32)" by (simp add: word_neq_0_conv [symmetric])
    moreover have "xdp_fill x st max_n = (if of_nat m > (0 :: u32)
        then Some (x\<lparr>fill_ring := ring_put (fill_ring x) (fill_ring_producer x) (take m (rev (us_list st))),
               fill_ring_producer := fill_ring_producer x + of_nat m\<rparr>, st', of_nat m)
        else Some (x\<lparr>fill_ring := ring_put (fill_ring x) (fill_ring_producer x) (take m (rev (us_list st)))\<rparr>, st', of_nat m))"
      using False st'(1) by (simp add: xdp_fill_def Let_def)
    ultimately show ?thesis using st'(2,3) by auto
  qed
qed

section \<open>Properties\<close>

text \<open>
  The transmit ring in use: the program sends packets of several segments, the kernel takes
  descriptors from the other end. The first list collects the descriptors of the accepted
  packets, the second what the kernel got.
\<close>

datatype tx_event = Send "u64 list" "u32 list" u32 | KernelTake nat

fun tx_run :: "xdp \<Rightarrow> tx_event list \<Rightarrow> (xdp \<times> xdp_desc list \<times> xdp_desc list) option" where
  "tx_run x [] = Some (x, [], [])"
| "tx_run x (Send segs lens n # evs) =
     do { (x1, k) \<leftarrow> xdp_tx x segs lens n;
          (x', sent, got) \<leftarrow> tx_run x1 evs;
          Some (x', tx_descs segs lens k @ sent, got) }"
| "tx_run x (KernelTake n # evs) =
     (let (ds, (ring, pr, cons)) = chan_get (tx_chan x) (min n (length (chan_items (tx_chan x))))
      in do { (x', sent, got) \<leftarrow> tx_run (x\<lparr>tx_ring_consumer := cons\<rparr>) evs;
              Some (x', sent, ds @ got) })"

fun tx_event_ok :: "tx_event \<Rightarrow> bool" where
  "tx_event_ok (Send segs lens n) \<longleftrightarrow> unat n \<le> length segs \<and> unat n \<le> length lens"
| "tx_event_ok (KernelTake n) \<longleftrightarrow> True"

fun tx_produce :: "tx_event \<Rightarrow> xdp_desc chan_event" where
  "tx_produce (Send segs lens n) = Produce (if n > XDP_MAX_SEGS then [] else tx_descs segs lens n)"
| "tx_produce (KernelTake n) = Consume n"

lemma tx_descs_0 [simp]: "tx_descs segs lens 0 = []"
  by (simp add: tx_descs_def)

lemma tx_run_chan_run:
  assumes "chan_inv (tx_chan x)" "list_all tx_event_ok evs"
  shows "\<exists>x' sent got. tx_run x evs = Some (x', sent, got)
    \<and> chan_run chan_put chan_get chan_items chan_room (tx_chan x) (map tx_produce evs) = (tx_chan x', sent, got)"
  using assms
proof (induction evs arbitrary: x)
  case Nil
  then show ?case by simp
next
  case (Cons ev evs)
  show ?case
  proof (cases ev)
    case (Send segs lens n)
    let ?x = "x\<lparr>tx_ring := ring_put (tx_ring x) (tx_ring_producer x) (tx_descs segs lens n),
                tx_ring_producer := tx_ring_producer x + n\<rparr>"
    have room: "chan_room (tx_chan x) = 4096 - length (chan_items (tx_chan x))" "length (chan_items (tx_chan x)) \<le> 4096"
      using Cons.prems(1) free_entries_unat by (auto simp: chan_defs chan_ok_def)
    have step: "xdp_tx x segs lens n = (if n = 0 \<or> n > 16 \<or> length (chan_items (tx_chan x)) + unat n > 4096
        then Some (x, 0) else Some (?x, n))"
      using xdp_tx_step [OF Cons.prems(1)] Cons.prems(2) Send by simp
    have put0: "chan_put (tx_chan x) [] = tx_chan x" by (simp add: chan_defs)
    show ?thesis
    proof (cases "n = 0 \<or> n > 16 \<or> length (chan_items (tx_chan x)) + unat n > 4096")
      case True
      then show ?thesis
        using Cons.IH [OF Cons.prems(1)] Cons.prems(2) step Send room put0
        by (auto simp: Let_def)
    next
      case False
      then have inv: "chan_inv (tx_chan ?x)"
        using tx_put_items [OF Cons.prems(1), of "tx_descs segs lens n"] by simp
      have "chan_put (tx_chan x) (tx_descs segs lens n) = tx_chan ?x" by (simp add: chan_defs)
      moreover have "unat n \<le> chan_room (tx_chan x)" using False room by linarith
      ultimately show ?thesis
        using Cons.IH [OF inv] Cons.prems(2) step Send False
        by (auto simp: Let_def)
    qed
  next
    case (KernelTake n)
    let ?m = "min n (length (chan_items (tx_chan x)))"
    have g: "chan_get (tx_chan x) ?m = (fst (chan_get (tx_chan x) ?m), tx_chan (x\<lparr>tx_ring_consumer := tx_ring_consumer x + of_nat ?m\<rparr>))"
      by (simp add: chan_defs)
    have "chan_inv (tx_chan (x\<lparr>tx_ring_consumer := tx_ring_consumer x + of_nat ?m\<rparr>))"
      using chan.get_law [OF Cons.prems(1), of ?m] by (simp add: chan_defs)
    from Cons.IH [OF this] show ?thesis
      using Cons.prems(2) KernelTake by (auto simp: Let_def chan_get_def)
  qed
qed

text \<open>
  C12. Whatever the interleaving of \<^verbatim>\<open>xdp_tx\<close> calls with the kernel's consumption, and across
  the wrap-around of the counters, every call returns and the kernel receives exactly the
  descriptors of the accepted packets, in order: nothing is lost, repeated or overwritten.
\<close>

theorem xdp_tx_fifo:
  assumes "chan_inv (tx_chan x)" "list_all tx_event_ok evs"
  shows "\<exists>x' sent got. tx_run x evs = Some (x', sent, got) \<and> got @ chan_items (tx_chan x') = chan_items (tx_chan x) @ sent"
proof -
  obtain x' sent got where r: "tx_run x evs = Some (x', sent, got)"
      "chan_run chan_put chan_get chan_items chan_room (tx_chan x) (map tx_produce evs) = (tx_chan x', sent, got)"
    using tx_run_chan_run [OF assms] by blast
  with chan.run_fifo [OF assms(1) r(2)] show ?thesis by blast
qed

definition xdp0 :: xdp where
  "xdp0 = (let d = \<lparr>xd_addr = 0, xd_len = 0, xd_options = 0\<rparr> in
     \<lparr>rx_ring = replicate 4096 d, rx_ring_producer = 1, rx_ring_consumer = -1,
      tx_ring = replicate 4096 d, tx_ring_producer = -1, tx_ring_consumer = -1,
      fill_ring = replicate 4096 0, fill_ring_producer = -1, fill_ring_consumer = -1,
      completion_ring = replicate 4096 0, completion_ring_producer = 0, completion_ring_consumer = 0\<rparr>)"

lemma xdp0_chans:
  "chan_inv (tx_chan xdp0)" "chan_inv (rx_chan xdp0)" "chan_inv (fill_chan xdp0)"
  by (simp_all add: xdp0_def Let_def chan_defs chan_ok_def)

theorem xdp_tx_fifo_witness:
  "\<exists>x' sent got. tx_run xdp0 [Send [4096, 8192] [48, 100] 2, KernelTake 1, Send [0] [60] 1, KernelTake 7]
      = Some (x', sent, got)
    \<and> got @ chan_items (tx_chan x') = chan_items (tx_chan xdp0) @ sent"
  by (rule xdp_tx_fifo [OF xdp0_chans(1)]) simp

text \<open>
  C30. \<^verbatim>\<open>xdp_tx\<close> is all or nothing: a packet of 1 to 16 segments that fits is appended to the
  transmit ring, its descriptors in segment order and chained by \<^verbatim>\<open>XDP_PKT_CONTD\<close> on every one
  but the last, and its segment count is returned; otherwise nothing changes and 0 is returned.
\<close>

theorem xdp_tx_all_or_nothing:
  assumes "chan_inv (tx_chan x)" "unat n \<le> length segs" "unat n \<le> length lens"
  shows "\<exists>x' k. xdp_tx x segs lens n = Some (x', k) \<and> chan_inv (tx_chan x')
    \<and> (if 0 < n \<and> n \<le> 16 \<and> length (chan_items (tx_chan x)) + unat n \<le> 4096
       then k = n \<and> chan_items (tx_chan x') = chan_items (tx_chan x) @ tx_descs segs lens n
         \<and> map xd_addr (tx_descs segs lens n) = take (unat n) segs
         \<and> map xd_options (tx_descs segs lens n) = replicate (unat n - 1) XDP_PKT_CONTD @ [0]
       else k = 0 \<and> x' = x)"
proof (cases "n = 0 \<or> n > 16 \<or> length (chan_items (tx_chan x)) + unat n > 4096")
  case True
  then show ?thesis using xdp_tx_step [OF assms] assms(1) by (auto simp: word_neq_0_conv)
next
  case False
  let ?ds = "tx_descs segs lens n"
  have n: "0 < unat n" using False by (simp add: unat_gt_0)
  then have n1: "unat (n - 1) = unat n - 1" using False by (simp add: unat_minus_one)
  have lt: "of_nat i < n - 1 \<longleftrightarrow> i < unat n - 1" if "i < unat n" for i
  proof -
    have "unat (of_nat i :: u32) = i" using that by (metis of_nat_inverse order_less_trans unsigned_less)
    then show ?thesis by (simp add: word_less_nat_alt n1)
  qed
  have "map xd_addr ?ds = take (unat n) segs"
    using assms(2) by (intro nth_equalityI) (auto simp: tx_descs_def)
  moreover have "map xd_options ?ds = replicate (unat n - 1) XDP_PKT_CONTD @ [0]"
    using n lt by (intro nth_equalityI) (auto simp: tx_descs_def nth_append)
  moreover have "0 < n" "n \<le> 16" using False by (auto simp: word_neq_0_conv not_less)
  ultimately show ?thesis
    using False xdp_tx_step [OF assms] tx_put_items [OF assms(1), of ?ds] by simp
qed

theorem xdp_tx_all_or_nothing_witness:
  "\<exists>x' k. xdp_tx xdp0 [0, 4096, 64] [48, 16, 1400] 3 = Some (x', k) \<and> k = 3
    \<and> map xd_options (chan_items (tx_chan x')) = [1, 1, 0]"
proof -
  have r2: "replicate 2 (1 :: u32) = [1, 1]" by (simp add: numeral_2_eq_2)
  have "chan_items (tx_chan xdp0) = []" by (simp add: xdp0_def Let_def chan_defs chan_content_def)
  then show ?thesis
    using xdp_tx_all_or_nothing [OF xdp0_chans(1), of 3 "[0, 4096, 64]" "[48, 16, 1400]"] r2
    by auto
qed

text \<open>
  \<^verbatim>\<open>xdp_rx\<close> hands over the oldest received descriptors, as many as there are and the
  caller has asked for, in arrival order, and leaves the rest in the ring.
\<close>

theorem xdp_rx_oldest_first:
  assumes "chan_inv (rx_chan x)" "m = min (unat max_n) (length (chan_items (rx_chan x)))"
    and "m \<le> length out" "m \<le> length out_lens"
  shows "\<exists>x' out' lens'. xdp_rx x out out_lens max_n = Some (x', out', lens', of_nat m)
    \<and> take m out' = map xd_addr (take m (chan_items (rx_chan x))) \<and> drop m out' = drop m out
    \<and> take m lens' = map xd_len (take m (chan_items (rx_chan x)))
    \<and> chan_inv (rx_chan x') \<and> chan_items (rx_chan x') = drop m (chan_items (rx_chan x))"
proof -
  let ?x = "x\<lparr>rx_ring_consumer := rx_ring_consumer x + of_nat m\<rparr>"
  have "m \<le> length (chan_items (rx_chan x))" using assms(2) by simp
  then have "chan_inv (rx_chan ?x) \<and> chan_items (rx_chan ?x) = drop m (chan_items (rx_chan x))"
    using chan.get_law [OF assms(1), of m] by (simp add: chan_defs)
  then show ?thesis
    using xdp_rx_step [OF assms] assms(2) by (simp add: splice_def)
qed

theorem xdp_rx_oldest_first_witness:
  "\<exists>x' out' lens'. xdp_rx xdp0 [7, 7, 7] [0, 0, 0] 3 = Some (x', out', lens', of_nat 2) \<and> drop 2 out' = [7]
    \<and> chan_items (rx_chan x') = []"
proof -
  have "length (chan_items (rx_chan xdp0)) = 2" by (simp add: xdp0_def Let_def chan_defs)
  then show ?thesis
    using xdp_rx_oldest_first [OF xdp0_chans(2), of 2 3 "[7, 7, 7]" "[0, 0, 0]"] by auto
qed

text \<open>
  C29. \<^verbatim>\<open>xdp_fill\<close> moves free chunks from the stack to the fill ring: as many as asked for, as
  the ring has room for and as the stack holds; no chunk is lost, duplicated or overwritten.
\<close>

theorem xdp_fill_conserves:
  assumes "chan_inv (fill_chan x)" "us_inv st" "-1 \<notin> set (us_list st)"
  shows "\<exists>x' st' k. xdp_fill x st max_n = Some (x', st', k)
    \<and> unat k = min (min (unat max_n) (4096 - length (chan_items (fill_chan x)))) (length (us_list st))
    \<and> chan_inv (fill_chan x') \<and> us_inv st'
    \<and> chan_items (fill_chan x') = chan_items (fill_chan x) @ take (unat k) (rev (us_list st))
    \<and> mset (chan_items (fill_chan x')) + mset (us_list st') = mset (chan_items (fill_chan x)) + mset (us_list st)"
proof -
  let ?us = "us_list st" and ?c = "length (chan_items (fill_chan x))"
  define m where "m = min (min (unat max_n) (4096 - ?c)) (length ?us)"
  obtain st' where st': "xdp_fill x st max_n =
      Some (x\<lparr>fill_ring := ring_put (fill_ring x) (fill_ring_producer x) (take m (rev ?us)),
              fill_ring_producer := fill_ring_producer x + of_nat m\<rparr>, st', of_nat m)"
      "us_inv st'" "us_list st' = take (length ?us - m) ?us"
    using xdp_fill_step [OF assms m_def] by blast
  have um: "unat (of_nat m :: u32) = m"
    using clamp_word(2) [of "min (unat max_n) 4096" max_n 4096] by (simp add: m_def unat_of_nat min_def)
  have "?c \<le> 4096" using assms(1) by (simp add: chan_defs chan_ok_def)
  then have "?c + length (take m (rev ?us)) \<le> 4096" "length (take m (rev ?us)) = m" by (auto simp: m_def)
  with fill_put_items [OF assms(1), of "take m (rev ?us)"]
  have "chan_inv (ring_put (fill_ring x) (fill_ring_producer x) (take m (rev ?us)), fill_ring_producer x + of_nat m, fill_ring_consumer x)"
    and items: "chan_items (ring_put (fill_ring x) (fill_ring_producer x) (take m (rev ?us)), fill_ring_producer x + of_nat m, fill_ring_consumer x)
      = chan_items (fill_chan x) @ take m (rev ?us)" by simp_all
  moreover have "mset (take m (rev ?us)) + mset (take (length ?us - m) ?us) = mset ?us"
    by (simp add: take_rev) (metis append_take_drop_id mset_append union_commute)
  ultimately show ?thesis using st' um by (auto simp: m_def [symmetric] add.assoc)
qed

theorem xdp_fill_conserves_witness:
  "\<exists>x' st' k. xdp_fill xdp0 \<lparr>us_addrs = [0, 4096, 8192], us_top = 3, us_cap = 3\<rparr> 2 = Some (x', st', k)
    \<and> unat k = 2 \<and> chan_items (fill_chan x') = [8192, 4096]"
proof -
  let ?st = "\<lparr>us_addrs = [0, 4096, 8192], us_top = 3, us_cap = 3\<rparr>"
  have "us_inv ?st" "us_list ?st = [0, 4096, 8192]" by (simp_all add: us_inv_def us_list_def)
  moreover have "chan_items (fill_chan xdp0) = []" by (simp add: xdp0_def Let_def chan_defs chan_content_def)
  ultimately show ?thesis
    using xdp_fill_conserves [OF xdp0_chans(3), of ?st 2] by auto
qed

end
