(* ===== verification/Crc32c.thy ===== *)
theory Crc32c
  imports Prelude
begin

unbundle bit_operations_syntax

text \<open>
  The CRC32c of \<^verbatim>\<open>src/generate_crc32c.c\<close>: the version on the SSE 4.2 instructions, the chaining
  version \<^verbatim>\<open>generate_crc32c_on_crc32c\<close>, and the table version compiled for other processors. The
  instructions are defined bit by bit (Intel SDM, CRC32); the three versions are shown equal and
  shown to detect every change of up to four consecutive bytes.
\<close>

section \<open>The instructions\<close>

abbreviation (input) CRC32C_POLY :: u32 where "CRC32C_POLY \<equiv> 0x82F63B78"

definition crc_step :: "u32 \<Rightarrow> bool \<Rightarrow> u32" where
  "crc_step c b = drop_bit 1 c XOR (if bit c 0 \<noteq> b then CRC32C_POLY else 0)"

primrec crc32_bits :: "nat \<Rightarrow> u32 \<Rightarrow> 'a::len word \<Rightarrow> u32" where
  "crc32_bits 0 c d = c"
| "crc32_bits (Suc n) c d = crc32_bits n (crc_step c (bit d 0)) (drop_bit 1 d)"

text \<open>\<^verbatim>\<open>__builtin_ia32_crc32qi\<close> and \<^verbatim>\<open>__builtin_ia32_crc32di\<close>: the low half of the accumulator is used.\<close>

definition crc32qi :: "u64 \<Rightarrow> u8 \<Rightarrow> u64" where
  "crc32qi crc v = ucast (crc32_bits 8 (ucast crc) v)"

definition crc32di :: "u64 \<Rightarrow> u64 \<Rightarrow> u64" where
  "crc32di crc v = ucast (crc32_bits 64 (ucast crc) v)"

section \<open>The code\<close>

function crc_loop8 :: "bytes \<Rightarrow> nat \<Rightarrow> nat \<Rightarrow> u64 \<Rightarrow> (nat \<times> u64) option" where
  "crc_loop8 data len i crc =
     (if i + 8 \<le> len
      then do { chunk \<leftarrow> get_u64 data i; crc_loop8 data len (i + 8) (crc32di crc chunk) }
      else Some (i, crc))"
  by pat_completeness auto
termination by (relation "measure (\<lambda>(data, len, i, crc). len - i)") auto

function crc_loop1 :: "bytes \<Rightarrow> nat \<Rightarrow> nat \<Rightarrow> u64 \<Rightarrow> u64 option" where
  "crc_loop1 data len i crc =
     (if i < len
      then do { b \<leftarrow> get_u8 data i; crc_loop1 data len (i + 1) (crc32qi crc b) }
      else Some crc)"
  by pat_completeness auto
termination by (relation "measure (\<lambda>(data, len, i, crc). len - i)") auto

declare crc_loop8.simps [simp del] crc_loop1.simps [simp del]

definition generate_crc32c_on_crc32c :: "bytes \<Rightarrow> u32 \<Rightarrow> u64 \<Rightarrow> u64 option" where
  "generate_crc32c_on_crc32c data len crc =
     do { (i, crc) \<leftarrow> crc_loop8 data (unat len) 0 crc; crc_loop1 data (unat len) i crc }"

definition generate_crc32c :: "bytes \<Rightarrow> u32 \<Rightarrow> u32 option" where
  "generate_crc32c data len =
     do { (i, crc) \<leftarrow> crc_loop8 data (unat len) 0 0xFFFFFFFF;
          crc \<leftarrow> crc_loop1 data (unat len) i crc;
          Some (NOT (ucast crc)) }"

definition crc_c :: "u32 list" where
  "crc_c = [
    0x00000000, 0xF26B8303, 0xE13B70F7, 0x1350F3F4, 0xC79A971F, 0x35F1141C,
    0x26A1E7E8, 0xD4CA64EB, 0x8AD958CF, 0x78B2DBCC, 0x6BE22838, 0x9989AB3B,
    0x4D43CFD0, 0xBF284CD3, 0xAC78BF27, 0x5E133C24, 0x105EC76F, 0xE235446C,
    0xF165B798, 0x030E349B, 0xD7C45070, 0x25AFD373, 0x36FF2087, 0xC494A384,
    0x9A879FA0, 0x68EC1CA3, 0x7BBCEF57, 0x89D76C54, 0x5D1D08BF, 0xAF768BBC,
    0xBC267848, 0x4E4DFB4B, 0x20BD8EDE, 0xD2D60DDD, 0xC186FE29, 0x33ED7D2A,
    0xE72719C1, 0x154C9AC2, 0x061C6936, 0xF477EA35, 0xAA64D611, 0x580F5512,
    0x4B5FA6E6, 0xB93425E5, 0x6DFE410E, 0x9F95C20D, 0x8CC531F9, 0x7EAEB2FA,
    0x30E349B1, 0xC288CAB2, 0xD1D83946, 0x23B3BA45, 0xF779DEAE, 0x05125DAD,
    0x1642AE59, 0xE4292D5A, 0xBA3A117E, 0x4851927D, 0x5B016189, 0xA96AE28A,
    0x7DA08661, 0x8FCB0562, 0x9C9BF696, 0x6EF07595, 0x417B1DBC, 0xB3109EBF,
    0xA0406D4B, 0x522BEE48, 0x86E18AA3, 0x748A09A0, 0x67DAFA54, 0x95B17957,
    0xCBA24573, 0x39C9C670, 0x2A993584, 0xD8F2B687, 0x0C38D26C, 0xFE53516F,
    0xED03A29B, 0x1F682198, 0x5125DAD3, 0xA34E59D0, 0xB01EAA24, 0x42752927,
    0x96BF4DCC, 0x64D4CECF, 0x77843D3B, 0x85EFBE38, 0xDBFC821C, 0x2997011F,
    0x3AC7F2EB, 0xC8AC71E8, 0x1C661503, 0xEE0D9600, 0xFD5D65F4, 0x0F36E6F7,
    0x61C69362, 0x93AD1061, 0x80FDE395, 0x72966096, 0xA65C047D, 0x5437877E,
    0x4767748A, 0xB50CF789, 0xEB1FCBAD, 0x197448AE, 0x0A24BB5A, 0xF84F3859,
    0x2C855CB2, 0xDEEEDFB1, 0xCDBE2C45, 0x3FD5AF46, 0x7198540D, 0x83F3D70E,
    0x90A324FA, 0x62C8A7F9, 0xB602C312, 0x44694011, 0x5739B3E5, 0xA55230E6,
    0xFB410CC2, 0x092A8FC1, 0x1A7A7C35, 0xE811FF36, 0x3CDB9BDD, 0xCEB018DE,
    0xDDE0EB2A, 0x2F8B6829, 0x82F63B78, 0x709DB87B, 0x63CD4B8F, 0x91A6C88C,
    0x456CAC67, 0xB7072F64, 0xA457DC90, 0x563C5F93, 0x082F63B7, 0xFA44E0B4,
    0xE9141340, 0x1B7F9043, 0xCFB5F4A8, 0x3DDE77AB, 0x2E8E845F, 0xDCE5075C,
    0x92A8FC17, 0x60C37F14, 0x73938CE0, 0x81F80FE3, 0x55326B08, 0xA759E80B,
    0xB4091BFF, 0x466298FC, 0x1871A4D8, 0xEA1A27DB, 0xF94AD42F, 0x0B21572C,
    0xDFEB33C7, 0x2D80B0C4, 0x3ED04330, 0xCCBBC033, 0xA24BB5A6, 0x502036A5,
    0x4370C551, 0xB11B4652, 0x65D122B9, 0x97BAA1BA, 0x84EA524E, 0x7681D14D,
    0x2892ED69, 0xDAF96E6A, 0xC9A99D9E, 0x3BC21E9D, 0xEF087A76, 0x1D63F975,
    0x0E330A81, 0xFC588982, 0xB21572C9, 0x407EF1CA, 0x532E023E, 0xA145813D,
    0x758FE5D6, 0x87E466D5, 0x94B49521, 0x66DF1622, 0x38CC2A06, 0xCAA7A905,
    0xD9F75AF1, 0x2B9CD9F2, 0xFF56BD19, 0x0D3D3E1A, 0x1E6DCDEE, 0xEC064EED,
    0xC38D26C4, 0x31E6A5C7, 0x22B65633, 0xD0DDD530, 0x0417B1DB, 0xF67C32D8,
    0xE52CC12C, 0x1747422F, 0x49547E0B, 0xBB3FFD08, 0xA86F0EFC, 0x5A048DFF,
    0x8ECEE914, 0x7CA56A17, 0x6FF599E3, 0x9D9E1AE0, 0xD3D3E1AB, 0x21B862A8,
    0x32E8915C, 0xC083125F, 0x144976B4, 0xE622F5B7, 0xF5720643, 0x07198540,
    0x590AB964, 0xAB613A67, 0xB831C993, 0x4A5A4A90, 0x9E902E7B, 0x6CFBAD78,
    0x7FAB5E8C, 0x8DC0DD8F, 0xE330A81A, 0x115B2B19, 0x020BD8ED, 0xF0605BEE,
    0x24AA3F05, 0xD6C1BC06, 0xC5914FF2, 0x37FACCF1, 0x69E9F0D5, 0x9B8273D6,
    0x88D28022, 0x7AB90321, 0xAE7367CA, 0x5C18E4C9, 0x4F48173D, 0xBD23943E,
    0xF36E6F75, 0x0105EC76, 0x12551F82, 0xE03E9C81, 0x34F4F86A, 0xC69F7B69,
    0xD5CF889D, 0x27A40B9E, 0x79B737BA, 0x8BDCB4B9, 0x988C474D, 0x6AE7C44E,
    0xBE2DA0A5, 0x4C4623A6, 0x5F16D052, 0xAD7D5351
  ]"

definition crc32c_macro :: "u32 \<Rightarrow> u8 \<Rightarrow> u32" where
  "crc32c_macro c d = drop_bit 8 c XOR crc_c ! unat ((c XOR ucast d) AND 0xFF)"

function crc_table_loop :: "bytes \<Rightarrow> nat \<Rightarrow> nat \<Rightarrow> u32 \<Rightarrow> u32 option" where
  "crc_table_loop buffer len i crc32 =
     (if i < len
      then do { b \<leftarrow> get_u8 buffer i; crc_table_loop buffer len (i + 1) (crc32c_macro crc32 b) }
      else Some crc32)"
  by pat_completeness auto
termination by (relation "measure (\<lambda>(buffer, len, i, crc32). len - i)") auto

declare crc_table_loop.simps [simp del]

definition generate_crc32c_table :: "bytes \<Rightarrow> u32 \<Rightarrow> u32 option" where
  "generate_crc32c_table buffer len =
     do { crc32 \<leftarrow> crc_table_loop buffer (unat len) 0 0xffffffff;
          let result = NOT crc32;
              byte0 = result AND 0xff;
              byte1 = drop_bit 8 result AND 0xff;
              byte2 = drop_bit 16 result AND 0xff;
              byte3 = drop_bit 24 result AND 0xff;
              crc32 = push_bit 24 byte0 OR push_bit 16 byte1 OR push_bit 8 byte2 OR byte3
          in Some (htonl crc32) }"

section \<open>Bit serial arithmetic\<close>

definition crc_byte :: "u32 \<Rightarrow> u8 \<Rightarrow> u32" where
  "crc_byte c b = crc32_bits 8 c b"

abbreviation crc_bytes :: "bytes \<Rightarrow> u32 \<Rightarrow> u32" where
  "crc_bytes bs c \<equiv> foldl crc_byte c bs"

lemma crc32_bits_split:
  "crc32_bits (m + n) c d = crc32_bits n (crc32_bits m c d) (drop_bit m d)"
  by (induction m arbitrary: c d) (simp_all add: drop_bit_drop_bit add.commute)

lemma crc32_bits_cong:
  "(\<And>i. i < n \<Longrightarrow> bit d i = bit e i) \<Longrightarrow> crc32_bits n c d = crc32_bits n c e"
proof (induction n arbitrary: c d e)
  case (Suc n)
  have "crc32_bits n c' (drop_bit 1 d) = crc32_bits n c' (drop_bit 1 e)" for c'
    using Suc.prems by (intro Suc.IH) (simp add: bit_simps)
  then show ?case using Suc.prems [of 0] by simp
qed simp

text \<open>The bits of a little-endian word are consumed in the order of its bytes.\<close>

lemma crc32_bits_bytes:
  assumes "8 * length bs \<le> LENGTH('a)"
  shows "crc32_bits (8 * length bs) c (bytes_word bs :: 'a::len word) = crc_bytes bs c"
  using assms
proof (induction bs arbitrary: c)
  case (Cons b bs)
  let ?w = "bytes_word (b # bs) :: 'a word"
  have "crc32_bits 8 c ?w = crc_byte c b" unfolding crc_byte_def
    using Cons.prems by (intro crc32_bits_cong) (auto simp: bit_simps)
  moreover have "crc32_bits (8 * length bs) c' (drop_bit 8 ?w) = crc32_bits (8 * length bs) c' (bytes_word bs :: 'a word)" for c'
    using Cons.prems by (intro crc32_bits_cong) (auto simp: bit_simps dest: bit_imp_le_length)
  ultimately show ?case
    using Cons crc32_bits_split [of 8 "8 * length bs" c ?w] by simp
qed simp

lemma ucast_u64_u32 [simp]: "(ucast (ucast (c :: u32) :: u64) :: u32) = c"
  by (rule bit_word_eqI) (simp add: bit_simps)

lemma crc32qi_ucast: "crc32qi (ucast c) b = ucast (crc_byte c b)"
  by (simp add: crc32qi_def crc_byte_def)

lemma crc_loop1_bytes:
  assumes "len \<le> length data"
  shows "crc_loop1 data len i (ucast c) = Some (ucast (crc_bytes (drop i (take len data)) c))"
  using assms
proof (induction data len i "ucast c :: u64" arbitrary: c rule: crc_loop1.induct)
  case (1 data len i)
  show ?case
  proof (cases "i < len")
    case True
    then have b: "get_u8 data i = Some (data ! i)" using 1(2)
      by (simp add: get_word_def mread_def take_Suc_conv_app_nth Cons_nth_drop_Suc [symmetric] numeral_eq_Suc)
    have "drop i (take len data) = data ! i # drop (Suc i) (take len data)"
      using True 1(2) by (simp add: Cons_nth_drop_Suc [symmetric])
    then show ?thesis using 1(1) [OF True b, of "crc_byte c (data ! i)"] 1(2) True b
      by (subst crc_loop1.simps) (simp add: crc32qi_ucast)
  qed (simp add: crc_loop1.simps)
qed

lemma get_u64_bytes:
  assumes "i + 8 \<le> length data"
  shows "get_u64 data i = Some (bytes_word (take 8 (drop i data)))"
  using assms by (simp add: get_word_def mread_def)

lemma crc32di_bytes:
  assumes "length bs = 8"
  shows "crc32di (ucast c) (bytes_word bs) = ucast (crc_bytes bs c)"
  using crc32_bits_bytes [of bs c, where 'a = 64] assms by (simp add: crc32di_def)

lemma crc_loop8_bytes:
  assumes "len \<le> length data"
  shows "\<exists>j. crc_loop8 data len i (ucast c) = Some (j, ucast (crc_bytes (drop i (take j data)) c)) \<and> (i \<le> len \<longrightarrow> i \<le> j \<and> j \<le> len)"
  using assms
proof (induction data len i "ucast c :: u64" arbitrary: c rule: crc_loop8.induct)
  case (1 data len i)
  show ?case
  proof (cases "i + 8 \<le> len")
    case True
    let ?bs = "take 8 (drop i data)"
    have g: "get_u64 data i = Some (bytes_word ?bs)" and bs: "length ?bs = 8"
      using True 1(2) by (simp_all add: get_u64_bytes)
    obtain j where j: "crc_loop8 data len (i + 8) (ucast (crc_bytes ?bs c))
        = Some (j, ucast (crc_bytes (drop (i + 8) (take j data)) (crc_bytes ?bs c)))" "i + 8 \<le> j" "j \<le> len"
      using 1(1) [OF True g, of "crc_bytes ?bs c"] 1(2) True by (auto simp: crc32di_bytes [OF bs])
    have "drop i (take j data) = take 8 (drop i (take j data)) @ drop 8 (drop i (take j data))"
      by (simp only: append_take_drop_id)
    also have "take 8 (drop i (take j data)) = ?bs" using j(2) by (simp add: drop_take min_def)
    finally have "drop i (take j data) = ?bs @ drop (i + 8) (take j data)" by (simp add: add.commute)
    then have "crc_bytes (drop i (take j data)) c = crc_bytes (drop (i + 8) (take j data)) (crc_bytes ?bs c)" by simp
    then show ?thesis using j g True by (subst crc_loop8.simps) (simp add: crc32di_bytes [OF bs])
  next
    case False
    then show ?thesis by (simp add: crc_loop8.simps)
  qed
qed

text \<open>Both SSE versions are the byte-wise CRC of the first \<open>length\<close> bytes.\<close>

lemma generate_crc32c_on_crc32c_bytes:
  assumes "unat len \<le> length data"
  shows "generate_crc32c_on_crc32c data len (ucast c) = Some (ucast (crc_bytes (take (unat len) data) c))"
proof -
  obtain j where j: "crc_loop8 data (unat len) 0 (ucast c) = Some (j, ucast (crc_bytes (take j data) c))" "j \<le> unat len"
    using crc_loop8_bytes [OF assms, of 0 c] by auto
  have "take (unat len) data = take j data @ drop j (take (unat len) data)"
    using j(2) by (metis append_take_drop_id min.absorb2 min.commute take_take)
  then have "crc_bytes (take (unat len) data) c = crc_bytes (drop j (take (unat len) data)) (crc_bytes (take j data) c)"
    by (metis foldl_append)
  then show ?thesis using j(1) crc_loop1_bytes [OF assms] by (simp add: generate_crc32c_on_crc32c_def)
qed

lemma generate_crc32c_bytes:
  assumes "unat len \<le> length data"
  shows "generate_crc32c data len = Some (NOT (crc_bytes (take (unat len) data) 0xFFFFFFFF))"
proof -
  have "(0xFFFFFFFF :: u64) = ucast (0xFFFFFFFF :: u32)" by simp
  then have "generate_crc32c data len = map_option (\<lambda>c. NOT (ucast c)) (generate_crc32c_on_crc32c data len (ucast (0xFFFFFFFF :: u32)))"
    by (cases "crc_loop8 data (unat len) 0 (ucast (0xFFFFFFFF :: u32))")
      (auto simp: generate_crc32c_def generate_crc32c_on_crc32c_def map_conv_bind_option o_def)
  then show ?thesis using generate_crc32c_on_crc32c_bytes [OF assms, of "0xFFFFFFFF"] by simp
qed

lemma generate_crc32c_on_crc32c_all:
  "unat len = length data \<Longrightarrow> generate_crc32c_on_crc32c data len (ucast c) = Some (ucast (crc_bytes data c))"
  using generate_crc32c_on_crc32c_bytes [of len data c] by simp

lemma generate_crc32c_all:
  "unat len = length data \<Longrightarrow> generate_crc32c data len = Some (NOT (crc_bytes data 0xFFFFFFFF))"
  using generate_crc32c_bytes [of len data] by simp

text \<open>A length beyond the buffer is a read out of bounds.\<close>

lemma crc_loop1_overrun:
  "i \<le> length data \<Longrightarrow> length data < len \<Longrightarrow> crc_loop1 data len i crc = None"
proof (induction data len i crc rule: crc_loop1.induct)
  case (1 data len i crc)
  then show ?case
    by (cases "i < length data") (subst crc_loop1.simps, auto simp: get_word_def mread_def)+
qed

lemma crc_loop8_overrun:
  "i \<le> length data \<Longrightarrow> crc_loop8 data len i crc = Some (j, c) \<Longrightarrow> j \<le> length data"
proof (induction data len i crc rule: crc_loop8.induct)
  case (1 data len i crc)
  show ?case
  proof (cases "i + 8 \<le> len")
    case True
    from 1(3) True obtain chunk where ch: "get_u64 data i = Some chunk"
        "crc_loop8 data len (i + 8) (crc32di crc chunk) = Some (j, c)"
      by (subst (asm) crc_loop8.simps) (auto simp: bind_eq_Some_conv)
    then have "i + 8 \<le> length data" by (simp add: get_word_def mread_def split: if_splits)
    from 1(1) [OF True ch(1) this ch(2)] show ?thesis .
  next
    case False
    then show ?thesis using 1(2,3) by (simp add: crc_loop8.simps)
  qed
qed

lemma generate_crc32c_overrun:
  assumes "length data < unat len"
  shows "generate_crc32c_on_crc32c data len crc = None"
proof (cases "crc_loop8 data (unat len) 0 crc")
  case (Some r)
  then show ?thesis
    using crc_loop8_overrun [of 0 data "unat len" crc] crc_loop1_overrun [OF _ assms]
    by (cases r) (auto simp: generate_crc32c_on_crc32c_def)
qed (simp add: generate_crc32c_on_crc32c_def)

section \<open>Linearity and the table\<close>

abbreviation crc_shift :: "u32 \<Rightarrow> u32" where
  "crc_shift c \<equiv> crc_step c False"

lemma crc_step_shift: "crc_step c b = crc_shift (c XOR of_bool b)"
  by (rule bit_word_eqI) (auto simp: crc_step_def bit_simps)

lemma crc_shift_xor: "crc_shift (a XOR b) = crc_shift a XOR crc_shift b"
  by (rule bit_word_eqI) (auto simp: crc_step_def bit_simps)

lemma crc32_bits_xor:
  "crc32_bits n (a XOR b) (0 :: u32) = crc32_bits n a (0 :: u32) XOR crc32_bits n b (0 :: u32)"
  by (induction n arbitrary: a b) (simp_all add: crc_shift_xor)

lemma crc_shift_data:
  assumes "n < 32"
  shows "crc_shift (ucast (take_bit (Suc n) (d :: 'a::len word)))
    = crc_shift (of_bool (bit d 0)) XOR ucast (take_bit n (drop_bit 1 d))"
  using assms by (intro bit_word_eqI) (auto simp: crc_step_def bit_simps dest: bit_imp_le_length)

lemma crc32_bits_fold_data:
  "n \<le> 32 \<Longrightarrow> crc32_bits n c (d :: 'a::len word) = crc32_bits n (c XOR ucast (take_bit n d)) (0 :: u32)"
proof (induction n arbitrary: c d)
  case (Suc n)
  have "crc32_bits (Suc n) c d = crc32_bits n (crc_shift (c XOR of_bool (bit d 0)) XOR ucast (take_bit n (drop_bit 1 d))) (0 :: u32)"
    using Suc.IH [of "crc_step c (bit d 0)" "drop_bit 1 d"] Suc.prems by (simp add: crc_step_shift [of c])
  also have "crc_shift (c XOR of_bool (bit d 0)) XOR ucast (take_bit n (drop_bit 1 d)) = crc_shift (c XOR ucast (take_bit (Suc n) d))"
    using crc_shift_data [of n d] Suc.prems by (simp add: crc_shift_xor xor.assoc)
  finally show ?case by simp
qed simp

lemma crc32_bits_high:
  "(\<And>i. i < n \<Longrightarrow> \<not> bit h i) \<Longrightarrow> crc32_bits n h (0 :: u32) = drop_bit n h"
proof (induction n arbitrary: h)
  case (Suc n)
  have "crc_shift h = drop_bit 1 h" using Suc.prems [of 0] by (simp add: crc_step_def)
  moreover have "crc32_bits n (drop_bit 1 h) (0 :: u32) = drop_bit n (drop_bit 1 h)"
    using Suc.prems by (intro Suc.IH) (simp add: bit_simps)
  ultimately show ?case by (simp add: drop_bit_drop_bit)
qed simp

text \<open>By linearity the table is generated by its entries at the powers of two.\<close>

primrec crc_tab :: "nat \<Rightarrow> u32 list" where
  "crc_tab 0 = [0]"
| "crc_tab (Suc j) = crc_tab j @ map ((XOR) (crc32_bits 8 (2 ^ j) (0 :: u32))) (crc_tab j)"

lemma of_nat_xor_power:
  assumes "k < 2 ^ j" "j < 32"
  shows "(of_nat (2 ^ j + k) :: u32) = 2 ^ j XOR of_nat k"
proof -
  have "(of_nat k :: u32) = take_bit j (of_nat k)"
    using assms(1) by (metis of_nat_take_bit take_bit_nat_eq_self)
  then have nb: "\<not> bit (of_nat k :: u32) i" if "j \<le> i" for i
    using that by (metis bit_take_bit_iff not_less)
  have "(2 ^ j :: u32) XOR of_nat k = 2 ^ j OR of_nat k"
    using nb [of j] assms(2) by (intro bit_word_eqI) (auto simp: bit_simps)
  also have "\<dots> = 2 ^ j + of_nat k"
    using nb [of j] by (intro disjunctive_add [symmetric]) (auto simp: bit_simps)
  finally show ?thesis by simp
qed

lemma crc_tab_entries: "n \<le> 32 \<Longrightarrow> crc_tab n = map (\<lambda>k. crc32_bits 8 (of_nat k) (0 :: u32)) [0..<2 ^ n]"
proof (induction n)
  case 0
  then show ?case by (simp add: crc32_bits_high)
next
  case (Suc n)
  have "map (\<lambda>k. crc32_bits 8 (of_nat k) (0 :: u32)) [0..<2 ^ Suc n]
    = map (\<lambda>k. crc32_bits 8 (of_nat k) (0 :: u32)) [0..<2 ^ n] @ map (\<lambda>k. crc32_bits 8 (of_nat (2 ^ n + k)) (0 :: u32)) [0..<2 ^ n]"
    by (simp add: upt_add_eq_append [of 0 "2 ^ n" "2 ^ n"] mult_2 map_add_upt [symmetric] o_def add.commute
        del: of_nat_add of_nat_power map_append)
      (simp add: map_add_upt [symmetric, of "2 ^ n"] o_def add.commute)
  also have "map (\<lambda>k. crc32_bits 8 (of_nat (2 ^ n + k)) (0 :: u32)) [0..<2 ^ n]
    = map ((XOR) (crc32_bits 8 (2 ^ n) (0 :: u32))) (crc_tab n)"
    using Suc by (simp add: of_nat_xor_power crc32_bits_xor del: of_nat_add)
  finally show ?case using Suc by simp
qed

lemma crc_tab_numeral:
  "crc_tab (numeral k) = crc_tab (pred_numeral k) @ map ((XOR) (crc32_bits 8 (2 ^ pred_numeral k) (0 :: u32))) (crc_tab (pred_numeral k))"
  by (simp add: numeral_eq_Suc)

lemma crc32_bits_numeral:
  "crc32_bits (numeral k) c d = crc32_bits (pred_numeral k) (crc_step c (bit d 0)) (drop_bit 1 d)"
  by (simp add: numeral_eq_Suc)

lemma crc_c_table: "crc_c = map (\<lambda>k. crc32_bits 8 (of_nat k) (0 :: u32)) [0..<256]"
proof -
  have "crc_tab 8 = crc_c"
    by (simp add: crc_tab_numeral crc32_bits_numeral crc_step_def crc_c_def)
  moreover have "(2 :: nat) ^ 8 = 256" by simp
  ultimately show ?thesis using crc_tab_entries [of 8] by (metis numeral_le_iff semiring_norm(68,69,71))
qed

lemma crc_c_nth:
  assumes "unat x < 256"
  shows "crc_c ! unat x = crc32_bits 8 x (0 :: u32)"
  unfolding crc_c_table using assms by simp

lemma crc32c_macro_byte: "crc32c_macro c d = crc_byte c d"
proof -
  let ?x = "c XOR ucast d"
  let ?lo = "?x AND 0xFF" and ?hi = "?x AND NOT 0xFF"
  have m: "(0xFF :: u32) = mask 8" by (simp add: mask_eq_exp_minus_1)
  have lt: "unat ?lo < 256" using unat_and_mask [of ?x 8] unfolding m by simp
  have "?x = ?lo XOR ?hi" by (rule bit_word_eqI) (auto simp: bit_simps)
  moreover have "crc32_bits 8 ?hi (0 :: u32) = drop_bit 8 ?hi"
    unfolding m by (rule crc32_bits_high) (auto simp: bit_simps)
  moreover have "drop_bit 8 ?hi = drop_bit 8 c"
    unfolding m by (rule bit_word_eqI) (auto simp: bit_simps dest: bit_imp_le_length)
  ultimately have "crc32_bits 8 ?x (0 :: u32) = crc32_bits 8 ?lo (0 :: u32) XOR drop_bit 8 c"
    by (metis crc32_bits_xor)
  moreover have "ucast (take_bit 8 d) = (ucast d :: u32)" by (simp add: take_bit_word_eq_self)
  ultimately show ?thesis
    using crc32_bits_fold_data [of 8 c d] crc_c_nth [OF lt] by (simp add: crc_byte_def crc32c_macro_def xor.commute)
qed

lemma bswap32_shifts:
  "push_bit 24 (x AND 0xff) OR push_bit 16 (drop_bit 8 x AND 0xff) OR push_bit 8 (drop_bit 16 x AND 0xff) OR (drop_bit 24 x AND 0xff) = bswap32 x"
proof -
  have m: "(0xFF :: u32) = mask 8" by (simp add: mask_eq_exp_minus_1)
  have "bswap32 x = ucast (ucast (drop_bit 24 x) :: u8) OR push_bit 8 (ucast (ucast (drop_bit 16 x) :: u8)
      OR push_bit 8 (ucast (ucast (drop_bit 8 x) :: u8) OR push_bit 8 (ucast (ucast x :: u8))))"
    by (simp add: bswap32_def word_bytes_numeral numeral_eq_Suc drop_bit_drop_bit)
  also have "\<dots> = push_bit 24 (x AND 0xff) OR push_bit 16 (drop_bit 8 x AND 0xff) OR push_bit 8 (drop_bit 16 x AND 0xff) OR (drop_bit 24 x AND 0xff)"
    unfolding m by (rule bit_word_eqI) (auto simp: bit_simps)
  finally show ?thesis by simp
qed

lemma crc_table_loop_bytes:
  assumes "len \<le> length data"
  shows "crc_table_loop data len i c = Some (crc_bytes (drop i (take len data)) c)"
  using assms
proof (induction data len i c rule: crc_table_loop.induct)
  case (1 data len i c)
  show ?case
  proof (cases "i < len")
    case True
    then have b: "get_u8 data i = Some (data ! i)" using 1(2)
      by (simp add: get_word_def mread_def take_Suc_conv_app_nth Cons_nth_drop_Suc [symmetric] numeral_eq_Suc)
    have "drop i (take len data) = data ! i # drop (Suc i) (take len data)"
      using True 1(2) by (simp add: Cons_nth_drop_Suc [symmetric])
    then show ?thesis using 1(1) [OF True b] 1(2) True b
      by (subst crc_table_loop.simps) (simp add: crc32c_macro_byte)
  qed (simp add: crc_table_loop.simps)
qed

lemma generate_crc32c_table_bytes:
  assumes "unat len \<le> length data"
  shows "generate_crc32c_table data len = Some (NOT (crc_bytes (take (unat len) data) 0xFFFFFFFF))"
proof -
  have t: "crc_table_loop data (unat len) 0 0xFFFFFFFF = Some (crc_bytes (take (unat len) data) 0xFFFFFFFF)"
    using crc_table_loop_bytes [OF assms, of 0 "0xFFFFFFFF"] by simp
  show ?thesis
    unfolding generate_crc32c_table_def t by (simp only: Option.bind.simps Let_def bswap32_shifts bswap32_bswap32)
qed

section \<open>Error detection\<close>

lemma xor_cancel: "a XOR k = b XOR k \<longleftrightarrow> a = (b :: 'a::len word)" "k XOR a = k XOR b \<longleftrightarrow> a = (b :: 'a::len word)"
proof -
  show "a XOR k = b XOR k \<longleftrightarrow> a = b" by (auto dest: arg_cong [where f = "\<lambda>x. x XOR k"] simp: xor.assoc)
  then show "k XOR a = k XOR b \<longleftrightarrow> a = b" by (simp only: xor.commute)
qed

text \<open>The feedback of a step is the top bit of its result, so that steps can be undone.\<close>

lemma crc_step_inj:
  assumes "crc_step c b = crc_step c' b"
  shows "c = c'"
proof -
  have top: "bit (crc_step x b) 31 \<longleftrightarrow> bit x 0 \<noteq> b" for x
    by (simp add: crc_step_def bit_simps bit_imp_le_length) (use bit_imp_le_length in fastforce)
  then have b0: "bit c 0 = bit c' 0" using assms by metis
  with assms have "drop_bit 1 c = drop_bit 1 c'" by (simp add: crc_step_def xor_cancel split: if_splits)
  moreover have "bit x (Suc n) = bit (drop_bit 1 x) n" for x :: u32 and n by (simp add: bit_simps)
  ultimately have "bit c n = bit c' n" for n using b0 by (cases n) simp_all
  then show ?thesis by (intro bit_word_eqI)
qed

lemma crc32_bits_inj: "crc32_bits n c d = crc32_bits n c' d \<Longrightarrow> c = c'"
  by (induction n arbitrary: c c' d) (auto dest: crc_step_inj)

lemma crc_bytes_inj: "crc_bytes bs c = crc_bytes bs c' \<Longrightarrow> c = c'"
  by (induction bs arbitrary: c c') (auto simp: crc_byte_def dest!: crc32_bits_inj)

lemma crc_bytes_burst:
  assumes "length xs = length ys" "length xs \<le> 4" "crc_bytes xs c = crc_bytes ys c"
  shows "xs = ys"
proof -
  let ?n = "8 * length xs"
  have n: "?n \<le> 32" "?n \<le> LENGTH(32)" using assms(2) by simp_all
  have t: "take_bit ?n (bytes_word zs :: u32) = bytes_word zs" if "length zs = length xs" for zs
    using word_bytes_bytes_word [of zs, where 'a = 32] bytes_word_word_bytes [of "length zs" "bytes_word zs :: u32"] that n by simp
  have "crc_bytes zs c = crc32_bits ?n (c XOR bytes_word zs) (0 :: u32)" if "length zs = length xs" for zs
    using crc32_bits_bytes [of zs c, where 'a = 32] crc32_bits_fold_data [of ?n c "bytes_word zs :: u32"] n that t [OF that] by simp
  with assms(1,3) have "c XOR bytes_word xs = c XOR (bytes_word ys :: u32)" by (metis crc32_bits_inj)
  then have "(bytes_word xs :: u32) = bytes_word ys" by (simp only: xor_cancel)
  moreover have "word_bytes (length xs) (bytes_word xs :: u32) = xs" "word_bytes (length ys) (bytes_word ys :: u32) = ys"
    using assms(1,2) by (intro word_bytes_bytes_word; simp)+
  ultimately show ?thesis using assms(1) by metis
qed

section \<open>Properties\<close>

text \<open>
  C13. On every buffer that has the bytes asked for, the SSE 4.2 version, which takes eight bytes
  per instruction and then single bytes, and the portable table version compute the same checksum.
\<close>

theorem crc32c_versions_agree:
  assumes "unat len \<le> length data"
  shows "generate_crc32c data len = generate_crc32c_table data len \<and> generate_crc32c data len \<noteq> None"
  using generate_crc32c_bytes [OF assms] generate_crc32c_table_bytes [OF assms] by simp

theorem crc32c_versions_agree_witness:
  "generate_crc32c [1, 2, 3, 4, 5, 6, 7, 8, 9, 10] 10 = generate_crc32c_table [1, 2, 3, 4, 5, 6, 7, 8, 9, 10] 10
    \<and> generate_crc32c [1, 2, 3, 4, 5, 6, 7, 8, 9, 10] 10 \<noteq> None"
  by (rule crc32c_versions_agree) simp

text \<open>
  Chaining: the checksum of two blocks one after the other is \<^verbatim>\<open>generate_crc32c_on_crc32c\<close>
  of the second started with that of the first, and the final complement of a chain started with all
  ones is \<^verbatim>\<open>generate_crc32c\<close>. The builders use this to checksum a header part and a payload part.
\<close>

theorem crc32c_chaining:
  assumes "length xs + length ys < 2 ^ 32"
  shows "\<exists>c1. generate_crc32c_on_crc32c xs (of_nat (length xs)) 0xFFFFFFFF = Some c1
    \<and> (\<exists>c2. generate_crc32c_on_crc32c ys (of_nat (length ys)) c1 = Some c2
      \<and> generate_crc32c_on_crc32c (xs @ ys) (of_nat (length (xs @ ys))) 0xFFFFFFFF = Some c2
      \<and> generate_crc32c (xs @ ys) (of_nat (length (xs @ ys))) = Some (NOT (ucast c2)))"
proof -
  have u: "unat (of_nat (length xs) :: u32) = length xs" "unat (of_nat (length ys) :: u32) = length ys"
    "unat (of_nat (length (xs @ ys)) :: u32) = length (xs @ ys)"
    using assms by (simp_all add: unat_of_nat del: of_nat_add)
  have f: "(0xFFFFFFFF :: u64) = ucast (0xFFFFFFFF :: u32)" by simp
  show ?thesis
    unfolding f generate_crc32c_on_crc32c_all [OF u(1)] generate_crc32c_on_crc32c_all [OF u(3)] generate_crc32c_all [OF u(3)]
    using generate_crc32c_on_crc32c_all [OF u(2)] by simp
qed

theorem crc32c_chaining_witness:
  "\<exists>c1. generate_crc32c_on_crc32c [1, 2, 3] (of_nat (length [1, 2, 3 :: u8])) 0xFFFFFFFF = Some c1
    \<and> (\<exists>c2. generate_crc32c_on_crc32c [4, 5] (of_nat (length [4, 5 :: u8])) c1 = Some c2
      \<and> generate_crc32c_on_crc32c ([1, 2, 3] @ [4, 5]) (of_nat (length ([1, 2, 3] @ [4, 5 :: u8]))) 0xFFFFFFFF = Some c2
      \<and> generate_crc32c ([1, 2, 3] @ [4, 5]) (of_nat (length ([1, 2, 3] @ [4, 5 :: u8]))) = Some (NOT (ucast c2)))"
  by (rule crc32c_chaining) simp

text \<open>
  C14. Error detection: two messages of the same length that differ only within four consecutive
  bytes never have the same checksum.
\<close>

theorem crc32c_detects_burst:
  assumes "length xs = length ys" "length xs \<le> 4" "xs \<noteq> ys" "unat len = length (p @ xs @ s)"
  shows "generate_crc32c (p @ xs @ s) len \<noteq> generate_crc32c (p @ ys @ s) len"
proof
  assume "generate_crc32c (p @ xs @ s) len = generate_crc32c (p @ ys @ s) len"
  then have "crc_bytes (p @ xs @ s) 0xFFFFFFFF = crc_bytes (p @ ys @ s) 0xFFFFFFFF"
    using generate_crc32c_bytes [of len "p @ xs @ s"] generate_crc32c_bytes [of len "p @ ys @ s"] assms(1,4) by simp
  then have "crc_bytes xs (crc_bytes p 0xFFFFFFFF) = crc_bytes ys (crc_bytes p 0xFFFFFFFF)"
    by (auto dest: crc_bytes_inj)
  with crc_bytes_burst [OF assms(1,2)] assms(3) show False by blast
qed

theorem crc32c_detects_burst_witness:
  "generate_crc32c ([1, 2] @ [3, 4] @ [5]) 5 \<noteq> generate_crc32c ([1, 2] @ [7, 4] @ [5]) 5"
  by (rule crc32c_detects_burst) simp_all

end
