(* ===== verification/Rfc1321.thy ===== *)
theory Rfc1321
  imports Prelude
begin

unbundle bit_operations_syntax

text \<open>
  MD5 as RFC 1321 describes it, written down from the description in its section 3 and independent of the code: the message is padded, cut into blocks of
  sixteen words, and each block is mixed into four words in 64 steps. Each step is given by its number: the auxiliary function, the word of the
  block, the rotation and the element of the table \<open>T\<close>. That the table is the one computed from the sine is shown in \<open>Rfc1321_Sine\<close>.
\<close>

type_synonym rfc_abcd = "u32 \<times> u32 \<times> u32 \<times> u32"

section \<open>Steps\<close>

definition rfc_aux :: "nat \<Rightarrow> u32 \<Rightarrow> u32 \<Rightarrow> u32 \<Rightarrow> u32" where
  "rfc_aux i x y z =
     (if i < 16 then (x AND y) OR (NOT x AND z)
      else if i < 32 then (x AND z) OR (y AND NOT z)
      else if i < 48 then x XOR y XOR z
      else y XOR (x OR NOT z))"

definition rfc_word :: "nat \<Rightarrow> nat" where
  "rfc_word i = (if i < 16 then i else if i < 32 then (1 + 5 * i) mod 16 else if i < 48 then (5 + 3 * i) mod 16 else (7 * i) mod 16)"

definition rfc_shift :: "nat \<Rightarrow> nat" where
  "rfc_shift i = [[7, 12, 17, 22], [5, 9, 14, 20], [4, 11, 16, 23], [6, 10, 15, 21]] ! (i div 16) ! (i mod 4)"

text \<open>The integer part of \<open>2\<^sup>3\<^sup>2\<close> times the absolute value of the sine of \<open>i + 1\<close>.\<close>

definition rfc_T :: "nat list" where
  "rfc_T =
    [3614090360, 3905402710, 606105819, 3250441966, 4118548399, 1200080426, 2821735955, 4249261313,
     1770035416, 2336552879, 4294925233, 2304563134, 1804603682, 4254626195, 2792965006, 1236535329,
     4129170786, 3225465664, 643717713, 3921069994, 3593408605, 38016083, 3634488961, 3889429448,
     568446438, 3275163606, 4107603335, 1163531501, 2850285829, 4243563512, 1735328473, 2368359562,
     4294588738, 2272392833, 1839030562, 4259657740, 2763975236, 1272893353, 4139469664, 3200236656,
     681279174, 3936430074, 3572445317, 76029189, 3654602809, 3873151461, 530742520, 3299628645,
     4096336452, 1126891415, 2878612391, 4237533241, 1700485571, 2399980690, 4293915773, 2240044497,
     1873313359, 4264355552, 2734768916, 1309151649, 4149444226, 3174756917, 718787259, 3951481745]"

definition rfc_step :: "u32 list \<Rightarrow> nat \<Rightarrow> rfc_abcd \<Rightarrow> rfc_abcd" where
  "rfc_step X i = (\<lambda>(a, b, c, d).
     (d, b + word_rotl (rfc_shift i) (a + rfc_aux i b c d + X ! rfc_word i + of_nat (rfc_T ! i)), b, c))"

definition rfc_block :: "u32 list \<Rightarrow> rfc_abcd \<Rightarrow> rfc_abcd" where
  "rfc_block X = (\<lambda>(a0, b0, c0, d0).
     case fold (rfc_step X) [0..<64] (a0, b0, c0, d0) of (a, b, c, d) \<Rightarrow> (a0 + a, b0 + b, c0 + c, d0 + d))"

section \<open>The message\<close>

text \<open>One bit 1, zeros up to 56 bytes modulo 64, and the number of bits as 64 bits, low byte first.\<close>

definition rfc_pad :: "bytes \<Rightarrow> bytes" where
  "rfc_pad m = m @ [0x80] @ replicate ((119 - length m mod 64) mod 64) 0 @ word_bytes 8 (of_nat (8 * length m) :: u64)"

definition rfc_words :: "bytes \<Rightarrow> u32 list" where
  "rfc_words blk = map (\<lambda>i. bytes_word (take 4 (drop (4 * i) blk))) [0..<16]"

definition rfc_blocks :: "bytes \<Rightarrow> u32 list list" where
  "rfc_blocks p = map (\<lambda>k. rfc_words (take 64 (drop (64 * k) p))) [0..<length p div 64]"

definition rfc_init :: rfc_abcd where
  "rfc_init = (bytes_word [0x01, 0x23, 0x45, 0x67], bytes_word [0x89, 0xab, 0xcd, 0xef],
     bytes_word [0xfe, 0xdc, 0xba, 0x98], bytes_word [0x76, 0x54, 0x32, 0x10])"

definition md5_spec :: "bytes \<Rightarrow> bytes" where
  "md5_spec m = (case fold rfc_block (rfc_blocks (rfc_pad m)) rfc_init of (a, b, c, d) \<Rightarrow>
     word_bytes 4 a @ word_bytes 4 b @ word_bytes 4 c @ word_bytes 4 d)"

lemma length_md5_spec [simp]: "length (md5_spec m) = 16"
  by (simp add: md5_spec_def split: prod.splits)

end
