(* ===== verification/Rfc1321_Sine.thy ===== *)
theory Rfc1321_Sine
  imports Rfc1321 Complex_Main
begin

text \<open>
  The table of RFC 1321 is the table of sines: its element \<open>i\<close> is the integer part of \<open>2\<^sup>3\<^sup>2\<close> times the absolute value of the sine of \<open>i + 1\<close>.
  The points \<open>cis n\<close> of the unit circle are computed by repeated multiplication with \<open>cis 1\<close>, in integers scaled by \<open>2\<^sup>4\<^sup>8\<close>, with a
  bound on the error that grows by 6 units a step.
\<close>

definition SC :: int where "SC = 2 ^ 48"
definition sin1 :: int where "sin1 = 236853025851495"
definition cos1 :: int where "cos1 = 152081578960948"

definition pt :: "int \<Rightarrow> int \<Rightarrow> complex" where
  "pt p q = Complex (of_int p / of_int SC) (of_int q / of_int SC)"

fun sine_ok :: "nat list \<Rightarrow> int \<Rightarrow> int \<Rightarrow> int \<Rightarrow> bool" where
  "sine_ok [] p q e \<longleftrightarrow> True"
| "sine_ok (t # ts) p q e \<longleftrightarrow>
     int t * SC \<le> 2 ^ 32 * (\<bar>q\<bar> - e) \<and> 2 ^ 32 * (\<bar>q\<bar> + e) < (int t + 1) * SC
     \<and> sine_ok ts ((p * cos1 - q * sin1) div SC) ((p * sin1 + q * cos1) div SC) (e + 6)"

lemma table_ok: "sine_ok rfc_T cos1 sin1 2"
  by (simp add: rfc_T_def SC_def sin1_def cos1_def)

section \<open>One step\<close>

lemma SC_pos: "0 < SC"
  by (simp add: SC_def)

lemma pt_mult: "pt p q * pt b a = Complex (of_int (p * b - q * a) / of_int (SC * SC)) (of_int (p * a + q * b) / of_int (SC * SC))"
  by (simp add: pt_def complex_eq_iff diff_divide_distrib add_divide_distrib)

lemma div_round:
  assumes "0 < s"
  shows "\<bar>of_int k / of_int (s * s) - of_int (k div s) / (of_int s :: real)\<bar> \<le> 1 / of_int s"
proof -
  define d where "d = (of_int (k div s) :: real)"
  define m where "m = (of_int (k mod s) :: real)"
  have k: "of_int k = d * of_int s + m" unfolding d_def m_def by (metis of_int_add of_int_mult div_mult_mod_eq)
  have m: "0 \<le> m" "m < of_int s" using assms pos_mod_bound [of s k] by (simp_all add: m_def)
  have s: "0 < (of_int s :: real)" using assms by simp
  have "of_int k / of_int (s * s) - d / of_int s = m / (of_int s * of_int s)" using s by (simp add: k field_simps)
  moreover have "m / (of_int s * of_int s) \<le> of_int s / (of_int s * of_int s)" using m s by (intro divide_right_mono) simp_all
  ultimately show ?thesis using m s by (simp add: d_def)
qed

lemma circle_step:
  assumes z: "cmod (cis x - pt p q) \<le> e / of_int SC" "e \<le> of_int SC" and w: "cmod (cis 1 - pt cos1 sin1) \<le> 2 / of_int SC"
  shows "cmod (cis (x + 1) - pt ((p * cos1 - q * sin1) div SC) ((p * sin1 + q * cos1) div SC)) \<le> (e + 6) / of_int SC"
proof -
  let ?z = "pt p q" and ?w = "pt cos1 sin1" and ?r = "pt ((p * cos1 - q * sin1) div SC) ((p * sin1 + q * cos1) div SC)"
  define s where "s = (of_int SC :: real)"
  have s: "0 < s" using SC_pos by (simp add: s_def)
  note z = z [folded s_def] and w = w [folded s_def]
  have "cis (x + 1) - ?z * ?w = cis x * (cis 1 - ?w) + (cis x - ?z) * ?w" by (simp add: cis_mult [symmetric] algebra_simps)
  then have "cmod (cis (x + 1) - ?z * ?w) \<le> cmod (cis 1 - ?w) + cmod (cis x - ?z) * cmod ?w"
    by (metis norm_triangle_ineq norm_mult norm_cis mult_1)
  moreover have "cmod ?w \<le> 1 + 2 / s" using w norm_triangle_ineq4 [of "cis 1" "cis 1 - ?w"] by simp
  then have "cmod (cis x - ?z) * cmod ?w \<le> e / s * (1 + 2 / s)"
    using z(1) by (intro mult_mono) (auto intro: order_trans [OF norm_ge_zero])
  moreover have "e / s * (1 + 2 / s) \<le> (e + 2) / s" using z(2) s by (simp add: field_simps)
  moreover have "cmod (?z * ?w - ?r) \<le> 2 / s"
  proof -
    have "cmod (?z * ?w - ?r) \<le> \<bar>Re (?z * ?w - ?r)\<bar> + \<bar>Im (?z * ?w - ?r)\<bar>" by (rule cmod_le)
    also have "\<dots> \<le> 1 / s + 1 / s"
      unfolding pt_mult s_def by (intro add_mono) (simp_all only: pt_def minus_complex.simps complex.sel div_round [OF SC_pos])
    finally show ?thesis by simp
  qed
  moreover have "cmod (cis (x + 1) - ?r) \<le> cmod (cis (x + 1) - ?z * ?w) + cmod (?z * ?w - ?r)"
    using norm_triangle_ineq [of "cis (x + 1) - ?z * ?w" "?z * ?w - ?r"] by simp
  ultimately have "cmod (cis (x + 1) - ?r) \<le> 2 / s + (e + 2) / s + 2 / s" using w by linarith
  then show ?thesis by (simp add: add_divide_distrib s_def)
qed

section \<open>The sine and cosine of 1\<close>

lemma sin_series: "(\<Sum>m<18. sin_coeff m * 1 ^ m) = (1 - 1/6 + 1/120 - 1/5040 + 1/362880 - 1/39916800 + 1/6227020800 - 1/1307674368000 + 1/355687428096000 :: real)"
  by (simp add: lessThan_nat_numeral lessThan_Suc sin_coeff_def fact_numeral)

lemma cos_series: "(\<Sum>m<18. cos_coeff m * 1 ^ m) = (1 - 1/2 + 1/24 - 1/720 + 1/40320 - 1/3628800 + 1/479001600 - 1/87178291200 + 1/20922789888000 :: real)"
  by (simp add: lessThan_nat_numeral lessThan_Suc cos_coeff_def fact_numeral)

lemma fact_18: "(fact 18 :: real) = 6402373705728000"
  by (simp add: fact_numeral)

lemma sin_one: "\<bar>sin 1 - of_int sin1 / of_int SC\<bar> \<le> 1 / (of_int SC :: real)"
proof -
  have "\<bar>sin 1 - (\<Sum>m<18. sin_coeff m * 1 ^ m)\<bar> \<le> 1 / (6402373705728000 :: real)"
    using Maclaurin_sin_bound [of "1 :: real" 18] fact_18 by (simp add: inverse_eq_divide)
  then show ?thesis unfolding sin_series abs_le_iff by (simp add: sin1_def SC_def field_simps)
qed

lemma cos_one: "\<bar>cos 1 - of_int cos1 / of_int SC\<bar> \<le> 1 / (of_int SC :: real)"
proof -
  obtain t where "cos 1 = (\<Sum>m<18. cos_coeff m * 1 ^ m) + cos (t + 1 / 2 * real 18 * pi) / fact 18 * 1 ^ 18"
    using Maclaurin_cos_expansion [of 1 18] by blast
  then have "\<bar>cos 1 - (\<Sum>m<18. cos_coeff m * 1 ^ m)\<bar> = \<bar>cos (t + 1 / 2 * real 18 * pi)\<bar> / (6402373705728000 :: real)" by (simp add: fact_18)
  also have "\<dots> \<le> 1 / 6402373705728000" by (intro divide_right_mono) simp_all
  finally show ?thesis unfolding cos_series abs_le_iff by (simp add: cos1_def SC_def field_simps)
qed

lemma cis_one: "cmod (cis 1 - pt cos1 sin1) \<le> 2 / of_int SC"
proof -
  have "cmod (cis 1 - pt cos1 sin1) \<le> \<bar>Re (cis 1 - pt cos1 sin1)\<bar> + \<bar>Im (cis 1 - pt cos1 sin1)\<bar>" by (rule cmod_le)
  also have "\<dots> \<le> 1 / of_int SC + 1 / of_int SC" using sin_one cos_one by (intro add_mono) (simp_all add: pt_def)
  finally show ?thesis by simp
qed

section \<open>The table\<close>

lemma floor_sine:
  assumes "cmod (cis x - pt p q) \<le> of_int e / of_int SC" "int t * SC \<le> 2 ^ 32 * (\<bar>q\<bar> - e)" "2 ^ 32 * (\<bar>q\<bar> + e) < (int t + 1) * SC"
  shows "int t = \<lfloor>2 ^ 32 * \<bar>sin x\<bar>\<rfloor>"
proof -
  define s where "s = (of_int SC :: real)"
  have s: "0 < s" using SC_pos by (simp add: s_def)
  have "\<bar>sin x - of_int q / s\<bar> \<le> of_int e / s"
    using abs_Im_le_cmod [of "cis x - pt p q"] assms(1) by (simp add: pt_def s_def)
  then have "\<bar>of_int q / s\<bar> - of_int e / s \<le> \<bar>sin x\<bar>" "\<bar>sin x\<bar> \<le> \<bar>of_int q / s\<bar> + of_int e / s" by linarith+
  then have b: "\<bar>of_int q\<bar> - of_int e \<le> \<bar>sin x\<bar> * s" "\<bar>sin x\<bar> * s \<le> \<bar>of_int q\<bar> + of_int e"
    using s by (simp_all add: field_simps)
  have "of_int (int t * SC) \<le> (of_int (2 ^ 32 * (\<bar>q\<bar> - e)) :: real)" "of_int (2 ^ 32 * (\<bar>q\<bar> + e)) < (of_int ((int t + 1) * SC) :: real)"
    using assms(2,3) by (simp_all only: of_int_le_iff of_int_less_iff)
  then have "real t * s \<le> 2 ^ 32 * (\<bar>of_int q\<bar> - of_int e)" "2 ^ 32 * (\<bar>of_int q\<bar> + of_int e) < (real t + 1) * s" by (simp_all add: s_def)
  then have "real t * s \<le> 2 ^ 32 * \<bar>sin x\<bar> * s" "2 ^ 32 * \<bar>sin x\<bar> * s < (real t + 1) * s" using b by (simp_all add: mult.assoc)
  then have "real t \<le> 2 ^ 32 * \<bar>sin x\<bar>" "2 ^ 32 * \<bar>sin x\<bar> < real t + 1" using s by simp_all
  then show ?thesis by linarith
qed

lemma sine_ok_table:
  assumes "sine_ok ts p q e" "cmod (cis x - pt p q) \<le> of_int e / of_int SC" "e + 6 * int (length ts) \<le> SC" "i < length ts"
  shows "int (ts ! i) = \<lfloor>2 ^ 32 * \<bar>sin (x + real i)\<bar>\<rfloor>"
  using assms
proof (induction ts arbitrary: p q e x i)
  case (Cons t ts)
  show ?case
  proof (cases i)
    case 0
    then show ?thesis using Cons.prems floor_sine [of x p q e t] by simp
  next
    case (Suc k)
    let ?p = "(p * cos1 - q * sin1) div SC" and ?q = "(p * sin1 + q * cos1) div SC"
    have "of_int e \<le> (of_int SC :: real)" using Cons.prems(3) by (simp only: of_int_le_iff)
    then have "cmod (cis (x + 1) - pt ?p ?q) \<le> of_int (e + 6) / of_int SC" using circle_step [OF Cons.prems(2) _ cis_one] by simp
    moreover have "e + 6 + 6 * int (length ts) \<le> SC" "k < length ts" using Cons.prems(3,4) Suc by simp_all
    ultimately have "int (ts ! k) = \<lfloor>2 ^ 32 * \<bar>sin (x + 1 + real k)\<bar>\<rfloor>" using Cons.prems(1) by (intro Cons.IH [of ?p ?q "e + 6"]) simp_all
    then show ?thesis using Suc by (simp add: ac_simps)
  qed
qed simp

theorem rfc_T_sine:
  assumes "i < 64"
  shows "int (rfc_T ! i) = \<lfloor>2 ^ 32 * \<bar>sin (real (i + 1))\<bar>\<rfloor>"
proof -
  have "length rfc_T = 64" by (simp add: rfc_T_def)
  then show ?thesis using sine_ok_table [OF table_ok, of 1 i] cis_one assms by (simp add: SC_def add.commute)
qed

end
