(* ===== verification/Md5.thy ===== *)
theory Md5
  imports Rfc1321
begin

unbundle bit_operations_syntax

text \<open>
  The message digest of \<^verbatim>\<open>src/md5.c\<close> (the RSA reference implementation of RFC 1321) and the keyed
  hash \<^verbatim>\<open>src/hmac_md5.c\<close> that signs the state cookies. The context with its bit counter and its
  partly filled buffer is modelled as the code keeps it; the locale \<open>streaming_hash\<close> is the contract
  of the three calls, interpreted on the model, and HMAC is derived from the contract alone.
\<close>

section \<open>Data\<close>

type_synonym md5_abcd = "u32 \<times> u32 \<times> u32 \<times> u32"

record MD5_CTX =
  md_state :: md5_abcd
  md_count0 :: u32
  md_count1 :: u32
  md_buffer :: bytes

abbreviation (input) S11 :: nat where "S11 \<equiv> 7"
abbreviation (input) S12 :: nat where "S12 \<equiv> 12"
abbreviation (input) S13 :: nat where "S13 \<equiv> 17"
abbreviation (input) S14 :: nat where "S14 \<equiv> 22"
abbreviation (input) S21 :: nat where "S21 \<equiv> 5"
abbreviation (input) S22 :: nat where "S22 \<equiv> 9"
abbreviation (input) S23 :: nat where "S23 \<equiv> 14"
abbreviation (input) S24 :: nat where "S24 \<equiv> 20"
abbreviation (input) S31 :: nat where "S31 \<equiv> 4"
abbreviation (input) S32 :: nat where "S32 \<equiv> 11"
abbreviation (input) S33 :: nat where "S33 \<equiv> 16"
abbreviation (input) S34 :: nat where "S34 \<equiv> 23"
abbreviation (input) S41 :: nat where "S41 \<equiv> 6"
abbreviation (input) S42 :: nat where "S42 \<equiv> 10"
abbreviation (input) S43 :: nat where "S43 \<equiv> 15"
abbreviation (input) S44 :: nat where "S44 \<equiv> 21"

definition PADDING :: bytes where
  "PADDING = 0x80 # replicate 63 0"

section \<open>The compression function\<close>

definition F :: "u32 \<Rightarrow> u32 \<Rightarrow> u32 \<Rightarrow> u32" where "F x y z = (x AND y) OR (NOT x AND z)"
definition G :: "u32 \<Rightarrow> u32 \<Rightarrow> u32 \<Rightarrow> u32" where "G x y z = (x AND z) OR (y AND NOT z)"
definition H :: "u32 \<Rightarrow> u32 \<Rightarrow> u32 \<Rightarrow> u32" where "H x y z = x XOR y XOR z"
definition I :: "u32 \<Rightarrow> u32 \<Rightarrow> u32 \<Rightarrow> u32" where "I x y z = y XOR (x OR NOT z)"

definition ROTATE_LEFT :: "u32 \<Rightarrow> nat \<Rightarrow> u32" where
  "ROTATE_LEFT x n = push_bit n x OR drop_bit (32 - n) x"

definition FF :: "u32 \<Rightarrow> u32 \<Rightarrow> u32 \<Rightarrow> u32 \<Rightarrow> u32 \<Rightarrow> nat \<Rightarrow> u32 \<Rightarrow> u32" where
  "FF a b c d x s ac = ROTATE_LEFT (a + (F b c d + x + ac)) s + b"
definition GG :: "u32 \<Rightarrow> u32 \<Rightarrow> u32 \<Rightarrow> u32 \<Rightarrow> u32 \<Rightarrow> nat \<Rightarrow> u32 \<Rightarrow> u32" where
  "GG a b c d x s ac = ROTATE_LEFT (a + (G b c d + x + ac)) s + b"
definition HH :: "u32 \<Rightarrow> u32 \<Rightarrow> u32 \<Rightarrow> u32 \<Rightarrow> u32 \<Rightarrow> nat \<Rightarrow> u32 \<Rightarrow> u32" where
  "HH a b c d x s ac = ROTATE_LEFT (a + (H b c d + x + ac)) s + b"
definition II :: "u32 \<Rightarrow> u32 \<Rightarrow> u32 \<Rightarrow> u32 \<Rightarrow> u32 \<Rightarrow> nat \<Rightarrow> u32 \<Rightarrow> u32" where
  "II a b c d x s ac = ROTATE_LEFT (a + (I b c d + x + ac)) s + b"

text \<open>The shift-and-or and the shift-and-mask of one word are its little-endian image.\<close>

fun Decode :: "bytes \<Rightarrow> u32 list" where
  "Decode (b0 # b1 # b2 # b3 # bs) =
     (ucast b0 OR push_bit 8 (ucast b1) OR push_bit 16 (ucast b2) OR push_bit 24 (ucast b3)) # Decode bs"
| "Decode _ = []"

definition Encode :: "u32 list \<Rightarrow> bytes" where
  "Encode ws = concat (map (\<lambda>w. [ucast (w AND 0xff), ucast (drop_bit 8 w AND 0xff),
     ucast (drop_bit 16 w AND 0xff), ucast (drop_bit 24 w AND 0xff)]) ws)"

definition MD5Transform :: "md5_abcd \<Rightarrow> bytes \<Rightarrow> md5_abcd" where
  "MD5Transform state block =
     (case state of (a0, b0, c0, d0) \<Rightarrow>
        let x = Decode block; a = a0; b = b0; c = c0; d = d0;
        a = FF a b c d (x ! 0) S11 0xd76aa478;
        d = FF d a b c (x ! 1) S12 0xe8c7b756;
        c = FF c d a b (x ! 2) S13 0x242070db;
        b = FF b c d a (x ! 3) S14 0xc1bdceee;
        a = FF a b c d (x ! 4) S11 0xf57c0faf;
        d = FF d a b c (x ! 5) S12 0x4787c62a;
        c = FF c d a b (x ! 6) S13 0xa8304613;
        b = FF b c d a (x ! 7) S14 0xfd469501;
        a = FF a b c d (x ! 8) S11 0x698098d8;
        d = FF d a b c (x ! 9) S12 0x8b44f7af;
        c = FF c d a b (x ! 10) S13 0xffff5bb1;
        b = FF b c d a (x ! 11) S14 0x895cd7be;
        a = FF a b c d (x ! 12) S11 0x6b901122;
        d = FF d a b c (x ! 13) S12 0xfd987193;
        c = FF c d a b (x ! 14) S13 0xa679438e;
        b = FF b c d a (x ! 15) S14 0x49b40821;
        a = GG a b c d (x ! 1) S21 0xf61e2562;
        d = GG d a b c (x ! 6) S22 0xc040b340;
        c = GG c d a b (x ! 11) S23 0x265e5a51;
        b = GG b c d a (x ! 0) S24 0xe9b6c7aa;
        a = GG a b c d (x ! 5) S21 0xd62f105d;
        d = GG d a b c (x ! 10) S22 0x2441453;
        c = GG c d a b (x ! 15) S23 0xd8a1e681;
        b = GG b c d a (x ! 4) S24 0xe7d3fbc8;
        a = GG a b c d (x ! 9) S21 0x21e1cde6;
        d = GG d a b c (x ! 14) S22 0xc33707d6;
        c = GG c d a b (x ! 3) S23 0xf4d50d87;
        b = GG b c d a (x ! 8) S24 0x455a14ed;
        a = GG a b c d (x ! 13) S21 0xa9e3e905;
        d = GG d a b c (x ! 2) S22 0xfcefa3f8;
        c = GG c d a b (x ! 7) S23 0x676f02d9;
        b = GG b c d a (x ! 12) S24 0x8d2a4c8a;
        a = HH a b c d (x ! 5) S31 0xfffa3942;
        d = HH d a b c (x ! 8) S32 0x8771f681;
        c = HH c d a b (x ! 11) S33 0x6d9d6122;
        b = HH b c d a (x ! 14) S34 0xfde5380c;
        a = HH a b c d (x ! 1) S31 0xa4beea44;
        d = HH d a b c (x ! 4) S32 0x4bdecfa9;
        c = HH c d a b (x ! 7) S33 0xf6bb4b60;
        b = HH b c d a (x ! 10) S34 0xbebfbc70;
        a = HH a b c d (x ! 13) S31 0x289b7ec6;
        d = HH d a b c (x ! 0) S32 0xeaa127fa;
        c = HH c d a b (x ! 3) S33 0xd4ef3085;
        b = HH b c d a (x ! 6) S34 0x4881d05;
        a = HH a b c d (x ! 9) S31 0xd9d4d039;
        d = HH d a b c (x ! 12) S32 0xe6db99e5;
        c = HH c d a b (x ! 15) S33 0x1fa27cf8;
        b = HH b c d a (x ! 2) S34 0xc4ac5665;
        a = II a b c d (x ! 0) S41 0xf4292244;
        d = II d a b c (x ! 7) S42 0x432aff97;
        c = II c d a b (x ! 14) S43 0xab9423a7;
        b = II b c d a (x ! 5) S44 0xfc93a039;
        a = II a b c d (x ! 12) S41 0x655b59c3;
        d = II d a b c (x ! 3) S42 0x8f0ccc92;
        c = II c d a b (x ! 10) S43 0xffeff47d;
        b = II b c d a (x ! 1) S44 0x85845dd1;
        a = II a b c d (x ! 8) S41 0x6fa87e4f;
        d = II d a b c (x ! 15) S42 0xfe2ce6e0;
        c = II c d a b (x ! 6) S43 0xa3014314;
        b = II b c d a (x ! 13) S44 0x4e0811a1;
        a = II a b c d (x ! 4) S41 0xf7537e82;
        d = II d a b c (x ! 11) S42 0xbd3af235;
        c = II c d a b (x ! 2) S43 0x2ad7d2bb;
        b = II b c d a (x ! 9) S44 0xeb86d391
        in (a0 + a, b0 + b, c0 + c, d0 + d))"

section \<open>The context operations\<close>

definition MD5_IV :: md5_abcd where
  "MD5_IV = (0x67452301, 0xefcdab89, 0x98badcfe, 0x10325476)"

text \<open>\<open>g\<close> is the indeterminate content of the buffer, which \<^verbatim>\<open>MD5Init\<close> does not touch.\<close>

definition MD5Init :: "(nat \<Rightarrow> u8) \<Rightarrow> MD5_CTX" where
  "MD5Init g = \<lparr>md_state = MD5_IV, md_count0 = 0, md_count1 = 0, md_buffer = map g [0..<64]\<rparr>"

definition MD5_memcpy :: "bytes \<Rightarrow> nat \<Rightarrow> bytes \<Rightarrow> nat \<Rightarrow> nat \<Rightarrow> bytes option" where
  "MD5_memcpy out off inp ioff n = do { d \<leftarrow> mread inp ioff n; mwrite out off d }"

partial_function (option) md5_update_loop :: "bytes \<Rightarrow> u32 \<Rightarrow> u32 \<Rightarrow> md5_abcd \<Rightarrow> (u32 \<times> md5_abcd) option" where
  "md5_update_loop inp inputLen i st =
     (if i + 63 < inputLen
      then Option.bind (mread inp (unat i) 64) (\<lambda>blk. md5_update_loop inp inputLen (i + 64) (MD5Transform st blk))
      else Some (i, st))"

definition MD5Update :: "MD5_CTX \<Rightarrow> bytes \<Rightarrow> u32 \<Rightarrow> MD5_CTX option" where
  "MD5Update ctx inp inputLen =
     (let index = drop_bit 3 (md_count0 ctx) AND 0x3F;
          c0 = md_count0 ctx + push_bit 3 inputLen;
          c1 = (if c0 < push_bit 3 inputLen then md_count1 ctx + 1 else md_count1 ctx) + drop_bit 29 inputLen;
          partLen = 64 - index
      in do { (buf, st, i, index) \<leftarrow>
                (if inputLen \<ge> partLen
                 then do { buf \<leftarrow> MD5_memcpy (md_buffer ctx) (unat index) inp 0 (unat partLen);
                           (i, st) \<leftarrow> md5_update_loop inp inputLen partLen (MD5Transform (md_state ctx) buf);
                           Some (buf, st, i, 0) }
                 else Some (md_buffer ctx, md_state ctx, 0, index));
              buf' \<leftarrow> MD5_memcpy buf (unat index) inp (unat i) (unat (inputLen - i));
              Some \<lparr>md_state = st, md_count0 = c0, md_count1 = c1, md_buffer = buf'\<rparr> })"

definition state_words :: "md5_abcd \<Rightarrow> u32 list" where
  "state_words st = (case st of (a, b, c, d) \<Rightarrow> [a, b, c, d])"

text \<open>The digest and the zeroised context.\<close>

definition MD5Final :: "MD5_CTX \<Rightarrow> (bytes \<times> MD5_CTX) option" where
  "MD5Final ctx =
     (let bits = Encode [md_count0 ctx, md_count1 ctx];
          index = drop_bit 3 (md_count0 ctx) AND 0x3f;
          padLen = (if index < 56 then 56 - index else 120 - index)
      in do { ctx1 \<leftarrow> MD5Update ctx PADDING padLen;
              ctx2 \<leftarrow> MD5Update ctx1 bits 8;
              Some (Encode (state_words (md_state ctx2)),
                    \<lparr>md_state = (0, 0, 0, 0), md_count0 = 0, md_count1 = 0, md_buffer = replicate 64 0\<rparr>) })"

section \<open>The keyed hash\<close>

text \<open>
  \<open>g\<close> is the uninitialised context on the stack. The lengths are C \<^verbatim>\<open>int\<close>s: \<^verbatim>\<open>bcopy\<close> takes them as
  \<^verbatim>\<open>size_t\<close>, \<^verbatim>\<open>MD5Update\<close> as \<^verbatim>\<open>unsigned int\<close>.
\<close>

definition md5_digest :: "(nat \<Rightarrow> u8) \<Rightarrow> (bytes \<times> u32) list \<Rightarrow> bytes option" where
  "md5_digest g parts =
     do { ctx \<leftarrow> fold (\<lambda>(d, n) c. Option.bind c (\<lambda>ctx. MD5Update ctx d n)) parts (Some (MD5Init g));
          (digest, _) \<leftarrow> MD5Final ctx;
          Some digest }"

definition hmac_md5 :: "(nat \<Rightarrow> u8) \<Rightarrow> bytes \<Rightarrow> i32 \<Rightarrow> bytes \<Rightarrow> i32 \<Rightarrow> bytes option" where
  "hmac_md5 g text text_len key key_len =
     do { (key, key_len) \<leftarrow>
            (if 64 <s key_len then do { tk \<leftarrow> md5_digest g [(key, key_len)]; Some (tk, 16) } else Some (key, key_len));
          let size = unat (scast key_len :: u64) in
          do { k \<leftarrow> mread key 0 size;
               k_ipad \<leftarrow> mwrite (replicate 65 0) 0 k;
               k_opad \<leftarrow> mwrite (replicate 65 0) 0 k;
               let k_ipad = map (\<lambda>b. b XOR 0x36) (take 64 k_ipad) @ drop 64 k_ipad;
                   k_opad = map (\<lambda>b. b XOR 0x5c) (take 64 k_opad) @ drop 64 k_opad
               in do { digest \<leftarrow> md5_digest g [(k_ipad, 64), (text, text_len)];
                       md5_digest g [(k_opad, 64), (digest, 16)] } } }"

section \<open>The digest of a message\<close>

text \<open>
  What the calls compute on a whole message, in terms of the code's own functions: the compression function folded over the blocks of the padded
  message. It is compared with the RFC below.
\<close>

function md5_fold :: "md5_abcd \<Rightarrow> bytes \<Rightarrow> md5_abcd" where
  "md5_fold st m = (if length m < 64 then st else md5_fold (MD5Transform st (take 64 m)) (drop 64 m))"
  by pat_completeness auto
termination by (relation "measure (\<lambda>(st, m). length m)") auto

declare md5_fold.simps [simp del]

definition md5_pad :: "bytes \<Rightarrow> bytes" where
  "md5_pad m = (let r = length m mod 64 in
     take (if r < 56 then 56 - r else 120 - r) PADDING @ Encode [of_nat (8 * length m), of_nat (8 * length m div 2 ^ 32)])"

definition md5_whole :: "bytes \<Rightarrow> bytes" where
  "md5_whole m = Encode (state_words (md5_fold MD5_IV (m @ md5_pad m)))"

lemma md5_fold_short: "length m < 64 \<Longrightarrow> md5_fold st m = st"
  by (simp add: md5_fold.simps)

lemma md5_fold_append:
  assumes "length xs mod 64 = 0"
  shows "md5_fold st (xs @ ys) = md5_fold (md5_fold st xs) ys"
  using assms
proof (induction st xs rule: md5_fold.induct)
  case (1 st m)
  show ?case
  proof (cases "length m < 64")
    case True
    then have "m = []" using 1(2) by (cases m) auto
    then show ?thesis by (simp add: md5_fold_short)
  next
    case False
    then have "length (drop 64 m) mod 64 = 0" using 1(2) by (simp add: mod_if)
    note 1(1) [OF False this]
    moreover have "md5_fold st (m @ ys) = md5_fold (MD5Transform st (take 64 m)) (drop 64 m @ ys)"
      using False by (simp add: md5_fold.simps [of st "m @ ys"])
    moreover have "md5_fold st m = md5_fold (MD5Transform st (take 64 m)) (drop 64 m)"
      using False by (simp add: md5_fold.simps [of st m])
    ultimately show ?thesis by simp
  qed
qed

lemma md5_fold_block: "length b = 64 \<Longrightarrow> md5_fold st (b @ ys) = md5_fold (MD5Transform st b) ys"
  by (subst md5_fold.simps) simp

text \<open>\<open>md5_rep ctx m\<close>: the context stands for the message \<open>m\<close> so far.\<close>

definition md5_tail :: "bytes \<Rightarrow> bytes" where
  "md5_tail m = drop (length m - length m mod 64) m"

definition md5_rep :: "MD5_CTX \<Rightarrow> bytes \<Rightarrow> bool" where
  "md5_rep ctx m \<longleftrightarrow> length (md_buffer ctx) = 64 \<and> md_state ctx = md5_fold MD5_IV m
     \<and> take (length m mod 64) (md_buffer ctx) = md5_tail m
     \<and> (unat (md_count0 ctx) + 2 ^ 32 * unat (md_count1 ctx)) mod 2 ^ 64 = (8 * length m) mod 2 ^ 64"

lemma md5_rep_init: "md5_rep (MD5Init g) []"
  by (simp add: md5_rep_def MD5Init_def md5_fold_short md5_tail_def)

lemma length_md5_tail [simp]: "length (md5_tail m) = length m mod 64"
  by (simp add: md5_tail_def)

lemma md5_tail_split: "m = take (length m - length m mod 64) m @ md5_tail m"
  by (simp add: md5_tail_def)

lemma whole_blocks: "length (take (length m - length m mod 64) m) mod 64 = 0"
  by (simp add: minus_mod_eq_mult_div)

lemma md5_fold_tail: "md5_fold st (m @ ys) = md5_fold (md5_fold st m) (md5_tail m @ ys)"
proof -
  let ?h = "take (length m - length m mod 64) m"
  have "md5_fold st m = md5_fold st ?h"
    using md5_fold_append [OF whole_blocks, of st m "md5_tail m"] md5_tail_split [of m] by (simp add: md5_fold_short)
  moreover have "md5_fold st (m @ ys) = md5_fold (md5_fold st ?h) (md5_tail m @ ys)"
    using md5_fold_append [OF whole_blocks, of st m "md5_tail m @ ys"] md5_tail_split [of m] by (metis append.assoc)
  ultimately show ?thesis by simp
qed

lemma md5_tail_append: "md5_tail (m @ ys) = md5_tail (md5_tail m @ ys)"
proof -
  let ?k = "length m - length m mod 64"
  have "length (m @ ys) = ?k + length (md5_tail m @ ys)" by simp
  moreover have k: "?k mod 64 = 0" by (simp add: minus_mod_eq_mult_div [symmetric])
  ultimately have r: "length (m @ ys) mod 64 = length (md5_tail m @ ys) mod 64"
    by (metis mod_add_left_eq add_0)
  have "length (m @ ys) - length (m @ ys) mod 64 = ?k + (length (md5_tail m @ ys) - length (md5_tail m @ ys) mod 64)"
    using r \<open>length (m @ ys) = ?k + length (md5_tail m @ ys)\<close> by simp
  then have "md5_tail (m @ ys) = drop (length (md5_tail m @ ys) - length (md5_tail m @ ys) mod 64) (drop ?k (m @ ys))"
    by (simp add: md5_tail_def [of "m @ ys"] add.commute)
  also have "drop ?k (m @ ys) = md5_tail m @ ys" by (simp add: md5_tail_def)
  finally show ?thesis by (simp add: md5_tail_def [of "md5_tail m @ ys"])
qed

lemma md5_update_loop_fold:
  assumes "unat n \<le> length inp" "unat n + 63 < 2 ^ 32" "unat i \<le> unat n"
  shows "\<exists>i'. md5_update_loop inp n i st = Some (i', md5_fold st (drop (unat i) (take (unat n) inp)))
    \<and> unat i' = unat n - (unat n - unat i) mod 64"
  using assms
proof (induction "unat n - unat i" arbitrary: i st rule: less_induct)
  case less
  let ?xs = "drop (unat i) (take (unat n) inp)"
  have len: "length ?xs = unat n - unat i" using less.prems(1) by simp
  have i63: "unat (i + 63) = unat i + 63" using less.prems(2,3) by (simp add: unat_word_ariths)
  show ?case
  proof (cases "unat i + 63 < unat n")
    case True
    have i64: "unat (i + 64) = unat i + 64" using less.prems(2) True by (simp add: unat_word_ariths)
    have rd: "mread inp (unat i) 64 = Some (take 64 ?xs)"
      using True less.prems(1) by (simp add: mread_def drop_take)
    have dr: "drop (unat (i + 64)) (take (unat n) inp) = drop 64 ?xs" by (simp add: i64 add.commute)
    have "\<exists>i'. md5_update_loop inp n (i + 64) (MD5Transform st (take 64 ?xs))
        = Some (i', md5_fold (MD5Transform st (take 64 ?xs)) (drop 64 ?xs)) \<and> unat i' = unat n - (unat n - unat (i + 64)) mod 64"
      unfolding dr [symmetric] using True i64 less.prems by (intro less.hyps) auto
    moreover have "md5_fold st ?xs = md5_fold (MD5Transform st (take 64 ?xs)) (drop 64 ?xs)"
    proof -
      have "\<not> length ?xs < 64" using True len by linarith
      then show ?thesis by (subst md5_fold.simps) simp
    qed
    moreover have "(unat n - unat (i + 64)) mod 64 = (unat n - unat i) mod 64"
      using True i64 mod_if [of "unat n - unat i" 64] by simp
    ultimately show ?thesis
      using True rd i63 by (subst md5_update_loop.simps) (simp add: word_less_nat_alt)
  next
    case False
    then have "unat n - unat i < 64" by linarith
    then show ?thesis
      using False i63 len less.prems(3) by (subst md5_update_loop.simps) (simp add: word_less_nat_alt md5_fold_short)
  qed
qed

lemma md5_index:
  assumes "md5_rep ctx m"
  shows "unat (drop_bit 3 (md_count0 ctx) AND 0x3F) = length m mod 64"
proof -
  let ?c = "unat (md_count0 ctx)"
  have c: "(?c + 2 ^ 32 * unat (md_count1 ctx)) mod 2 ^ 64 = (8 * length m) mod 2 ^ 64"
    using assms by (simp add: md5_rep_def)
  have "(2 :: nat) ^ 32 dvd 2 ^ 64" by (intro le_imp_power_dvd) simp
  then have "?c mod 2 ^ 32 = (8 * length m) mod 2 ^ 32"
    using arg_cong [OF c, of "\<lambda>x. x mod 2 ^ 32"] by (simp add: mod_mod_cancel)
  then have "?c = (8 * length m) mod (8 * 2 ^ 29)"
    using unsigned_less [of "md_count0 ctx", where ?'a = nat] by simp
  then have "?c = 8 * (length m mod 2 ^ 29)" by (simp only: mult_mod_right)
  then have "?c div 8 = length m mod 2 ^ 29" by simp
  moreover have "(64 :: nat) dvd 2 ^ 29" using le_imp_power_dvd [of 6 29 "2 :: nat"] by simp
  ultimately have "?c div 8 mod 64 = length m mod 64" by (simp add: mod_mod_cancel)
  moreover have "(0x3F :: u32) = mask 6" by (simp add: mask_eq_exp_minus_1)
  ultimately show ?thesis
    using unat_and_mask [of "drop_bit 3 (md_count0 ctx)" 6] by (simp add: unat_drop_bit_div)
qed

lemma md5_count_update:
  fixes c0 c1 n :: u32
  defines "c0' \<equiv> c0 + push_bit 3 n"
  defines "c1' \<equiv> (if c0' < push_bit 3 n then c1 + 1 else c1) + drop_bit 29 n"
  shows "(unat c0' + 2 ^ 32 * unat c1') mod 2 ^ 64 = (unat c0 + 2 ^ 32 * unat c1 + 8 * unat n) mod 2 ^ 64"
proof -
  let ?N = "8 * unat n"
  have lo: "unat (push_bit 3 n) = ?N mod 2 ^ 32" by (simp add: push_bit_eq_mult unat_word_ariths mult.commute)
  have hi: "unat (drop_bit 29 n) = ?N div 2 ^ 32"
    using div_mult_mult1 [of 8 "unat n" "2 ^ 29"] by (simp add: unat_drop_bit_div)
  have c0b: "unat c0 < 2 ^ 32" using unsigned_less [of c0, where ?'a = nat] by simp
  define s where "s = unat c0 + ?N mod 2 ^ 32"
  have s2: "s < 2 * 2 ^ 32" using c0b mod_less_divisor [of "2 ^ 32" ?N] by (simp add: s_def)
  have c0': "unat c0' = s mod 2 ^ 32" by (simp add: c0'_def unat_word_ariths lo s_def)
  have carry: "c0' < push_bit 3 n \<longleftrightarrow> 2 ^ 32 \<le> s"
    using c0b s2 mod_if [of s "2 ^ 32"] by (auto simp: word_less_nat_alt c0' lo s_def)
  define k where "k = (if 2 ^ 32 \<le> s then 1 else 0 :: nat)"
  have "unat c1' = (unat c1 + k + ?N div 2 ^ 32) mod 2 ^ 32"
    by (simp add: c1'_def carry k_def unat_word_ariths hi mod_simps)
  then have "(2 ^ 32 * unat c1') mod (2 ^ 32 * 2 ^ 32) = (2 ^ 32 * (unat c1 + k + ?N div 2 ^ 32)) mod (2 ^ 32 * 2 ^ 32)"
    by (metis mod_mod_trivial mult_mod_right)
  then have "(2 ^ 32 * unat c1') mod 2 ^ 64 = (2 ^ 32 * (unat c1 + k + ?N div 2 ^ 32)) mod 2 ^ 64" by simp
  then have "(unat c0' + 2 ^ 32 * unat c1') mod 2 ^ 64 = (unat c0' + 2 ^ 32 * (unat c1 + k + ?N div 2 ^ 32)) mod 2 ^ 64"
    by (metis mod_add_right_eq)
  have sk: "s = unat c0' + 2 ^ 32 * k" using s2 mod_if [of s "2 ^ 32"] by (auto simp: c0' k_def)
  have "unat c0' + 2 ^ 32 * (unat c1 + k + ?N div 2 ^ 32) = s + 2 ^ 32 * unat c1 + 2 ^ 32 * (?N div 2 ^ 32)"
    by (simp only: sk distrib_left add_ac)
  moreover have "s + 2 ^ 32 * (?N div 2 ^ 32) = unat c0 + ?N"
    using mod_mult_div_eq [of ?N "2 ^ 32"] by (simp only: s_def add.assoc)
  ultimately have "unat c0' + 2 ^ 32 * (unat c1 + k + ?N div 2 ^ 32) = unat c0 + 2 ^ 32 * unat c1 + ?N" by linarith
  then show ?thesis using \<open>(unat c0' + 2 ^ 32 * unat c1') mod 2 ^ 64 = _\<close> by (simp only:)
qed

lemma md5_tail_short: "length xs < 64 \<Longrightarrow> md5_tail xs = xs"
  by (simp add: md5_tail_def)

lemma md5_tail_block: "length b = 64 \<Longrightarrow> md5_tail (b @ ys) = md5_tail ys"
  using md5_tail_append [of b ys] by (simp add: md5_tail_def [of b])

lemma MD5_memcpy_in:
  "ioff + n \<le> length inp \<Longrightarrow> off + n \<le> length out \<Longrightarrow>
   MD5_memcpy out off inp ioff n = Some (splice out off (take n (drop ioff inp)))"
  by (simp add: MD5_memcpy_def mread_def mwrite_def)

text \<open>The data part of an update: the first branch fills the buffer up, the second only adds to it.\<close>

lemma md5_update_blocks:
  assumes "md5_rep ctx m" "xs = take (unat n) inp" "unat n \<le> length inp" "unat n + 63 < 2 ^ 32"
    and "r = length m mod 64" "64 - r \<le> unat n" "unat p = 64 - r"
  shows "\<exists>buf i st buf'. MD5_memcpy (md_buffer ctx) r inp 0 (64 - r) = Some buf
    \<and> md5_update_loop inp n p (MD5Transform (md_state ctx) buf) = Some (i, st)
    \<and> MD5_memcpy buf 0 inp (unat i) (unat (n - i)) = Some buf'
    \<and> st = md5_fold MD5_IV (m @ xs) \<and> length buf' = 64 \<and> take (length (m @ xs) mod 64) buf' = md5_tail (m @ xs)"
proof -
  have rep: "length (md_buffer ctx) = 64" "md_state ctx = md5_fold MD5_IV m" "take r (md_buffer ctx) = md5_tail m"
    using assms(1,5) by (simp_all add: md5_rep_def)
  have r: "r < 64" using assms(5) by simp
  have lx: "length xs = unat n" using assms(2,3) by simp
  define B where "B = md5_tail m @ take (64 - r) xs"
  define ys where "ys = drop (64 - r) xs"
  have tx: "take (64 - r) inp = take (64 - r) xs" using assms(2,6) by (simp add: min_def)
  have B64: "length B = 64" using lx assms(5,6) r by (simp add: B_def)
  have mx: "md5_tail m @ xs = B @ ys" by (simp add: B_def ys_def)
  have c1: "MD5_memcpy (md_buffer ctx) r inp 0 (64 - r) = Some B"
    using assms(3,6) rep r lx by (simp add: MD5_memcpy_in splice_def tx B_def)
  obtain i where i: "md5_update_loop inp n p (MD5Transform (md_state ctx) B) = Some (i, md5_fold (MD5Transform (md_state ctx) B) ys)"
      "unat i = unat n - (unat n - (64 - r)) mod 64"
    using md5_update_loop_fold [OF assms(3,4), of p "MD5Transform (md_state ctx) B"] assms(2,6,7) by (auto simp: ys_def)
  define q where "q = (unat n - (64 - r)) mod 64"
  have q: "q < 64" "q \<le> unat n" using mod_less_eq_dividend [of "unat n - (64 - r)" 64] by (auto simp: q_def)
  have ni: "unat (n - i) = q" "unat i + q = unat n"
    using i(2) q by (auto simp: q_def [symmetric] unat_sub word_le_nat_alt)
  have fold: "md5_fold (MD5Transform (md_state ctx) B) ys = md5_fold MD5_IV (m @ xs)"
    using md5_fold_tail [of MD5_IV m xs] md5_fold_block [OF B64] by (simp add: mx rep(2))
  have lys: "length ys = unat n - (64 - r)" by (simp add: ys_def lx)
  have "q \<le> unat n - (64 - r)" by (simp add: q_def mod_less_eq_dividend)
  then have "length ys - q + (64 - r) = unat i" using i(2) lys assms(6) by (simp add: q_def [symmetric])
  moreover have "md5_tail ys = drop (length ys - q) ys" by (simp add: md5_tail_def lys q_def)
  ultimately have "md5_tail ys = drop (unat i) xs" by (simp add: ys_def)
  then have "md5_tail (m @ xs) = drop (unat i) xs"
    using md5_tail_append [of m xs] md5_tail_block [OF B64, of ys] mx by simp
  moreover have "take q (drop (unat i) inp) = drop (unat i) xs" 
    using assms(2) by (simp add: drop_take ni(2) [symmetric])
  moreover have "length (m @ xs) mod 64 = q"
    using calculation(1) ni(2) lx length_md5_tail [of "m @ xs"] by simp
  moreover have "MD5_memcpy B 0 inp (unat i) (unat (n - i)) = Some (splice B 0 (take q (drop (unat i) inp)))"
    using ni q(1) assms(3) B64 by (simp add: MD5_memcpy_in)
  moreover have "length (splice B 0 (take q (drop (unat i) inp))) = 64" using q(1) B64 by (simp add: splice_def)
  moreover have "take q (splice B 0 (take q (drop (unat i) inp))) = take q (drop (unat i) inp)"
    using ni(2) assms(3) by (simp add: splice_def)
  ultimately show ?thesis using c1 i(1) fold
    by (intro exI [of _ B] exI [of _ i] exI [of _ "md5_fold MD5_IV (m @ xs)"] exI [of _ "splice B 0 (take q (drop (unat i) inp))"]) auto
qed

lemma md5_update_short:
  assumes "md5_rep ctx m" "xs = take (unat n) inp" "unat n \<le> length inp" "r = length m mod 64" "unat n < 64 - r"
  shows "\<exists>buf'. MD5_memcpy (md_buffer ctx) r inp 0 (unat n) = Some buf' \<and> md_state ctx = md5_fold MD5_IV (m @ xs)
    \<and> length buf' = 64 \<and> take (length (m @ xs) mod 64) buf' = md5_tail (m @ xs)"
proof -
  have rep: "length (md_buffer ctx) = 64" "md_state ctx = md5_fold MD5_IV m" "take r (md_buffer ctx) = md5_tail m"
    using assms(1,4) by (simp_all add: md5_rep_def)
  have lx: "length xs = unat n" using assms(2,3) by simp
  have short: "length (md5_tail m @ xs) < 64" using lx assms(4,5) by simp
  have "md5_fold MD5_IV (m @ xs) = md_state ctx"
    using md5_fold_tail [of MD5_IV m xs] md5_fold_short [OF short] rep(2) by simp
  moreover have t: "md5_tail (m @ xs) = md5_tail m @ xs"
    using md5_tail_append [of m xs] md5_tail_short [OF short] by simp
  moreover have "length (m @ xs) mod 64 = r + unat n" using t length_md5_tail [of "m @ xs"] lx assms(4) by simp
  ultimately show ?thesis
    using rep assms(2-5) lx by (intro exI [of _ "splice (md_buffer ctx) r xs"]) (simp add: MD5_memcpy_in splice_def)
qed

lemma MD5Update_rep:
  assumes "md5_rep ctx m" "unat n \<le> length inp" "unat n + 63 < 2 ^ 32"
  shows "\<exists>ctx'. MD5Update ctx inp n = Some ctx' \<and> md5_rep ctx' (m @ take (unat n) inp)"
proof -
  define xs where "xs = take (unat n) inp"
  define idx where "idx = drop_bit 3 (md_count0 ctx) AND 0x3F"
  define c0 where "c0 = md_count0 ctx + push_bit 3 n"
  define c1 where "c1 = (if c0 < push_bit 3 n then md_count1 ctx + 1 else md_count1 ctx) + drop_bit 29 n"
  let ?r = "length m mod 64"
  have idx: "unat idx = ?r" using md5_index [OF assms(1)] by (simp add: idx_def)
  then have "idx \<le> 64" by (simp add: word_le_nat_alt)
  then have part: "unat (64 - idx) = 64 - ?r" by (simp add: unat_sub idx)
  have lx: "length xs = unat n" using assms(2) by (simp add: xs_def)
  have cnt: "(unat c0 + 2 ^ 32 * unat c1) mod 2 ^ 64 = (8 * length (m @ xs)) mod 2 ^ 64"
  proof -
    have "(unat c0 + 2 ^ 32 * unat c1) mod 2 ^ 64
        = (unat (md_count0 ctx) + 2 ^ 32 * unat (md_count1 ctx) + 8 * unat n) mod 2 ^ 64"
      unfolding c1_def c0_def by (rule md5_count_update)
    also have "\<dots> = (8 * length m + 8 * unat n) mod 2 ^ 64"
      using assms(1) unfolding md5_rep_def by (metis mod_add_left_eq)
    finally show ?thesis by (simp add: lx algebra_simps)
  qed
  have upd: "MD5Update ctx inp n =
     do { (buf, st, i, index) \<leftarrow>
            (if n \<ge> 64 - idx
             then do { buf \<leftarrow> MD5_memcpy (md_buffer ctx) (unat idx) inp 0 (unat (64 - idx));
                       (i, st) \<leftarrow> md5_update_loop inp n (64 - idx) (MD5Transform (md_state ctx) buf);
                       Some (buf, st, i, 0) }
             else Some (md_buffer ctx, md_state ctx, 0, idx));
          buf' \<leftarrow> MD5_memcpy buf (unat index) inp (unat i) (unat (n - i));
          Some \<lparr>md_state = st, md_count0 = c0, md_count1 = c1, md_buffer = buf'\<rparr> }"
    by (simp only: MD5Update_def Let_def idx_def c0_def c1_def)
  have "\<exists>buf'. MD5Update ctx inp n = Some \<lparr>md_state = md5_fold MD5_IV (m @ xs), md_count0 = c0, md_count1 = c1, md_buffer = buf'\<rparr>
      \<and> length buf' = 64 \<and> take (length (m @ xs) mod 64) buf' = md5_tail (m @ xs)"
  proof (cases "64 - ?r \<le> unat n")
    case True
    then have "n \<ge> 64 - idx" by (simp add: word_le_nat_alt part)
    then show ?thesis
      using md5_update_blocks [OF assms(1) xs_def assms(2,3) refl True part] unfolding upd by (auto simp: idx part)
  next
    case False
    then have "\<not> n \<ge> 64 - idx" "unat n < 64 - ?r" by (simp_all add: word_le_nat_alt part)
    then show ?thesis
      using md5_update_short [OF assms(1) xs_def assms(2) refl] unfolding upd by (auto simp: idx)
  qed
  then show ?thesis using cnt by (auto simp: md5_rep_def xs_def [symmetric])
qed

lemma length_Encode [simp]: "length (Encode ws) = 4 * length ws"
  by (induction ws) (simp_all add: Encode_def)

lemma md5_counts:
  assumes "md5_rep ctx m"
  shows "md_count0 ctx = of_nat (8 * length m)" "md_count1 ctx = of_nat (8 * length m div 2 ^ 32)"
proof -
  let ?c0 = "unat (md_count0 ctx)" and ?c1 = "unat (md_count1 ctx)" and ?N = "8 * length m"
  have b: "?c0 < 2 ^ 32" "?c1 < 2 ^ 32"
    using unsigned_less [of "md_count0 ctx", where ?'a = nat] unsigned_less [of "md_count1 ctx", where ?'a = nat] by simp_all
  have "?c0 + 2 ^ 32 * ?c1 < 2 ^ 64"
  proof -
    have "2 ^ 32 * ?c1 \<le> 2 ^ 32 * (2 ^ 32 - 1)" using b(2) by (intro mult_left_mono) simp_all
    then show ?thesis using b(1) by simp
  qed
  then have c: "?c0 + 2 ^ 32 * ?c1 = ?N mod (2 ^ 32 * 2 ^ 32)" using assms by (simp add: md5_rep_def)
  then have "?c0 = ?N mod (2 ^ 32 * 2 ^ 32) mod 2 ^ 32" using b(1) by (metis mod_less mod_mult_self2)
  then have "?c0 = ?N mod 2 ^ 32" by (simp add: mod_mod_cancel)
  then show "md_count0 ctx = of_nat ?N" unfolding word_unat_eq_iff by (simp add: unat_of_nat del: of_nat_mult)
  have "?c1 = (?c0 + 2 ^ 32 * ?c1) div 2 ^ 32" using b(1) by simp
  then have "?c1 = (?N mod (2 ^ 32 * 2 ^ 32)) div 2 ^ 32" unfolding c .
  then have "?c1 = ?N div 2 ^ 32 mod 2 ^ 32" by (simp only: mod_mult2_eq) simp
  then show "md_count1 ctx = of_nat (?N div 2 ^ 32)" unfolding word_unat_eq_iff by (simp add: unat_of_nat)
qed

lemma MD5Final_rep:
  assumes "md5_rep ctx m"
  shows "\<exists>z. MD5Final ctx = Some (md5_whole m, z)"
proof -
  define idx where "idx = drop_bit 3 (md_count0 ctx) AND 0x3f"
  define n where "n = (if idx < 56 then 56 - idx else 120 - idx)"
  let ?r = "length m mod 64"
  have idx: "unat idx = ?r" using md5_index [OF assms] by (simp add: idx_def)
  have r: "?r < 64" by simp
  have n: "unat n = (if ?r < 56 then 56 - ?r else 120 - ?r)"
    using r by (auto simp: n_def word_less_nat_alt idx unat_sub word_le_nat_alt)
  have n64: "unat n \<le> 64" using r by (auto simp: n)
  let ?bits = "Encode [md_count0 ctx, md_count1 ctx]"
  obtain ctx1 where c1: "MD5Update ctx PADDING n = Some ctx1" "md5_rep ctx1 (m @ take (unat n) PADDING)"
    using MD5Update_rep [OF assms, of n PADDING] n64 by (auto simp: PADDING_def)
  obtain ctx2 where c2: "MD5Update ctx1 ?bits 8 = Some ctx2" "md5_rep ctx2 ((m @ take (unat n) PADDING) @ ?bits)"
    using MD5Update_rep [OF c1(2), of 8 ?bits] by (auto simp: Encode_def)
  have "m @ md5_pad m = (m @ take (unat n) PADDING) @ ?bits"
    by (simp add: md5_pad_def Let_def n md5_counts [OF assms] del: of_nat_mult)
  then have "md_state ctx2 = md5_fold MD5_IV (m @ md5_pad m)" using c2(2) by (simp add: md5_rep_def)
  then show ?thesis
    using c1(1) c2(1) by (simp add: MD5Final_def Let_def idx_def [symmetric] n_def [symmetric] md5_whole_def)
qed

section \<open>The digest of RFC 1321\<close>

text \<open>The 64 statements of \<^verbatim>\<open>MD5Transform\<close> are the 64 steps of the RFC: \<open>rfc_new\<close> is the word that a step computes.\<close>

lemma rotate_left_rotl:
  assumes "0 < n" "n < 32"
  shows "ROTATE_LEFT x n = word_rotl n x"
proof (rule bit_word_eqI)
  fix k assume "k < LENGTH(32)"
  then have k: "k < 32" by simp
  show "bit (ROTATE_LEFT x n) k \<longleftrightarrow> bit (word_rotl n x) k"
  proof (cases "n \<le> k")
    case True
    then have "(k + (32 - n)) mod 32 = k - n" using assms k by (simp add: mod_if)
    moreover have "\<not> bit x (32 - n + k)" using True assms by (auto dest: bit_imp_le_length)
    ultimately show ?thesis using True assms k by (simp add: ROTATE_LEFT_def bit_simps)
  next
    case False
    then have "(k + (32 - n)) mod 32 = 32 - n + k" using assms k by simp
    then show ?thesis using False assms k by (simp add: ROTATE_LEFT_def bit_simps)
  qed
qed

definition rfc_new :: "u32 list \<Rightarrow> nat \<Rightarrow> u32 \<Rightarrow> u32 \<Rightarrow> u32 \<Rightarrow> u32 \<Rightarrow> u32" where
  "rfc_new X i a b c d = b + word_rotl (rfc_shift i) (a + rfc_aux i b c d + X ! rfc_word i + of_nat (rfc_T ! i))"

lemma rounds_let:
  "(case fold (rfc_step X) (i # is) (a, b, c, d) of (p, q, r, s) \<Rightarrow> k p q r s)
    = (let n = rfc_new X i a b c d in case fold (rfc_step X) is (d, n, b, c) of (p, q, r, s) \<Rightarrow> k p q r s)"
  by (simp add: rfc_step_def rfc_new_def Let_def)

lemma rounds_end: "(case fold (rfc_step X) [] (a, b, c, d) of (p, q, r, s) \<Rightarrow> k p q r s) = k a b c d"
  by simp

lemma shift_range: "i < 64 \<Longrightarrow> 0 < rfc_shift i \<and> rfc_shift i < 32"
proof -
  assume "i < 64"
  then have "i div 16 \<in> {0, 1, 2, 3}" "i mod 4 \<in> {0, 1, 2, 3}" by auto
  then show ?thesis by (auto simp: rfc_shift_def)
qed

lemma new_round:
  "i < 16 \<Longrightarrow> rfc_new X i a b c d = FF a b c d (X ! rfc_word i) (rfc_shift i) (of_nat (rfc_T ! i))"
  "16 \<le> i \<Longrightarrow> i < 32 \<Longrightarrow> rfc_new X i a b c d = GG a b c d (X ! rfc_word i) (rfc_shift i) (of_nat (rfc_T ! i))"
  "32 \<le> i \<Longrightarrow> i < 48 \<Longrightarrow> rfc_new X i a b c d = HH a b c d (X ! rfc_word i) (rfc_shift i) (of_nat (rfc_T ! i))"
  "48 \<le> i \<Longrightarrow> i < 64 \<Longrightarrow> rfc_new X i a b c d = II a b c d (X ! rfc_word i) (rfc_shift i) (of_nat (rfc_T ! i))"
  using shift_range [of i] rotate_left_rotl [of "rfc_shift i"]
  by (simp_all add: rfc_new_def rfc_aux_def FF_def GG_def HH_def II_def F_def G_def H_def I_def ac_simps)

lemma steps64: "[0..<64] = [0, 1, 2, 3, 4, 5, 6, 7, 8, 9, 10, 11, 12, 13, 14, 15, 16, 17, 18, 19, 20, 21, 22, 23, 24, 25, 26, 27, 28, 29, 30, 31,
   32, 33, 34, 35, 36, 37, 38, 39, 40, 41, 42, 43, 44, 45, 46, 47, 48, 49, 50, 51, 52, 53, 54, 55, 56, 57, 58, 59, 60, 61, 62, 63]"
  by (simp add: upt_rec)

lemma new_round_1:
  "rfc_new X 0 a b c d = FF a b c d (X ! 0) S11 0xd76aa478"
  "rfc_new X 1 a b c d = FF a b c d (X ! 1) S12 0xe8c7b756"
  "rfc_new X 2 a b c d = FF a b c d (X ! 2) S13 0x242070db"
  "rfc_new X 3 a b c d = FF a b c d (X ! 3) S14 0xc1bdceee"
  "rfc_new X 4 a b c d = FF a b c d (X ! 4) S11 0xf57c0faf"
  "rfc_new X 5 a b c d = FF a b c d (X ! 5) S12 0x4787c62a"
  "rfc_new X 6 a b c d = FF a b c d (X ! 6) S13 0xa8304613"
  "rfc_new X 7 a b c d = FF a b c d (X ! 7) S14 0xfd469501"
  "rfc_new X 8 a b c d = FF a b c d (X ! 8) S11 0x698098d8"
  "rfc_new X 9 a b c d = FF a b c d (X ! 9) S12 0x8b44f7af"
  "rfc_new X 10 a b c d = FF a b c d (X ! 10) S13 0xffff5bb1"
  "rfc_new X 11 a b c d = FF a b c d (X ! 11) S14 0x895cd7be"
  "rfc_new X 12 a b c d = FF a b c d (X ! 12) S11 0x6b901122"
  "rfc_new X 13 a b c d = FF a b c d (X ! 13) S12 0xfd987193"
  "rfc_new X 14 a b c d = FF a b c d (X ! 14) S13 0xa679438e"
  "rfc_new X 15 a b c d = FF a b c d (X ! 15) S14 0x49b40821"
  by (simp_all add: new_round rfc_word_def rfc_shift_def rfc_T_def)

lemma new_round_2:
  "rfc_new X 16 a b c d = GG a b c d (X ! 1) S21 0xf61e2562"
  "rfc_new X 17 a b c d = GG a b c d (X ! 6) S22 0xc040b340"
  "rfc_new X 18 a b c d = GG a b c d (X ! 11) S23 0x265e5a51"
  "rfc_new X 19 a b c d = GG a b c d (X ! 0) S24 0xe9b6c7aa"
  "rfc_new X 20 a b c d = GG a b c d (X ! 5) S21 0xd62f105d"
  "rfc_new X 21 a b c d = GG a b c d (X ! 10) S22 0x2441453"
  "rfc_new X 22 a b c d = GG a b c d (X ! 15) S23 0xd8a1e681"
  "rfc_new X 23 a b c d = GG a b c d (X ! 4) S24 0xe7d3fbc8"
  "rfc_new X 24 a b c d = GG a b c d (X ! 9) S21 0x21e1cde6"
  "rfc_new X 25 a b c d = GG a b c d (X ! 14) S22 0xc33707d6"
  "rfc_new X 26 a b c d = GG a b c d (X ! 3) S23 0xf4d50d87"
  "rfc_new X 27 a b c d = GG a b c d (X ! 8) S24 0x455a14ed"
  "rfc_new X 28 a b c d = GG a b c d (X ! 13) S21 0xa9e3e905"
  "rfc_new X 29 a b c d = GG a b c d (X ! 2) S22 0xfcefa3f8"
  "rfc_new X 30 a b c d = GG a b c d (X ! 7) S23 0x676f02d9"
  "rfc_new X 31 a b c d = GG a b c d (X ! 12) S24 0x8d2a4c8a"
  by (simp_all add: new_round rfc_word_def rfc_shift_def rfc_T_def)

lemma new_round_3:
  "rfc_new X 32 a b c d = HH a b c d (X ! 5) S31 0xfffa3942"
  "rfc_new X 33 a b c d = HH a b c d (X ! 8) S32 0x8771f681"
  "rfc_new X 34 a b c d = HH a b c d (X ! 11) S33 0x6d9d6122"
  "rfc_new X 35 a b c d = HH a b c d (X ! 14) S34 0xfde5380c"
  "rfc_new X 36 a b c d = HH a b c d (X ! 1) S31 0xa4beea44"
  "rfc_new X 37 a b c d = HH a b c d (X ! 4) S32 0x4bdecfa9"
  "rfc_new X 38 a b c d = HH a b c d (X ! 7) S33 0xf6bb4b60"
  "rfc_new X 39 a b c d = HH a b c d (X ! 10) S34 0xbebfbc70"
  "rfc_new X 40 a b c d = HH a b c d (X ! 13) S31 0x289b7ec6"
  "rfc_new X 41 a b c d = HH a b c d (X ! 0) S32 0xeaa127fa"
  "rfc_new X 42 a b c d = HH a b c d (X ! 3) S33 0xd4ef3085"
  "rfc_new X 43 a b c d = HH a b c d (X ! 6) S34 0x4881d05"
  "rfc_new X 44 a b c d = HH a b c d (X ! 9) S31 0xd9d4d039"
  "rfc_new X 45 a b c d = HH a b c d (X ! 12) S32 0xe6db99e5"
  "rfc_new X 46 a b c d = HH a b c d (X ! 15) S33 0x1fa27cf8"
  "rfc_new X 47 a b c d = HH a b c d (X ! 2) S34 0xc4ac5665"
  by (simp_all add: new_round rfc_word_def rfc_shift_def rfc_T_def)

lemma new_round_4:
  "rfc_new X 48 a b c d = II a b c d (X ! 0) S41 0xf4292244"
  "rfc_new X 49 a b c d = II a b c d (X ! 7) S42 0x432aff97"
  "rfc_new X 50 a b c d = II a b c d (X ! 14) S43 0xab9423a7"
  "rfc_new X 51 a b c d = II a b c d (X ! 5) S44 0xfc93a039"
  "rfc_new X 52 a b c d = II a b c d (X ! 12) S41 0x655b59c3"
  "rfc_new X 53 a b c d = II a b c d (X ! 3) S42 0x8f0ccc92"
  "rfc_new X 54 a b c d = II a b c d (X ! 10) S43 0xffeff47d"
  "rfc_new X 55 a b c d = II a b c d (X ! 1) S44 0x85845dd1"
  "rfc_new X 56 a b c d = II a b c d (X ! 8) S41 0x6fa87e4f"
  "rfc_new X 57 a b c d = II a b c d (X ! 15) S42 0xfe2ce6e0"
  "rfc_new X 58 a b c d = II a b c d (X ! 6) S43 0xa3014314"
  "rfc_new X 59 a b c d = II a b c d (X ! 13) S44 0x4e0811a1"
  "rfc_new X 60 a b c d = II a b c d (X ! 4) S41 0xf7537e82"
  "rfc_new X 61 a b c d = II a b c d (X ! 11) S42 0xbd3af235"
  "rfc_new X 62 a b c d = II a b c d (X ! 2) S43 0x2ad7d2bb"
  "rfc_new X 63 a b c d = II a b c d (X ! 9) S44 0xeb86d391"
  by (simp_all add: new_round rfc_word_def rfc_shift_def rfc_T_def)

lemma transform_rfc: "MD5Transform st blk = rfc_block (Decode blk) st"
proof -
  obtain a0 b0 c0 d0 where st: "st = (a0, b0, c0, d0)" by (cases st) auto
  show ?thesis
    unfolding st rfc_block_def MD5Transform_def prod.case steps64
    Let_def [of "Decode blk"] Let_def [of a0] Let_def [of b0] Let_def [of c0] Let_def [of d0]
    by (simp only: rounds_let rounds_end new_round_1 new_round_2 new_round_3 new_round_4)
qed
lemma Decode_words: "4 * n \<le> length bs \<Longrightarrow> take n (Decode bs) = map (\<lambda>i. bytes_word (take 4 (drop (4 * i) bs))) [0..<n]"
proof (induction n arbitrary: bs)
  case (Suc n)
  then obtain b0 b1 b2 b3 cs where bs: "bs = b0 # b1 # b2 # b3 # cs"
    by (cases bs; cases "tl bs"; cases "tl (tl bs)"; cases "tl (tl (tl bs))") auto
  have w: "bytes_word [b0, b1, b2, b3] = (ucast b0 OR push_bit 8 (ucast b1) OR push_bit 16 (ucast b2) OR push_bit 24 (ucast b3) :: u32)"
    by (simp add: push_bit_or)
  have "4 * n \<le> length cs" using Suc.prems bs by simp
  then show ?case using Suc.IH [of cs] bs w
    by (simp add: upt_conv_Cons map_Suc_upt [symmetric] o_def eval_nat_numeral del: upt_Suc bytes_word.simps(2))
qed simp

lemma length_Decode: "length (Decode bs) = length bs div 4"
  by (induction bs rule: Decode.induct) auto

lemma Decode_block: "length blk = 64 \<Longrightarrow> Decode blk = rfc_words blk"
  using Decode_words [of 16 blk] length_Decode [of blk] by (simp add: rfc_words_def)

lemma byte_mask: "(ucast (w AND 0xff) :: u8) = ucast (w :: u32)"
proof -
  have "w AND 0xff = take_bit 8 w" by (simp add: take_bit_eq_mask mask_eq_exp_minus_1)
  then show ?thesis by (simp add: bit_eq_iff bit_simps)
qed

lemma Encode_bytes: "Encode ws = concat (map (word_bytes 4) ws)"
proof -
  have "(\<lambda>w :: u32. [ucast (w AND 0xff), ucast (drop_bit 8 w AND 0xff), ucast (drop_bit 16 w AND 0xff), ucast (drop_bit 24 w AND 0xff)] :: bytes) = word_bytes 4"
    by (rule ext) (simp add: word_bytes_numeral byte_mask)
  then show ?thesis by (simp add: Encode_def)
qed

lemma rfc_blocks_Cons: "64 \<le> length p \<Longrightarrow> rfc_blocks p = rfc_words (take 64 p) # rfc_blocks (drop 64 p)"
proof -
  assume p: "64 \<le> length p"
  then have d: "length p div 64 = Suc ((length p - 64) div 64)" by (simp add: div_if)
  have "64 * Suc k = 64 * k + 64" for k by simp
  then show ?thesis
    using p unfolding rfc_blocks_def d by (simp add: upt_conv_Cons map_Suc_upt [symmetric] o_def del: upt_Suc mult_Suc_right)
qed

lemma md5_fold_blocks: "length p mod 64 = 0 \<Longrightarrow> md5_fold st p = fold rfc_block (rfc_blocks p) st"
proof (induction st p rule: md5_fold.induct)
  case (1 st p)
  show ?case
  proof (cases "length p < 64")
    case True
    then have "p = []" using 1(2) by (cases p) auto
    then show ?thesis by (simp add: md5_fold_short rfc_blocks_def)
  next
    case False
    then have m: "length (drop 64 p) mod 64 = 0" using 1(2) by (simp add: mod_if)
    have "MD5Transform st (take 64 p) = rfc_block (rfc_words (take 64 p)) st" using False by (simp add: transform_rfc Decode_block)
    then show ?thesis using 1(1) [OF False m] False by (simp add: md5_fold.simps [of st p] rfc_blocks_Cons)
  qed
qed

lemma md5_bits: "Encode [of_nat n, of_nat (n div 2 ^ 32)] = word_bytes 8 (of_nat n :: u64)"
proof -
  let ?w = "of_nat n :: u64"
  have lo: "(of_nat n :: u32) = ucast ?w" by (rule bit_word_eqI) (simp add: bit_simps)
  have hi: "(of_nat (n div 2 ^ 32) :: u32) = ucast (drop_bit 32 ?w)"
    unfolding drop_bit_eq_div [symmetric] by (rule bit_word_eqI) (simp add: bit_simps)
  have "word_bytes 8 ?w = word_bytes 4 (ucast ?w :: u32) @ word_bytes 4 (ucast (drop_bit 32 ?w) :: u32)"
    by (simp add: word_bytes_numeral) (simp add: bit_eq_iff bit_simps)
  then show ?thesis unfolding lo hi by (simp add: Encode_bytes)
qed

lemma pad_zeros:
  assumes "r < 64"
  shows "(if r < 56 then 56 - r else 120 - r) = Suc ((119 - r) mod 64)" "(r + (119 - r) mod 64 + 9) mod 64 = 0"
proof -
  have a: "(119 - r) mod 64 = (if r < 56 then 55 - r else 119 - r)"
  proof (cases "r < 56")
    case True
    have "(119 - r) mod 64 = (55 - r + 64) mod 64" using True by (intro arg_cong [where f = "\<lambda>k. k mod 64"]) simp
    also have "\<dots> = 55 - r" by (subst mod_add_self2) simp
    finally show ?thesis using True by simp
  qed simp
  show "(if r < 56 then 56 - r else 120 - r) = Suc ((119 - r) mod 64)" unfolding a using assms by auto
  show "(r + (119 - r) mod 64 + 9) mod 64 = 0" unfolding a using assms by auto
qed

lemma md5_pad_rfc: "m @ md5_pad m = rfc_pad m"
proof -
  define r where "r = length m mod 64"
  have r: "r < 64" by (simp add: r_def)
  have "(119 - r) mod 64 \<le> 63" using mod_less_divisor [of 64 "119 - r"] by linarith
  then have "take (Suc ((119 - r) mod 64)) PADDING = 0x80 # replicate ((119 - r) mod 64) 0" by (simp add: PADDING_def min_def)
  then show ?thesis
    unfolding md5_pad_def rfc_pad_def Let_def md5_bits r_def [symmetric] pad_zeros(1) [OF r] by simp
qed

lemma length_rfc_pad: "length (rfc_pad m) mod 64 = 0"
proof -
  have "length (rfc_pad m) mod 64 = (length m mod 64 + ((119 - length m mod 64) mod 64 + 9)) mod 64"
    by (simp only: rfc_pad_def length_append length_replicate length_word_bytes list.size mod_add_left_eq) (simp add: ac_simps)
  also have "\<dots> = 0" using pad_zeros(2) [of "length m mod 64"] by (simp add: add.assoc)
  finally show ?thesis .
qed

lemma md5_init_rfc: "MD5_IV = rfc_init"
  by (simp add: MD5_IV_def rfc_init_def)

lemma md5_whole_spec: "md5_whole m = md5_spec m"
  unfolding md5_whole_def md5_spec_def md5_pad_rfc md5_init_rfc md5_fold_blocks [OF length_rfc_pad]
  by (simp add: Encode_bytes state_words_def split: prod.split)

section \<open>The hash interface\<close>

text \<open>
  A hash computed in parts: a context, an update that takes the next part, a finish that returns
  the hash of everything so far. \<open>parts_digest\<close> is the way the program uses it.
\<close>

definition parts_digest :: "'c \<Rightarrow> ('c \<Rightarrow> 'i \<Rightarrow> 'c option) \<Rightarrow> ('c \<Rightarrow> bytes option) \<Rightarrow> 'i list \<Rightarrow> bytes option" where
  "parts_digest init update finish parts =
     Option.bind (fold (\<lambda>i c. Option.bind c (\<lambda>ctx. update ctx i)) parts (Some init)) finish"

locale streaming_hash =
  fixes init :: 'c
    and update :: "'c \<Rightarrow> 'i \<Rightarrow> 'c option"
    and finish :: "'c \<Rightarrow> bytes option"
    and content :: "'i \<Rightarrow> bytes"
    and fits :: "'i \<Rightarrow> bool"
    and rep :: "'c \<Rightarrow> bytes \<Rightarrow> bool"
    and hash :: "bytes \<Rightarrow> bytes"
  assumes rep_init: "rep init []"
    and rep_update: "rep c m \<Longrightarrow> fits i \<Longrightarrow> \<exists>c'. update c i = Some c' \<and> rep c' (m @ content i)"
    and rep_finish: "rep c m \<Longrightarrow> finish c = Some (hash m)"
begin

lemma fold_rep:
  assumes "rep c m" "list_all fits parts"
  shows "\<exists>c'. fold (\<lambda>i c. Option.bind c (\<lambda>ctx. update ctx i)) parts (Some c) = Some c' \<and> rep c' (m @ concat (map content parts))"
  using assms
proof (induction parts arbitrary: c m)
  case (Cons i parts)
  then obtain c1 where "update c i = Some c1" "rep c1 (m @ content i)" using rep_update [of c m i] by auto
  with Cons.IH [of c1 "m @ content i"] Cons.prems(2) show ?case by simp
qed simp

lemma digest_parts:
  assumes "list_all fits parts"
  shows "parts_digest init update finish parts = Some (hash (concat (map content parts)))"
  using fold_rep [OF rep_init assms] rep_finish by (auto simp: parts_digest_def)

text \<open>How the message is cut into parts does not matter.\<close>

lemma digest_cut:
  assumes "list_all fits ps" "list_all fits qs" "concat (map content ps) = concat (map content qs)"
  shows "parts_digest init update finish ps = parts_digest init update finish qs"
  using assms by (simp add: digest_parts)

end

definition part_content :: "bytes \<times> u32 \<Rightarrow> bytes" where
  "part_content i = take (unat (snd i)) (fst i)"

definition part_fits :: "bytes \<times> u32 \<Rightarrow> bool" where
  "part_fits i \<longleftrightarrow> unat (snd i) \<le> length (fst i) \<and> unat (snd i) + 63 < 2 ^ 32"

definition md5_update_part :: "MD5_CTX \<Rightarrow> bytes \<times> u32 \<Rightarrow> MD5_CTX option" where
  "md5_update_part ctx i = MD5Update ctx (fst i) (snd i)"

definition md5_finish :: "MD5_CTX \<Rightarrow> bytes option" where
  "md5_finish ctx = map_option fst (MD5Final ctx)"

interpretation md5: streaming_hash "MD5Init g" md5_update_part md5_finish part_content part_fits md5_rep md5_spec for g
proof
  show "md5_rep (MD5Init g) []" by (rule md5_rep_init)
next
  fix c m i assume "md5_rep c m" "part_fits i"
  then show "\<exists>c'. md5_update_part c i = Some c' \<and> md5_rep c' (m @ part_content i)"
    using MD5Update_rep [of c m "snd i" "fst i"] by (simp add: md5_update_part_def part_fits_def part_content_def)
next
  fix c m assume "md5_rep c m"
  then show "md5_finish c = Some (md5_spec m)" using MD5Final_rep by (auto simp: md5_finish_def md5_whole_spec)
qed

lemma md5_digest_parts: "md5_digest g parts = parts_digest (MD5Init g) md5_update_part md5_finish parts"
proof -
  have "(\<lambda>(d, n) c. Option.bind c (\<lambda>ctx. MD5Update ctx d n)) = (\<lambda>i c. Option.bind c (\<lambda>ctx. md5_update_part ctx i))"
    by (auto simp: fun_eq_iff md5_update_part_def)
  moreover have "(\<lambda>ctx. Option.bind (MD5Final ctx) (\<lambda>(digest, _). Some digest)) = md5_finish"
  proof
    fix ctx
    show "Option.bind (MD5Final ctx) (\<lambda>(digest, _). Some digest) = md5_finish ctx"
      by (cases "MD5Final ctx") (auto simp: md5_finish_def)
  qed
  ultimately show ?thesis unfolding md5_digest_def parts_digest_def by simp
qed

section \<open>HMAC\<close>

text \<open>RFC 2104.\<close>

definition hmac_key :: "bytes \<Rightarrow> bytes" where
  "hmac_key key = (let k = (if 64 < length key then md5_spec key else key) in k @ replicate (64 - length k) 0)"

definition hmac_spec :: "bytes \<Rightarrow> bytes \<Rightarrow> bytes" where
  "hmac_spec key text =
     md5_spec (map (\<lambda>b. b XOR 0x5c) (hmac_key key) @ md5_spec (map (\<lambda>b. b XOR 0x36) (hmac_key key) @ text))"

lemma length_hmac_key [simp]: "length (hmac_key key) = 64"
  by (simp add: hmac_key_def Let_def)

lemma length_hmac_spec [simp]: "length (hmac_spec key text) = 16"
  by (simp add: hmac_spec_def)

lemma int_length:
  assumes "n < 2 ^ 31"
  shows "unat (of_nat n :: i32) = n" "sint (of_nat n :: i32) = int n" "unat (scast (of_nat n :: i32) :: u64) = n"
proof -
  show u: "unat (of_nat n :: i32) = n" using assms by (simp add: unat_of_nat)
  have "signed_take_bit 31 (int n) = int n" using assms by (intro signed_take_bit_int_eq_self) simp_all
  then show s: "sint (of_nat n :: i32) = int n" by (simp add: signed_of_nat)
  have "(scast (of_nat n :: i32) :: u64) = of_nat n" by (simp add: scast_eq s)
  then show "unat (scast (of_nat n :: i32) :: u64) = n" using assms by (simp add: unat_of_nat)
qed

text \<open>From the key of at most 64 bytes on.\<close>

lemma hmac_pads:
  assumes "length k \<le> 64" "v = k @ replicate (64 - length k) 0"
  shows "mread k 0 (length k) = Some k" "mwrite (replicate 65 0) 0 k = Some (v @ [0])"
proof -
  show "mread k 0 (length k) = Some k" by (simp add: mread_def)
  have "65 - length k = Suc (64 - length k)" using assms(1) by linarith
  then show "mwrite (replicate 65 0) 0 k = Some (v @ [0])"
    using assms by (simp add: mwrite_def splice_def replicate_append_same)
qed

lemma hmac_inner:
  assumes "length v = 64" "length text < 2 ^ 31"
  shows "md5_digest g [(map f v @ [0], 64), (text, of_nat (length text))] = Some (md5_spec (map f v @ text))"
proof -
  have "list_all part_fits [(map f v @ [0], 64), (text, of_nat (length text))]"
    using assms int_length [OF assms(2)] by (simp add: part_fits_def)
  then show ?thesis
    using md5.digest_parts [of "[(map f v @ [0], 64), (text, of_nat (length text))]" g] assms(1) int_length [OF assms(2)]
    by (simp add: md5_digest_parts part_content_def)
qed

lemma hmac_md5_spec:
  assumes "length text < 2 ^ 31" "length key < 2 ^ 31"
  shows "hmac_md5 g text (of_nat (length text)) key (of_nat (length key)) = Some (hmac_spec key text)"
proof -
  define k where "k = (if 64 < length key then md5_spec key else key)"
  define v where "v = hmac_key key"
  have lk: "length k \<le> 64" by (simp add: k_def)
  have v: "v = k @ replicate (64 - length k) 0" "length v = 64" by (simp_all add: v_def hmac_key_def k_def)
  have lt: "64 <s (of_nat (length key) :: i32) \<longleftrightarrow> 64 < length key"
    using int_length(2) [OF assms(2)] by (simp add: word_sless_alt)
  have "list_all part_fits [(key, of_nat (length key))]" using int_length(1) [OF assms(2)] assms(2) by (simp add: part_fits_def)
  then have dk: "md5_digest g [(key, of_nat (length key))] = Some (md5_spec key)"
    using md5.digest_parts [of "[(key, of_nat (length key))]" g] int_length(1) [OF assms(2)] by (simp add: md5_digest_parts part_content_def)
  have "unat (scast (of_nat (length k) :: i32) :: u64) = length k" using lk by (intro int_length(3)) simp
  then have rest: "mread k 0 (unat (scast (of_nat (length k) :: i32) :: u64)) = Some k"
    using hmac_pads(1) [OF lk v(1)] by simp
  have sel: "(if 64 <s (of_nat (length key) :: i32) then do { tk \<leftarrow> md5_digest g [(key, of_nat (length key))]; Some (tk, 16) }
      else Some (key, of_nat (length key))) = Some (k, of_nat (length k))"
    using lt dk by (simp add: k_def)
  let ?in = "md5_spec (map (\<lambda>b. b XOR 0x36) v @ text)"
  have "hmac_md5 g text (of_nat (length text)) key (of_nat (length key)) = Some (md5_spec (map (\<lambda>b. b XOR 0x5c) v @ ?in))"
    unfolding hmac_md5_def sel using rest hmac_pads(2) [OF lk v(1)] v(2)
      hmac_inner [OF v(2) assms(1), of g "\<lambda>b. b XOR 0x36"] hmac_inner [OF v(2), of ?in g "\<lambda>b. b XOR 0x5c"]
    by simp
  then show ?thesis by (simp add: hmac_spec_def v_def)
qed

section \<open>Properties\<close>

text \<open>
  C9. Streaming: \<^verbatim>\<open>MD5Init\<close>, any number of \<^verbatim>\<open>MD5Update\<close> calls and \<^verbatim>\<open>MD5Final\<close> return the digest of
  RFC 1321 of the concatenation of the parts: how the message is cut, and the uninitialised buffer,
  do not matter, and no access leaves the 64-byte buffer or an input part. The digest \<open>md5_spec\<close> is written down in \<open>Rfc1321\<close> from the text of the
  RFC and shares no definition with the model of the code.
\<close>

theorem md5_streaming:
  assumes "list_all part_fits parts"
  shows "md5_digest g parts = Some (md5_spec (concat (map part_content parts)))"
  using md5.digest_parts [OF assms] by (simp add: md5_digest_parts)

theorem md5_streaming_witness:
  "md5_digest (\<lambda>_. 7) [([97, 98], 2), ([], 0), (replicate 130 99, 130)]
    = Some (md5_spec (concat (map part_content [([97, 98], 2), ([], 0), (replicate 130 99, 130)])))"
  by (rule md5_streaming) (simp add: part_fits_def)

text \<open>
  C8. \<^verbatim>\<open>hmac_md5\<close> is the keyed hash of RFC 2104 over the MD5 of RFC 1321, for every text and every key, keys
  longer than a block included.
\<close>

theorem hmac_md5_correct:
  assumes "length text < 2 ^ 31" "length key < 2 ^ 31"
  shows "hmac_md5 g text (of_nat (length text)) key (of_nat (length key)) = Some (hmac_spec key text)"
  by (rule hmac_md5_spec [OF assms])

theorem hmac_md5_correct_witness:
  "hmac_md5 (\<lambda>_. 0) [1, 2, 3] (of_nat (length [1, 2, 3 :: u8])) (replicate 80 0xAA) (of_nat (length (replicate 80 (0xAA :: u8))))
    = Some (hmac_spec (replicate 80 0xAA) [1, 2, 3])"
  by (rule hmac_md5_correct) simp_all

end
