(* ===== verification/Headers.thy ===== *)
theory Headers
  imports Prelude
begin

unbundle bit_operations_syntax

text \<open>
  The packet headers of \<^verbatim>\<open>include/mac.h\<close>, \<^verbatim>\<open>include/if_packet.h\<close>, \<^verbatim>\<open>include/tcp.h\<close>,
  \<^verbatim>\<open>include/udp.h\<close> and \<^verbatim>\<open>include/sctp.h\<close> as records, each with its image in memory (packed, little
  endian: a field holds the value the processor reads, which for a network-order field is the
  byte-swapped number). The locale \<open>byte_layout\<close> is what the code relies on when it copies a header
  into a packet and reads it through a pointer later.
\<close>

section \<open>Enumerations\<close>

datatype SCTP_STATUS =
    SCTP_LISTEN | SCTP_COOKIE_WAIT | SCTP_INIT_SENT | SCTP_INIT_RECEIVED | SCTP_INIT_ACK_SENT
  | SCTP_INIT_ACK_RECEIVED | SCTP_COOKIE_RECEIVED | SCTP_COOKIE_ECHO_SENT | SCTP_COOKIE_ECHO_RECEIVED
  | SCTP_ESTABLISHED

text \<open>\<^verbatim>\<open>SCTP_HDR_TYPE\<close>: the chunk types, bytes of the chunk header.\<close>

abbreviation (input) SCTP_DATA :: u8 where "SCTP_DATA \<equiv> 0"
abbreviation (input) SCTP_INIT :: u8 where "SCTP_INIT \<equiv> 1"
abbreviation (input) SCTP_INIT_ACK :: u8 where "SCTP_INIT_ACK \<equiv> 2"
abbreviation (input) SCTP_COOKIE_ECHO :: u8 where "SCTP_COOKIE_ECHO \<equiv> 10"
abbreviation (input) SCTP_COOKIE_ACK :: u8 where "SCTP_COOKIE_ACK \<equiv> 11"

abbreviation (input) SCTP_EBIT :: u8 where "SCTP_EBIT \<equiv> 0x01"
abbreviation (input) SCTP_BBIT :: u8 where "SCTP_BBIT \<equiv> 0x02"
abbreviation (input) SCTP_UNFRAGMENTED :: u8 where "SCTP_UNFRAGMENTED \<equiv> 0x03"

abbreviation (input) PROTO_SCTP :: u8 where "PROTO_SCTP \<equiv> 132"
abbreviation (input) IPPROTO_TCP :: u8 where "IPPROTO_TCP \<equiv> 6"
abbreviation (input) ETHERTYPE_IP :: u16 where "ETHERTYPE_IP \<equiv> 0x0800"
abbreviation (input) MAX_PACKET_LEN :: nat where "MAX_PACKET_LEN \<equiv> 1516"
abbreviation (input) HMAC_MD5_KEY_LEN :: nat where "HMAC_MD5_KEY_LEN \<equiv> 16"

section \<open>Structures\<close>

record mac_hdr =
  mac_mac :: bytes
  mac_type :: u16

record ipv4_hdr =
  ip_ihl :: "4 word"
  ip_ver :: "4 word"
  ip_tos :: u8
  ip_len :: u16
  ip_indent :: u16
  ip_offset :: u16
  ip_ttl :: u8
  ip_proto :: u8
  ip_check :: u16
  ip_src_addr :: u32
  ip_dest_addr :: u32

record tcp_hdr =
  tcp_srcp :: u16
  tcp_dstp :: u16
  tcp_seq :: u32
  tcp_ack :: u32
  tcp_flags :: u16
  tcp_win :: u16
  tcp_check :: u16
  tcp_urgent :: u16

record pseudo_header =
  psh_source_address :: u32
  psh_dest_address :: u32
  psh_placeholder :: u8
  psh_protocol :: u8
  psh_tcp_length :: u16

record udp_hdr =
  udp_srcp :: u16
  udp_dstp :: u16
  udp_len :: u16
  udp_sum :: u16

record sctp_common_hdr =
  cmn_srcp :: u16
  cmn_dstp :: u16
  cmn_tag :: u32
  cmn_check :: u32

record sctp_fld_hdr =
  fld_type :: u8
  fld_flags :: u8
  fld_len :: u16

text \<open>\<^verbatim>\<open>sctp_init_ack_hdr_t\<close> has the same fields as \<^verbatim>\<open>sctp_init_hdr_t\<close>.\<close>

record sctp_init_hdr =
  init_tag :: u32
  init_a_rwnd :: u32
  init_os :: u16
  init_mis :: u16
  init_tsn :: u32

record sctp_data_hdr =
  data_tsn :: u32
  data_so :: u16
  data_sn :: u16
  data_proto_def :: u32

record sctp_parameter =
  par_type :: u16
  par_len :: u16

record cookie =
  ck_ver_tag :: u32
  ck_init_tag :: u32
  ck_a_rwnd :: u32
  ck_os :: u16
  ck_mis :: u16
  ck_tsn :: u32
  ck_dst_tsn :: u32
  ck_src_ip :: u32
  ck_dst_ip :: u32
  ck_src_port :: u32
  ck_dst_port :: u32

text \<open>A pointer to a heap object: NULL, the start of a live object, or an object already freed.\<close>

datatype heap_obj = Null_obj | Live bytes | Freed

fun obj_read :: "heap_obj \<Rightarrow> nat \<Rightarrow> bytes option" where
  "obj_read (Live bs) n = mread bs 0 n"
| "obj_read _ n = (if n = 0 then Some [] else None)"

fun obj_free :: "heap_obj \<Rightarrow> heap_obj option" where
  "obj_free Null_obj = Some Null_obj"
| "obj_free (Live _) = Some Freed"
| "obj_free Freed = None"

text \<open>\<^verbatim>\<open>if_ip_sctp_meta_t\<close>, the per-connection state of the frame builders; \<open>m_add\<close> is a received cookie.\<close>

record if_ip_sctp_meta =
  m_ver_tag :: u32
  m_init_tag :: u32
  m_a_rwnd :: u32
  m_os :: u16
  m_mis :: u16
  m_tsn :: u32
  m_src_ip :: u32
  m_dst_ip :: u32
  m_src_port :: u32
  m_dst_port :: u32
  m_state :: i32
  m_src_arwnd :: u32
  m_src_os :: u16
  m_src_mis :: u16
  m_dev :: bytes
  m_gateway :: bytes
  m_add :: heap_obj
  m_add_len :: u16

datatype PROTO_STACK_TYPE =
    PROTO_STACK_MAC80211_IP_TCP | PROTO_STACK_MAC80211_IP_SCTP | PROTO_STACK_MAC8023_IP_TCP
  | PROTO_STACK_MAC8023_IP_SCTP | PROTO_STACK_IP_TCP | PROTO_STACK_IP_SCTP | PROTO_STACK_IP_UDP
  | PROTO_STACK_TCP_RAW | PROTO_STACK_TCP | PROTO_STACK_IP_RAW | PROTO_STACK_IP | PROTO_STACK_ARP

record frame_sync_ip_tcp =
  sy_ip_check_part :: u32
  sy_tcp_check_part :: u32

text \<open>
  \<^verbatim>\<open>frame_data_t\<close>. The pointers \<open>packet\<close> and \<open>prefill\<close> point into the buffers \<open>fr_mem\<close> and
  \<open>fr_pmem\<close>; they are offsets (\<open>None\<close>: NULL), which pointer arithmetic may move out of the buffer.
\<close>

record frame_data =
  fr_mem :: bytes
  fr_packet :: "int option"
  fr_pmem :: bytes
  fr_prefill :: "int option"
  fr_plen :: u16
  fr_proto :: PROTO_STACK_TYPE
  fr_sync :: "frame_sync_ip_tcp option"
  fr_state :: "if_ip_sctp_meta option"

definition in_buf :: "int \<Rightarrow> nat option" where
  "in_buf p = (if 0 \<le> p then Some (nat p) else None)"

section \<open>Images\<close>

definition enc_mac :: "mac_hdr \<Rightarrow> bytes" where
  "enc_mac x = mac_mac x @ word_bytes 2 (mac_type x)"

definition dec_mac :: "bytes \<Rightarrow> mac_hdr" where
  "dec_mac bs = \<lparr>mac_mac = take 12 bs, mac_type = bytes_word (take 2 (drop 12 bs))\<rparr>"

text \<open>The two bit fields share the first byte; \<open>ihl\<close> is its low half.\<close>

definition enc_ipv4 :: "ipv4_hdr \<Rightarrow> bytes" where
  "enc_ipv4 x = [ucast (ip_ihl x) OR push_bit 4 (ucast (ip_ver x)), ip_tos x] @ word_bytes 2 (ip_len x)
     @ word_bytes 2 (ip_indent x) @ word_bytes 2 (ip_offset x) @ [ip_ttl x, ip_proto x]
     @ word_bytes 2 (ip_check x) @ word_bytes 4 (ip_src_addr x) @ word_bytes 4 (ip_dest_addr x)"

definition dec_ipv4 :: "bytes \<Rightarrow> ipv4_hdr" where
  "dec_ipv4 bs = \<lparr>ip_ihl = ucast (bs ! 0), ip_ver = ucast (drop_bit 4 (bs ! 0)), ip_tos = bs ! 1,
     ip_len = bytes_word (take 2 (drop 2 bs)), ip_indent = bytes_word (take 2 (drop 4 bs)),
     ip_offset = bytes_word (take 2 (drop 6 bs)), ip_ttl = bs ! 8, ip_proto = bs ! 9,
     ip_check = bytes_word (take 2 (drop 10 bs)), ip_src_addr = bytes_word (take 4 (drop 12 bs)),
     ip_dest_addr = bytes_word (take 4 (drop 16 bs))\<rparr>"

definition enc_tcp :: "tcp_hdr \<Rightarrow> bytes" where
  "enc_tcp x = word_bytes 2 (tcp_srcp x) @ word_bytes 2 (tcp_dstp x) @ word_bytes 4 (tcp_seq x)
     @ word_bytes 4 (tcp_ack x) @ word_bytes 2 (tcp_flags x) @ word_bytes 2 (tcp_win x)
     @ word_bytes 2 (tcp_check x) @ word_bytes 2 (tcp_urgent x)"

definition dec_tcp :: "bytes \<Rightarrow> tcp_hdr" where
  "dec_tcp bs = \<lparr>tcp_srcp = bytes_word (take 2 bs), tcp_dstp = bytes_word (take 2 (drop 2 bs)),
     tcp_seq = bytes_word (take 4 (drop 4 bs)), tcp_ack = bytes_word (take 4 (drop 8 bs)),
     tcp_flags = bytes_word (take 2 (drop 12 bs)), tcp_win = bytes_word (take 2 (drop 14 bs)),
     tcp_check = bytes_word (take 2 (drop 16 bs)), tcp_urgent = bytes_word (take 2 (drop 18 bs))\<rparr>"

definition enc_pseudo :: "pseudo_header \<Rightarrow> bytes" where
  "enc_pseudo x = word_bytes 4 (psh_source_address x) @ word_bytes 4 (psh_dest_address x)
     @ [psh_placeholder x, psh_protocol x] @ word_bytes 2 (psh_tcp_length x)"

definition enc_udp :: "udp_hdr \<Rightarrow> bytes" where
  "enc_udp x = word_bytes 2 (udp_srcp x) @ word_bytes 2 (udp_dstp x) @ word_bytes 2 (udp_len x) @ word_bytes 2 (udp_sum x)"

definition enc_cmn :: "sctp_common_hdr \<Rightarrow> bytes" where
  "enc_cmn x = word_bytes 2 (cmn_srcp x) @ word_bytes 2 (cmn_dstp x) @ word_bytes 4 (cmn_tag x) @ word_bytes 4 (cmn_check x)"

definition dec_cmn :: "bytes \<Rightarrow> sctp_common_hdr" where
  "dec_cmn bs = \<lparr>cmn_srcp = bytes_word (take 2 bs), cmn_dstp = bytes_word (take 2 (drop 2 bs)),
     cmn_tag = bytes_word (take 4 (drop 4 bs)), cmn_check = bytes_word (take 4 (drop 8 bs))\<rparr>"

definition enc_fld :: "sctp_fld_hdr \<Rightarrow> bytes" where
  "enc_fld x = [fld_type x, fld_flags x] @ word_bytes 2 (fld_len x)"

definition dec_fld :: "bytes \<Rightarrow> sctp_fld_hdr" where
  "dec_fld bs = \<lparr>fld_type = bs ! 0, fld_flags = bs ! 1, fld_len = bytes_word (take 2 (drop 2 bs))\<rparr>"

definition enc_init :: "sctp_init_hdr \<Rightarrow> bytes" where
  "enc_init x = word_bytes 4 (init_tag x) @ word_bytes 4 (init_a_rwnd x) @ word_bytes 2 (init_os x)
     @ word_bytes 2 (init_mis x) @ word_bytes 4 (init_tsn x)"

definition dec_init :: "bytes \<Rightarrow> sctp_init_hdr" where
  "dec_init bs = \<lparr>init_tag = bytes_word (take 4 bs), init_a_rwnd = bytes_word (take 4 (drop 4 bs)),
     init_os = bytes_word (take 2 (drop 8 bs)), init_mis = bytes_word (take 2 (drop 10 bs)),
     init_tsn = bytes_word (take 4 (drop 12 bs))\<rparr>"

definition enc_data :: "sctp_data_hdr \<Rightarrow> bytes" where
  "enc_data x = word_bytes 4 (data_tsn x) @ word_bytes 2 (data_so x) @ word_bytes 2 (data_sn x) @ word_bytes 4 (data_proto_def x)"

definition dec_data :: "bytes \<Rightarrow> sctp_data_hdr" where
  "dec_data bs = \<lparr>data_tsn = bytes_word (take 4 bs), data_so = bytes_word (take 2 (drop 4 bs)),
     data_sn = bytes_word (take 2 (drop 6 bs)), data_proto_def = bytes_word (take 4 (drop 8 bs))\<rparr>"

definition enc_par :: "sctp_parameter \<Rightarrow> bytes" where
  "enc_par x = word_bytes 2 (par_type x) @ word_bytes 2 (par_len x)"

definition dec_par :: "bytes \<Rightarrow> sctp_parameter" where
  "dec_par bs = \<lparr>par_type = bytes_word (take 2 bs), par_len = bytes_word (take 2 (drop 2 bs))\<rparr>"

definition enc_cookie :: "cookie \<Rightarrow> bytes" where
  "enc_cookie x = word_bytes 4 (ck_ver_tag x) @ word_bytes 4 (ck_init_tag x) @ word_bytes 4 (ck_a_rwnd x)
     @ word_bytes 2 (ck_os x) @ word_bytes 2 (ck_mis x) @ word_bytes 4 (ck_tsn x) @ word_bytes 4 (ck_dst_tsn x)
     @ word_bytes 4 (ck_src_ip x) @ word_bytes 4 (ck_dst_ip x) @ word_bytes 4 (ck_src_port x) @ word_bytes 4 (ck_dst_port x)"

definition dec_cookie :: "bytes \<Rightarrow> cookie" where
  "dec_cookie bs = \<lparr>ck_ver_tag = bytes_word (take 4 bs), ck_init_tag = bytes_word (take 4 (drop 4 bs)),
     ck_a_rwnd = bytes_word (take 4 (drop 8 bs)), ck_os = bytes_word (take 2 (drop 12 bs)),
     ck_mis = bytes_word (take 2 (drop 14 bs)), ck_tsn = bytes_word (take 4 (drop 16 bs)),
     ck_dst_tsn = bytes_word (take 4 (drop 20 bs)), ck_src_ip = bytes_word (take 4 (drop 24 bs)),
     ck_dst_ip = bytes_word (take 4 (drop 28 bs)), ck_src_port = bytes_word (take 4 (drop 32 bs)),
     ck_dst_port = bytes_word (take 4 (drop 36 bs))\<rparr>"

lemma enc_lengths [simp, mem_simps]:
  "length (enc_ipv4 ip) = 20" "length (enc_tcp tcp) = 20" "length (enc_pseudo psh) = 12" "length (enc_udp udp) = 8"
  "length (enc_cmn cmn) = 12" "length (enc_fld fld) = 4" "length (enc_init ini) = 16" "length (enc_data dat) = 12"
  "length (enc_par par) = 4" "length (enc_cookie ck) = 40"
  by (simp_all add: enc_ipv4_def enc_tcp_def enc_pseudo_def enc_udp_def enc_cmn_def enc_fld_def enc_init_def
      enc_data_def enc_par_def enc_cookie_def)

section \<open>The layout interface\<close>

definition load :: "(bytes \<Rightarrow> 'h) \<Rightarrow> nat \<Rightarrow> bytes \<Rightarrow> nat \<Rightarrow> 'h option" where
  "load dec sz buf off = map_option dec (mread buf off sz)"

locale byte_layout =
  fixes enc :: "'h \<Rightarrow> bytes"
    and dec :: "bytes \<Rightarrow> 'h"
    and sz :: nat
    and wf :: "'h \<Rightarrow> bool"
  assumes enc_length: "wf x \<Longrightarrow> length (enc x) = sz"
    and dec_enc: "wf x \<Longrightarrow> dec (enc x) = x"
begin

lemma load_store:
  assumes "wf x" "mwrite buf off (enc x) = Some buf'"
  shows "load dec sz buf' off = Some x"
  using assms mread_splice_same [of off "enc x" buf] enc_length [of x] dec_enc [of x]
  by (auto simp: load_def mwrite_eq_Some)

lemma load_store_other:
  assumes "mwrite buf off d = Some buf'" "off' + sz \<le> off \<or> off + length d \<le> off'"
  shows "load dec sz buf' off' = load dec sz buf off'"
  using assms mread_splice_other [of off d buf off' sz] by (auto simp: load_def mwrite_eq_Some)

lemma enc_inj: "wf x \<Longrightarrow> wf y \<Longrightarrow> enc x = enc y \<Longrightarrow> x = y"
  by (metis dec_enc)

end

lemma nibbles: "ucast (ucast (a :: 4 word) OR push_bit 4 (ucast (b :: 4 word)) :: u8) = a"
  "ucast (drop_bit 4 (ucast (a :: 4 word) :: u8) OR drop_bit 4 (push_bit 4 (ucast (b :: 4 word)))) = b"
  by (rule bit_word_eqI, auto simp: bit_simps dest: bit_imp_le_length)+

interpretation mac: byte_layout enc_mac dec_mac 14 "\<lambda>x. length (mac_mac x) = 12"
  by unfold_locales (auto simp: enc_mac_def dec_mac_def)

interpretation ipv4: byte_layout enc_ipv4 dec_ipv4 20 "\<lambda>_. True"
  by unfold_locales (simp_all add: enc_ipv4_def dec_ipv4_def nibbles nth_append)

interpretation tcp: byte_layout enc_tcp dec_tcp 20 "\<lambda>_. True"
  by unfold_locales (simp_all add: enc_tcp_def dec_tcp_def)

interpretation cmn: byte_layout enc_cmn dec_cmn 12 "\<lambda>_. True"
  by unfold_locales (simp_all add: enc_cmn_def dec_cmn_def)

interpretation fld: byte_layout enc_fld dec_fld 4 "\<lambda>_. True"
  by unfold_locales (simp_all add: enc_fld_def dec_fld_def)

interpretation ini: byte_layout enc_init dec_init 16 "\<lambda>_. True"
  by unfold_locales (simp_all add: enc_init_def dec_init_def)

interpretation dat: byte_layout enc_data dec_data 12 "\<lambda>_. True"
  by unfold_locales (simp_all add: enc_data_def dec_data_def)

interpretation par: byte_layout enc_par dec_par 4 "\<lambda>_. True"
  by unfold_locales (simp_all add: enc_par_def dec_par_def)

interpretation cookie: byte_layout enc_cookie dec_cookie 40 "\<lambda>_. True"
  by unfold_locales (simp_all add: enc_cookie_def dec_cookie_def)

end
