(* ===== verification/Checks.thy ===== *)
theory Checks
  imports Crc32c Headers
begin

unbundle bit_operations_syntax

text \<open>
  Checksums of frames (\<^verbatim>\<open>include/checks.h\<close>): \<^verbatim>\<open>src/ip_checksum.c\<close>, \<^verbatim>\<open>src/tcp_checksum.c\<close>, the
  functions that fill checksums in (\<^verbatim>\<open>src/fix_check*.c\<close>) and \<^verbatim>\<open>src/sctp_check_checksums.c\<close>, the first
  check of every received frame. The two loops of 16-bit additions are shown to compute the ones'
  complement sum \<open>osum\<close> of RFC 1071.
\<close>

section \<open>Sums\<close>

text \<open>\<open>off\<close> is the position of the data pointer in the buffer.\<close>

fun ip_sum :: "bytes \<Rightarrow> nat \<Rightarrow> nat \<Rightarrow> u32 \<Rightarrow> u32 option" where
  "ip_sum bs off 0 sm = Some sm"
| "ip_sum bs off (Suc n) sm =
     do { w \<leftarrow> get_u16 bs off;
          let sm = sm + ucast w;
              sm = (if sm > 0xFFFF then (sm AND 0xFFFF) + drop_bit 16 sm else sm)
          in ip_sum bs (off + 2) n sm }"

definition ip_checksum :: "bytes \<Rightarrow> nat \<Rightarrow> u16 \<Rightarrow> u32 option" where
  "ip_checksum data off len = ip_sum data off (unat len div 2) 0"

fun tcp_sum :: "bytes \<Rightarrow> nat \<Rightarrow> nat \<Rightarrow> u32 \<Rightarrow> u32 option" where
  "tcp_sum bs off (Suc (Suc n)) sm = do { w \<leftarrow> get_u16 bs off; tcp_sum bs (off + 2) n (sm + ucast w) }"
| "tcp_sum bs off (Suc 0) sm = do { b \<leftarrow> get_u8 bs off; Some (sm + ucast b) }"
| "tcp_sum bs off 0 sm = Some sm"

lemma fold_carry_less:
  assumes "drop_bit 16 (sm :: u32) \<noteq> 0"
  shows "unat ((sm AND 0xFFFF) + drop_bit 16 sm) < unat sm"
proof -
  have m: "(0xFFFF :: u32) = mask 16" by (simp add: mask_eq_exp_minus_1)
  have lo: "unat (sm AND 0xFFFF) = unat sm mod 2 ^ 16" unfolding m by (rule unat_and_mask)
  have hi: "unat (drop_bit 16 sm) = unat sm div 2 ^ 16" by (rule unat_drop_bit_div)
  have b: "unat sm < 2 ^ 32" using unsigned_less [of sm, where ?'a = nat] by simp
  obtain q where q: "q = unat sm div 2 ^ 16" by simp
  obtain r where r: "r = unat sm mod 2 ^ 16" by simp
  have "q * 65536 + r = unat sm" using div_mult_mod_eq [of "unat sm" "2 ^ 16"] by (simp add: q r)
  moreover have "0 < q" using assms hi by (metis gr0I unat_eq_0 q)
  ultimately have "r + q < unat sm" by linarith
  then have "unat sm mod 2 ^ 16 + unat sm div 2 ^ 16 < unat sm" by (simp only: q r)
  moreover from this b have "unat ((sm AND 0xFFFF) + drop_bit 16 sm) = unat sm mod 2 ^ 16 + unat sm div 2 ^ 16"
    by (simp add: unat_word_ariths lo hi)
  ultimately show ?thesis by simp
qed

function fold_carry :: "u32 \<Rightarrow> u32" where
  "fold_carry sm = (if drop_bit 16 sm \<noteq> 0 then fold_carry ((sm AND 0xFFFF) + drop_bit 16 sm) else sm)"
  by pat_completeness auto
termination by (relation "measure unat") (auto simp: fold_carry_less)

declare fold_carry.simps [simp del]

definition tcp_checksum :: "bytes \<Rightarrow> nat \<Rightarrow> u64 \<Rightarrow> u16 option" where
  "tcp_checksum bs off nbytes =
     do { sm \<leftarrow> tcp_sum bs off (unat nbytes) 0; Some (ucast (NOT (fold_carry sm))) }"

section \<open>Filling checksums in\<close>

definition fix_check_ip :: "frame_data \<Rightarrow> u16 \<Rightarrow> frame_data option" where
  "fix_check_ip frame opt_len =
     (case fr_packet frame of
        None \<Rightarrow> Some frame
      | Some p \<Rightarrow>
          do { ip \<leftarrow> in_buf p;
               m1 \<leftarrow> put_u16 (fr_mem frame) (ip + 10) 0;
               c \<leftarrow> ip_checksum m1 ip (20 + opt_len);
               m2 \<leftarrow> put_u16 m1 (ip + 10) (ucast c);
               Some (frame\<lparr>fr_mem := m2\<rparr>) })"

definition fix_check_ip_sctp :: "frame_data \<Rightarrow> u16 \<Rightarrow> frame_data option" where
  "fix_check_ip_sctp frame frm_max_len =
     (case fr_packet frame of
        None \<Rightarrow> Some frame
      | Some p \<Rightarrow>
          do { ip \<leftarrow> in_buf (p - (int (unat frm_max_len) - int (unat (fr_plen frame))) + 14);
               m1 \<leftarrow> put_u16 (fr_mem frame) (ip + 2) (htons (1516 - fr_plen frame - 14));
               m2 \<leftarrow> put_u16 m1 (ip + 10) 0;
               c \<leftarrow> ip_checksum m2 ip 20;
               m3 \<leftarrow> put_u16 m2 (ip + 10) (NOT (ucast c));
               len \<leftarrow> get_u16 m3 (ip + 20 + 14);
               crc \<leftarrow> generate_crc32c (drop (ip + 20) m3) (12 + ucast (ntohs len));
               m4 \<leftarrow> put_u32 m3 (ip + 20 + 8) crc;
               Some (frame\<lparr>fr_mem := m4\<rparr>) })"

text \<open>The temporary buffer of pseudo header and TCP header is malloc'ed, which is taken to succeed.\<close>

definition fix_check_ip_tcp :: "frame_data \<Rightarrow> u16 \<Rightarrow> frame_data option" where
  "fix_check_ip_tcp frame frm_max_len =
     (case fr_packet frame of
        None \<Rightarrow> Some frame
      | Some p \<Rightarrow>
          do { ip \<leftarrow> in_buf (p - (int (unat frm_max_len) - int (unat (fr_plen frame))) + 14);
               let tcp = ip + 20 in
               do { m \<leftarrow>
                      (case fr_sync frame of
                         Some sync \<Rightarrow>
                           do { l \<leftarrow> get_u16 (fr_mem frame) (ip + 2);
                                let chk = sy_ip_check_part sync + ucast l;
                                    chk = (if chk > 0xFFFF then (chk AND 0xFFFF) + drop_bit 16 chk else chk)
                                in put_u16 (fr_mem frame) (ip + 10) (NOT (ucast chk)) }
                       | None \<Rightarrow>
                           do { m1 \<leftarrow> put_u16 (fr_mem frame) (ip + 10) 0;
                                c \<leftarrow> ip_checksum m1 ip 20;
                                put_u16 m1 (ip + 10) (NOT (ucast c)) });
                    src \<leftarrow> get_u32 m (ip + 12);
                    dst \<leftarrow> get_u32 m (ip + 16);
                    flags \<leftarrow> get_u16 m (tcp + 12);
                    let psh = \<lparr>psh_source_address = src, psh_dest_address = dst, psh_placeholder = 0,
                               psh_protocol = IPPROTO_TCP, psh_tcp_length = htons 20\<rparr>;
                        offset = unat (drop_bit 12 (ntohs flags) AND 0xF) * 4
                    in do { hdr \<leftarrow> mread m tcp offset;
                            c \<leftarrow> tcp_checksum (enc_pseudo psh @ hdr) 0 (of_nat (12 + offset));
                            m' \<leftarrow> put_u16 m (tcp + 16) c;
                            Some (frame\<lparr>fr_mem := m'\<rparr>) } } })"

definition fix_check :: "frame_data \<Rightarrow> frame_data option" where
  "fix_check frame = (if fr_proto frame = PROTO_STACK_IP_TCP then fix_check_ip_tcp frame 0 else Some frame)"

section \<open>Verification of a received frame\<close>

definition sctp_check_checksums :: "bytes \<Rightarrow> u64 \<Rightarrow> (bytes \<times> i64) option" where
  "sctp_check_checksums packet plen =
     (if plen < 14 + 20 + 12 then Some (packet, -1)
      else
        do { check_ip \<leftarrow> get_u16 packet (14 + 10);
             p1 \<leftarrow> put_u16 packet (14 + 10) 0;
             c \<leftarrow> ip_checksum p1 14 20;
             if check_ip \<noteq> NOT (ucast c) then Some (p1, -1)
             else
               do { p2 \<leftarrow> put_u16 p1 (14 + 10) check_ip;
                    len \<leftarrow> get_u16 p2 (14 + 2);
                    if unat (ntohs len) < 20 + 12 + 4 then Some (p2, -1)
                    else
                      do { fl \<leftarrow> get_u16 p2 (34 + 14);
                           _ \<leftarrow> generate_crc32c_on_crc32c (drop 34 p2) (12 + ucast (ntohs fl)) 0xFFFFFFFF;
                           check_sctp \<leftarrow> get_u32 p2 (34 + 8);
                           p3 \<leftarrow> put_u32 p2 (34 + 8) 0;
                           fl' \<leftarrow> get_u16 p3 (34 + 14);
                           crc \<leftarrow> generate_crc32c_on_crc32c (drop 34 p3) (12 + ucast (ntohs fl')) 0xFFFFFFFF;
                           if check_sctp \<noteq> NOT (ucast crc) then Some (p3, -1)
                           else do { p4 \<leftarrow> put_u32 p3 (34 + 8) check_sctp; Some (p4, 0) } } } })"

section \<open>The ones' complement sum\<close>

text \<open>\<open>ones s\<close> is the representative of \<open>s\<close> modulo 65535 that is 0 only for 0.\<close>

definition ones :: "nat \<Rightarrow> nat" where
  "ones s = (if s = 0 then 0 else (s - 1) mod 65535 + 1)"

fun osum :: "bytes \<Rightarrow> nat" where
  "osum (b0 # b1 # bs) = unat b0 + 256 * unat b1 + osum bs"
| "osum [b0] = unat b0"
| "osum [] = 0"

lemma ones_le: "ones s \<le> 65535"
  using mod_less_divisor [of 65535 "s - 1"] by (auto simp: ones_def)

lemma ones_small: "s \<le> 65535 \<Longrightarrow> ones s = s"
  by (simp add: ones_def)

lemma ones_eqI:
  assumes "v \<le> 65535" "v mod 65535 = s mod 65535" "v = 0 \<longleftrightarrow> s = 0"
  shows "ones s = v"
proof (cases "s = 0")
  case False
  then have "0 < v" using assms(3) by simp
  have "int v mod 65535 = int s mod 65535" using assms(2) by (metis of_nat_mod of_nat_numeral)
  then have "(int v - 1) mod 65535 = (int s - 1) mod 65535" by (intro mod_diff_cong) simp_all
  then have "int ((v - 1) mod 65535) = int ((s - 1) mod 65535)"
    using False \<open>0 < v\<close> by (simp add: of_nat_mod of_nat_diff)
  then have "(v - 1) mod 65535 = (s - 1) mod 65535" by (simp only: of_nat_eq_iff)
  then show ?thesis using False assms(1) \<open>0 < v\<close> by (simp add: ones_def)
qed (use assms in \<open>simp add: ones_def\<close>)

lemma ones_mod: "ones s mod 65535 = s mod 65535"
proof (cases "s = 0")
  case False
  then have "ones s mod 65535 = ((s - 1) + 1) mod 65535" by (simp add: ones_def mod_Suc_eq)
  then show ?thesis using False by simp
qed (simp add: ones_def)

lemma ones_0 [simp]: "ones 0 = 0"
  by (simp add: ones_def)

lemma ones_eq_0 [simp]: "ones s = 0 \<longleftrightarrow> s = 0"
  by (simp add: ones_def)

text \<open>One addition with end-around carry.\<close>

definition carry16 :: "nat \<Rightarrow> nat" where
  "carry16 x = (if x > 65535 then x mod 65536 + x div 65536 else x)"

lemma carry16_mod: "carry16 x mod 65535 = x mod 65535"
proof -
  obtain q where q: "q = x div 65536" by simp
  obtain r where r: "r = x mod 65536" by simp
  have "x = q * 65536 + r" using div_mult_mod_eq [of x 65536] by (simp only: q r)
  then have "x = (r + q) + 65535 * q" by linarith
  then have "x mod 65535 = (r + q) mod 65535" by (simp only: mod_mult_self2)
  then show ?thesis unfolding carry16_def q [symmetric] r [symmetric] by presburger
qed

lemma ones_add_carry:
  assumes "w \<le> 65535"
  shows "carry16 (ones s + w) = ones (s + w)"
proof (rule ones_eqI [symmetric])
  have le: "ones s + w < 2 * 65536" using ones_le [of s] assms by linarith
  then show "carry16 (ones s + w) \<le> 65535"
    using ones_le [of s] assms mod_if [of "ones s + w" 65536] by (auto simp: carry16_def div_if)
  show "carry16 (ones s + w) mod 65535 = (s + w) mod 65535"
    by (simp add: carry16_mod ones_mod mod_add_left_eq [symmetric, of s]) (metis mod_add_left_eq ones_mod)
  show "carry16 (ones s + w) = 0 \<longleftrightarrow> s + w = 0"
    using div_greater_zero_iff [of "ones s + w" 65536] by (auto simp: carry16_def)
qed

lemma carry_word:
  assumes "unat (x :: u32) < 2 ^ 32 - 2 ^ 16"
  shows "unat (if x > 0xFFFF then (x AND 0xFFFF) + drop_bit 16 x else x) = carry16 (unat x)"
proof -
  have m: "(0xFFFF :: u32) = mask 16" by (simp add: mask_eq_exp_minus_1)
  have lo: "unat (x AND 0xFFFF) = unat x mod 65536" unfolding m using unat_and_mask [of x 16] by simp
  have hi: "unat (drop_bit 16 x) = unat x div 65536" using unat_drop_bit_div [of 16 x] by simp
  have "unat x mod 65536 + unat x div 65536 < 2 ^ 32"
    using mod_less_divisor [of 65536 "unat x"] div_le_dividend [of "unat x" 65536] assms by linarith
  then have "unat ((x AND 0xFFFF) + drop_bit 16 x) = unat x mod 65536 + unat x div 65536"
    by (simp add: unat_word_ariths lo hi)
  then show ?thesis by (simp add: carry16_def word_less_nat_alt)
qed

lemma osum_append2: "even (length xs) \<Longrightarrow> osum (xs @ ys) = osum xs + osum ys"
  by (induction xs rule: osum.induct) auto

lemma get_u16_unat:
  assumes "off + 2 \<le> length bs"
  shows "\<exists>w. get_u16 bs off = Some w \<and> unat w = osum (take 2 (drop off bs))"
proof -
  have "2 \<le> length (drop off bs)" using assms by simp
  then obtain b0 b1 cs where "drop off bs = b0 # b1 # cs"
    by (cases "drop off bs"; cases "tl (drop off bs)") auto
  then have t: "take 2 (drop off bs) = [b0, b1]" by simp
  have "unat (ucast b0 OR push_bit 8 (ucast b1) :: u16) = unat b0 + 256 * unat b1"
  proof -
    have "(ucast b0 OR push_bit 8 (ucast b1) :: u16) = ucast b0 + push_bit 8 (ucast b1)"
      by (rule disjunctive_add [symmetric]) (auto simp: bit_simps dest: bit_imp_le_length)
    moreover have "unat b0 < 256" "unat b1 < 256"
      using unsigned_less [of b0, where ?'a = nat] unsigned_less [of b1, where ?'a = nat] by simp_all
    moreover have "unat (ucast b0 :: u16) = unat b0" "unat (ucast b1 :: u16) = unat b1" by (intro unat_ucast_up; simp)+
    ultimately show ?thesis by (simp add: push_bit_eq_mult unat_word_ariths)
  qed
  then show ?thesis using assms t by (simp add: get_word_in)
qed

lemma ip_sum_ones:
  assumes "off + 2 * n \<le> length bs" "unat s0 = ones k"
  shows "\<exists>r. ip_sum bs off n s0 = Some r \<and> unat r = ones (k + osum (take (2 * n) (drop off bs)))"
  using assms
proof (induction n arbitrary: off s0 k)
  case 0
  then show ?case by simp
next
  case (Suc n)
  obtain w where w: "get_u16 bs off = Some w" "unat w = osum (take 2 (drop off bs))"
    using get_u16_unat [of off bs] Suc.prems(1) by auto
  have wl: "unat w \<le> 65535" using unsigned_less [of w, where ?'a = nat] by simp
  have u: "unat (ucast w :: u32) = unat w" by (intro unat_ucast_up) simp
  let ?x = "s0 + ucast w"
  have x: "unat ?x = ones k + unat w" using Suc.prems(2) u wl ones_le [of k] by (simp add: unat_word_ariths)
  let ?s1 = "if ?x > 0xFFFF then (?x AND 0xFFFF) + drop_bit 16 ?x else ?x"
  have "unat ?s1 = carry16 (unat ?x)" using x wl ones_le [of k] by (intro carry_word) simp
  then have s1: "unat ?s1 = ones (k + unat w)" using x ones_add_carry [OF wl, of k] by simp
  have "2 * Suc n = 2 + 2 * n" by simp
  then have "take (2 * Suc n) (drop off bs) = take 2 (drop off bs) @ take (2 * n) (drop (off + 2) bs)"
    by (simp only: take_add drop_drop add.commute)
  then have "osum (take (2 * Suc n) (drop off bs)) = unat w + osum (take (2 * n) (drop (off + 2) bs))"
    using w(2) Suc.prems(1) osum_append2 [of "take 2 (drop off bs)"] by simp
  with Suc.IH [of "off + 2" ?s1 "k + unat w"] s1 w(1) Suc.prems(1) show ?case
    by (simp add: Let_def add.assoc)
qed

lemma ip_checksum_ones:
  assumes "off + unat len \<le> length data" "even (unat len)"
  shows "\<exists>r. ip_checksum data off len = Some r \<and> unat r = ones (osum (take (unat len) (drop off data)))"
  using ip_sum_ones [of off "unat len div 2" data 0 0] assms by (simp add: ip_checksum_def)

lemma ones_cong: "s mod 65535 = t mod 65535 \<Longrightarrow> (s = 0 \<longleftrightarrow> t = 0) \<Longrightarrow> ones s = ones t"
  by (rule ones_eqI) (simp_all add: ones_le ones_mod)

lemma fold_carry_ones: "unat (fold_carry x) = ones (unat x)"
proof (induction x rule: fold_carry.induct)
  case (1 x)
  have m: "(0xFFFF :: u32) = mask 16" by (simp add: mask_eq_exp_minus_1)
  have lo: "unat (x AND 0xFFFF) = unat x mod 65536" unfolding m using unat_and_mask [of x 16] by simp
  have hi: "unat (drop_bit 16 x) = unat x div 65536" using unat_drop_bit_div [of 16 x] by simp
  show ?case
  proof (cases "drop_bit 16 x = 0")
    case True
    then have "unat x div 65536 = 0" using hi by simp
    then show ?thesis using True by (subst fold_carry.simps) (simp add: ones_small div_eq_0_iff)
  next
    case False
    let ?y = "(x AND 0xFFFF) + drop_bit 16 x"
    have q: "0 < unat x div 65536" using False hi by (metis gr0I unat_eq_0)
    have b: "unat x < 2 ^ 32" using unsigned_less [of x, where ?'a = nat] by simp
    then have "unat x div 65536 < 65536" by (simp add: div_less_iff_less_mult)
    moreover have "unat x mod 65536 < 65536" by simp
    ultimately have y: "unat ?y = unat x mod 65536 + unat x div 65536" by (simp add: unat_word_ariths lo hi)
    have g: "unat x > 65535" using q div_greater_zero_iff [of "unat x" 65536] by simp
    then have "unat ?y = carry16 (unat x)" by (simp add: y carry16_def)
    moreover have "unat ?y \<noteq> 0" using y q by simp
    ultimately have "ones (unat ?y) = ones (unat x)" using g by (intro ones_cong) (simp_all add: carry16_mod)
    then show ?thesis using 1 False by (subst fold_carry.simps) simp
  qed
qed

lemma unat_u16_le: "unat (w :: u16) \<le> 65535" and unat_u8_le: "unat (b :: u8) \<le> 255"
  using unsigned_less [of w, where ?'a = nat] unsigned_less [of b, where ?'a = nat] by simp_all

lemma tcp_sum_osum:
  assumes "off + n \<le> length bs" "unat s0 + 65535 * ((n + 1) div 2) < 2 ^ 32"
  shows "\<exists>r. tcp_sum bs off n s0 = Some r \<and> unat r = unat s0 + osum (take n (drop off bs))"
  using assms
proof (induction bs off n s0 rule: tcp_sum.induct)
  case (1 bs off n s0)
  obtain w where w: "get_u16 bs off = Some w" "unat w = osum (take 2 (drop off bs))"
    using get_u16_unat [of off bs] 1(2) by auto
  have u: "unat (ucast w :: u32) = unat w" by (intro unat_ucast_up) simp
  have h: "(Suc (Suc n) + 1) div 2 = Suc ((n + 1) div 2)" by simp
  have s1: "unat (s0 + ucast w) = unat s0 + unat w"
    using 1(3) unat_u16_le [of w] u unfolding h by (simp add: unat_word_ariths)
  have "take (Suc (Suc n)) (drop off bs) = take 2 (drop off bs) @ take n (drop (off + 2) bs)"
    using take_add [of 2 n "drop off bs"] by (simp add: add.commute)
  then have "osum (take (Suc (Suc n)) (drop off bs)) = unat w + osum (take n (drop (off + 2) bs))"
    using w(2) 1(2) osum_append2 [of "take 2 (drop off bs)"] by simp
  moreover have "unat (s0 + ucast w) + 65535 * ((n + 1) div 2) < 2 ^ 32"
    using 1(3) unat_u16_le [of w] unfolding h s1 by simp
  ultimately show ?case using 1(1) [OF w(1)] 1(2) w(1) s1 by (simp add: add.assoc)
next
  case (2 bs off s0)
  then have "drop off bs \<noteq> []" by simp
  then obtain b cs where d: "drop off bs = b # cs" by (cases "drop off bs") auto
  have "get_u8 bs off = Some b" using 2(1) d by (simp add: get_word_in)
  moreover have "unat (ucast b :: u32) = unat b" by (intro unat_ucast_up) simp
  ultimately show ?case using 2(2) d unat_u8_le [of b] by (simp add: unat_word_ariths)
qed simp

lemma ucast_of_unat: "(ucast (x :: 'a::len word) :: 'b::len word) = of_nat (unat x)"
  by (simp add: unsigned_eq_0_iff word_eq_iff_unsigned unsigned_ucast_eq unsigned_of_nat)

lemma tcp_checksum_sum:
  assumes "off + unat n \<le> length bs" "unat n \<le> 131072"
  shows "tcp_checksum bs off n = Some (NOT (of_nat (ones (osum (take (unat n) (drop off bs))))))"
proof -
  have "(unat n + 1) div 2 \<le> 65536" using assms(2) by (simp add: div_le_mono [of _ 131073, simplified])
  then have "unat (0 :: u32) + 65535 * ((unat n + 1) div 2) < 2 ^ 32" by simp
  from tcp_sum_osum [OF assms(1) this] obtain r where r: "tcp_sum bs off (unat n) 0 = Some r"
      "unat r = osum (take (unat n) (drop off bs))" by auto
  have "(ucast (NOT (fold_carry r)) :: u16) = NOT (ucast (fold_carry r))"
    by (rule bit_word_eqI) (simp add: bit_simps)
  also have "(ucast (fold_carry r) :: u16) = of_nat (ones (osum (take (unat n) (drop off bs))))"
    using fold_carry_ones [of r] r(2) ucast_of_unat [of "fold_carry r"] by simp
  finally show ?thesis using r(1) by (simp add: tcp_checksum_def)
qed

text \<open>
  C31. \<^verbatim>\<open>tcp_checksum\<close> is the Internet checksum of RFC 1071, the complement of the ones' complement sum of
  the 16-bit words (an odd last byte being the low half of a word), on every buffer of up to 128 KiB:
  the 32-bit accumulator, which is folded only at the end, does not overflow before.
\<close>

theorem tcp_checksum_ones:
  assumes "off + unat n \<le> length bs" "unat n \<le> 131072"
  shows "tcp_checksum bs off n = Some (NOT (of_nat (ones (osum (take (unat n) (drop off bs))))))"
  by (rule tcp_checksum_sum [OF assms])

theorem tcp_checksum_ones_witness:
  "tcp_checksum [0xFF, 0xFF, 2, 0, 7] 0 5 = Some (NOT 9)"
proof -
  have "tcp_checksum [0xFF, 0xFF, 2, 0, 7] 0 5 = Some (NOT (of_nat (ones (osum [0xFF, 0xFF, 2, 0, 7]))))"
    using tcp_checksum_ones [of 0 5 "[0xFF, 0xFF, 2, 0, 7]"] by simp
  then show ?thesis by (simp add: ones_def)
qed

section \<open>What a valid frame is\<close>

text \<open>
  The fields of a received frame: Ethernet header at 0, IPv4 header at 14 (total length at 16, checksum at
  24), SCTP common header at 34 (CRC at 42), first chunk header at 46 (chunk length at 48).
\<close>

definition ip_check_of :: "bytes \<Rightarrow> u16" where
  "ip_check_of p = bytes_word (take 2 (drop 24 p))"

definition ip_len_of :: "bytes \<Rightarrow> nat" where
  "ip_len_of p = unat (ntohs (bytes_word (take 2 (drop 16 p))))"

definition chunk_len_of :: "bytes \<Rightarrow> nat" where
  "chunk_len_of p = unat (ntohs (bytes_word (take 2 (drop 48 p))))"

definition crc_of :: "bytes \<Rightarrow> u32" where
  "crc_of p = bytes_word (take 4 (drop 42 p))"

text \<open>
  RFC 1071: a header with its checksum sums to \<open>0xFFFF\<close>. Of the two representations of zero a sender may
  store, only \<open>0x0000\<close> is taken (unless the rest of the header is all zero).
\<close>

definition ip_header_ok :: "bytes \<Rightarrow> bool" where
  "ip_header_ok p \<longleftrightarrow> ones (osum (take 20 (drop 14 p))) = 65535
     \<and> (ip_check_of p = 0xFFFF \<longrightarrow> osum (take 20 (drop 14 p)) = 65535)"

definition sctp_crc_ok :: "bytes \<Rightarrow> bool" where
  "sctp_crc_ok p \<longleftrightarrow>
     crc_of p = NOT (crc_bytes (take (12 + chunk_len_of p) (drop 34 (splice p 42 (word_bytes 4 (0 :: u32))))) 0xFFFFFFFF)"

definition frame_valid :: "bytes \<Rightarrow> bool" where
  "frame_valid p \<longleftrightarrow> 50 \<le> length p \<and> ip_header_ok p \<and> 36 \<le> ip_len_of p
     \<and> 46 + chunk_len_of p \<le> length p \<and> sctp_crc_ok p"

lemma osum_bytes_word: "length bs = 2 \<Longrightarrow> osum bs = unat (bytes_word bs :: u16)"
  using get_u16_unat [of 0 bs] by (simp add: get_word_in)

lemma splice_split:
  "off + length d \<le> length p \<Longrightarrow> p = splice (splice p off d) off (take (length d) (drop off p))"
  by (rule nth_equalityI) (auto simp: splice_def nth_append min_def)

lemma ip_header_split:
  assumes "34 \<le> length p"
  shows "take 20 (drop 14 p) = take 10 (drop 14 p) @ take 2 (drop 24 p) @ take 8 (drop 26 p)"
    and "take 20 (drop 14 (splice p 24 (word_bytes 2 (0 :: u16)))) = take 10 (drop 14 p) @ [0, 0] @ take 8 (drop 26 p)"
proof -
  have "take (10 + (2 + 8)) (drop 14 p) = take 10 (drop 14 p) @ take 2 (drop 24 p) @ take 8 (drop 26 p)"
    by (simp only: take_add drop_drop) simp
  then show "take 20 (drop 14 p) = take 10 (drop 14 p) @ take 2 (drop 24 p) @ take 8 (drop 26 p)" by simp
  have "drop 14 (take 24 p) = take 10 (drop 14 p)" by (simp add: drop_take)
  then show "take 20 (drop 14 (splice p 24 (word_bytes 2 (0 :: u16)))) = take 10 (drop 14 p) @ [0, 0] @ take 8 (drop 26 p)"
    using assms by (simp add: splice_def word_bytes_numeral)
qed

lemma ones_complement_check:
  assumes "c \<le> 65535"
  shows "c = 65535 - ones s \<longleftrightarrow> ones (s + c) = 65535 \<and> (c = 65535 \<longrightarrow> s = 0)"
proof
  assume c: "c = 65535 - ones s"
  have "(s + c) mod 65535 = (ones s + c) mod 65535" by (metis mod_add_left_eq ones_mod)
  also have "ones s + c = 65535" using c ones_le [of s] by simp
  finally have "ones (s + c) = 65535" using c by (intro ones_eqI) auto
  moreover have "s = 0" if "c = 65535"
  proof -
    have "ones s = 0" using that c ones_le [of s] by linarith
    then show ?thesis by simp
  qed
  ultimately show "ones (s + c) = 65535 \<and> (c = 65535 \<longrightarrow> s = 0)" by simp
next
  assume a: "ones (s + c) = 65535 \<and> (c = 65535 \<longrightarrow> s = 0)"
  have "65535 mod 65535 = (s + c) mod (65535 :: nat)" using ones_mod [of "s + c"] a by metis
  then have "(ones s + c) mod 65535 = 0" by (metis mod_add_left_eq ones_mod mod_self)
  then obtain k where k: "ones s + c = 65535 * k" by (metis dvdE mod_eq_0_iff_dvd)
  have "s + c \<noteq> 0" using a by (metis ones_0 zero_neq_numeral)
  then have "k \<noteq> 0" using k by (cases k) auto
  moreover have "k \<noteq> 2 \<and> k < 3" using k ones_le [of s] a assms by (cases "c = 65535") auto
  ultimately have "k = 1" by linarith
  then show "c = 65535 - ones s" using k by simp
qed

lemma ip_header_ok_cong:
  assumes "take 20 (drop 14 p) = take 20 (drop 14 q)"
  shows "ip_header_ok p = ip_header_ok q"
proof -
  have "take 2 (drop 24 r) = take 2 (drop 10 (take 20 (drop 14 r)))" for r :: bytes by (simp add: drop_take)
  then have "take 2 (drop 24 p) = take 2 (drop 24 q)" using assms by metis
  then show ?thesis using assms by (simp add: ip_header_ok_def ip_check_of_def)
qed

lemma unat_not_u16: "unat (NOT x :: u16) = 65535 - unat x"
proof -
  have "NOT x = -1 - x" by (simp add: not_eq_complement)
  moreover have "x \<le> -1" by simp
  ultimately have "unat (NOT x) = unat (-1 :: u16) - unat x" by (simp only: unat_sub)
  then show ?thesis by (simp add: unsigned_minus_1_eq_mask mask_eq_exp_minus_1)
qed

lemma ip_check_correct:
  assumes "34 \<le> length p"
  shows "\<exists>r. ip_checksum (splice p 24 (word_bytes 2 (0 :: u16))) 14 20 = Some r
    \<and> (ip_check_of p = NOT (ucast r) \<longleftrightarrow> ip_header_ok p)"
proof -
  let ?p1 = "splice p 24 (word_bytes 2 (0 :: u16))"
  let ?s = "osum (take 20 (drop 14 ?p1))"
  obtain r where r: "ip_checksum ?p1 14 20 = Some r" "unat r = ones ?s"
    using ip_checksum_ones [of 14 20 ?p1] assms by auto
  have e: "even (length (take 10 (drop 14 p)))" "even (length (take 2 (drop 24 p)))" "length (take 2 (drop 24 p)) = 2"
    using assms by simp_all
  have h: "osum (take 20 (drop 14 p)) = ?s + unat (ip_check_of p)"
    unfolding ip_header_split [OF assms] ip_check_of_def
    using e osum_bytes_word [OF e(3)] by (simp add: osum_append2)
  have "unat r < 65536" using r(2) ones_le [of ?s] by simp
  then have ru: "unat (ucast r :: u16) = unat r" by (simp add: unsigned_ucast_eq take_bit_nat_eq_self)
  have "ip_check_of p = NOT (ucast r) \<longleftrightarrow> unat (ip_check_of p) = 65535 - ones ?s"
    by (simp only: word_unat_eq_iff unat_not_u16 ru r(2))
  also have "\<dots> \<longleftrightarrow> ones (?s + unat (ip_check_of p)) = 65535 \<and> (unat (ip_check_of p) = 65535 \<longrightarrow> ?s = 0)"
    by (rule ones_complement_check) (rule unat_u16_le)
  also have "unat (ip_check_of p) = 65535 \<longleftrightarrow> ip_check_of p = 0xFFFF"
    by (simp add: word_unat_eq_iff)
  finally have "ip_check_of p = NOT (ucast r) \<longleftrightarrow> ip_header_ok p"
    by (auto simp: ip_header_ok_def h)
  with r(1) show ?thesis by blast
qed

lemma splice_restore:
  assumes "off + n \<le> length p" "length d = n"
  shows "splice (splice p off d) off (take n (drop off p)) = p"
  using splice_split [of off d p] assms by simp

lemma sctp_check_checksums_ip:
  assumes "46 \<le> length p" "plen \<ge> 46"
  shows "sctp_check_checksums p plen =
    (if \<not> ip_header_ok p then Some (splice p 24 (word_bytes 2 (0 :: u16)), -1)
     else if ip_len_of p < 36 then Some (p, -1)
     else do { fl \<leftarrow> get_u16 p 48;
               _ \<leftarrow> generate_crc32c_on_crc32c (drop 34 p) (12 + ucast (ntohs fl)) 0xFFFFFFFF;
               let p3 = splice p 42 (word_bytes 4 (0 :: u32)) in
               do { fl' \<leftarrow> get_u16 p3 48;
                    crc \<leftarrow> generate_crc32c_on_crc32c (drop 34 p3) (12 + ucast (ntohs fl')) 0xFFFFFFFF;
                    if crc_of p \<noteq> NOT (ucast crc) then Some (p3, -1) else Some (p, 0) } })"
proof -
  obtain r where r: "ip_checksum (splice p 24 (word_bytes 2 (0 :: u16))) 14 20 = Some r"
      "ip_check_of p = NOT (ucast r) \<longleftrightarrow> ip_header_ok p"
    using ip_check_correct [of p] assms(1) by auto
  have c: "get_u16 p 24 = Some (ip_check_of p)" "get_u16 p 16 = Some (bytes_word (take 2 (drop 16 p)))" "get_u32 p 42 = Some (crc_of p)"
    using assms(1) by (simp_all add: get_word_in ip_check_of_def crc_of_def)
  have w: "word_bytes 2 (ip_check_of p) = take 2 (drop 24 p)" "word_bytes 4 (crc_of p) = take 4 (drop 42 p)"
    using word_bytes_bytes_word [of "take 2 (drop 24 p)", where 'a = 16] word_bytes_bytes_word [of "take 4 (drop 42 p)", where 'a = 32] assms(1)
    by (simp_all add: ip_check_of_def crc_of_def)
  have b: "splice (splice p 24 (word_bytes 2 (0 :: u16))) 24 (word_bytes 2 (ip_check_of p)) = p"
    "splice (splice p 42 (word_bytes 4 (0 :: u32))) 42 (word_bytes 4 (crc_of p)) = p"
    unfolding w using assms(1) by (intro splice_restore; simp)+
  have q: "put_u32 (splice p 42 (word_bytes 4 (0 :: u32))) (34 + 8) (crc_of p) = Some p"
    using b(2) assms(1) by (simp add: mwrite_def)
  show ?thesis
    using assms r c b q
    by (auto simp: sctp_check_checksums_def mwrite_def ip_len_of_def Let_def not_less word_le_nat_alt word_less_nat_alt cong: if_cong)
qed

lemma sctp_check_checksums_crc:
  assumes "50 \<le> length p" "plen \<ge> 46" "ip_header_ok p" "36 \<le> ip_len_of p" "46 + chunk_len_of p \<le> length p"
  shows "sctp_check_checksums p plen =
    Some (if sctp_crc_ok p then (p, 0) else (splice p 42 (word_bytes 4 (0 :: u32)), -1))"
proof -
  let ?p3 = "splice p 42 (word_bytes 4 (0 :: u32))"
  let ?fl = "bytes_word (take 2 (drop 48 p)) :: u16"
  let ?len = "12 + ucast (ntohs ?fl) :: u32"
  have fl: "get_u16 p 48 = Some ?fl" using assms(1) by (simp add: get_word_in)
  have "get_u16 ?p3 48 = get_u16 p 48" using assms(1) by (intro get_word_splice_other) auto
  then have fl3: "get_u16 ?p3 48 = Some ?fl" using fl by simp
  have "unat (ucast (ntohs ?fl) :: u32) = chunk_len_of p"
    unfolding chunk_len_of_def by (intro unat_ucast_up) simp
  moreover have "chunk_len_of p \<le> 65535" unfolding chunk_len_of_def by (rule unat_u16_le)
  ultimately have len: "unat ?len = 12 + chunk_len_of p" by (simp add: unat_word_ariths)
  have l: "unat ?len \<le> length (drop 34 p)" "unat ?len \<le> length (drop 34 ?p3)"
    using len assms(1,5) by simp_all
  show ?thesis
    using generate_crc32c_on_crc32c_bytes [OF l(1), of "0xFFFFFFFF"] generate_crc32c_on_crc32c_bytes [OF l(2), of "0xFFFFFFFF"]
      sctp_check_checksums_ip [of p plen] assms fl fl3 len
    by (simp add: sctp_crc_ok_def Let_def)
qed

lemma sctp_check_checksums_overrun:
  assumes "46 \<le> length p" "plen \<ge> 46" "ip_header_ok p" "36 \<le> ip_len_of p"
    "length p < 50 \<or> length p < 46 + chunk_len_of p"
  shows "sctp_check_checksums p plen = None"
proof (cases "length p < 50")
  case True
  then have "get_u16 p 48 = None" by (simp add: get_word_None_iff)
  then show ?thesis using sctp_check_checksums_ip [of p plen] assms by simp
next
  case False
  let ?fl = "bytes_word (take 2 (drop 48 p)) :: u16"
  have fl: "get_u16 p 48 = Some ?fl" using False by (simp add: get_word_in)
  have "unat (ucast (ntohs ?fl) :: u32) = chunk_len_of p"
    unfolding chunk_len_of_def by (intro unat_ucast_up) simp
  moreover have "chunk_len_of p \<le> 65535" unfolding chunk_len_of_def by (rule unat_u16_le)
  ultimately have "unat (12 + ucast (ntohs ?fl) :: u32) = 12 + chunk_len_of p" by (simp add: unat_word_ariths)
  then have "length (drop 34 p) < unat (12 + ucast (ntohs ?fl) :: u32)" using assms(5) False by simp
  then show ?thesis
    using generate_crc32c_overrun sctp_check_checksums_ip [of p plen] assms fl by simp
qed

text \<open>A COOKIE_ACK frame as the wire has it, and the same frame with a chunk length of 200.\<close>

definition sample_frame :: bytes where
  "sample_frame = [0, 0, 0, 0, 0, 0, 0, 0, 0, 0, 0, 0, 8, 0, 69, 0, 0, 36, 0, 1, 0, 0, 181, 132, 241, 82, 10, 0, 0, 1, 10, 0, 0, 2, 31, 144, 0, 80, 1, 2, 3, 4, 30, 125, 218, 134, 11, 0, 0, 4]"

lemma sample_frame_parts:
  "length sample_frame = 50"
  "take 20 (drop 14 sample_frame) = [69, 0, 0, 36, 0, 1, 0, 0, 181, 132, 241, 82, 10, 0, 0, 1, 10, 0, 0, 2]"
  "take 2 (drop 24 sample_frame) = [241, 82]"
  "take 2 (drop 16 sample_frame) = [0, 36]" "take 2 (drop 48 sample_frame) = [0, 4]"
  "take 4 (drop 42 sample_frame) = [30, 125, 218, 134]"
  "take 16 (drop 34 (splice sample_frame 42 [0, 0, 0, 0])) = [31, 144, 0, 80, 1, 2, 3, 4, 0, 0, 0, 0, 11, 0, 0, 4]"
  by (simp_all add: sample_frame_def splice_def)

lemma sample_frame_valid: "frame_valid sample_frame"
proof -
  have "ip_header_ok sample_frame"
    by (simp add: ip_header_ok_def sample_frame_parts ip_check_of_def ones_def)
  moreover have n: "chunk_len_of sample_frame = 4" "ip_len_of sample_frame = 36"
    by (simp_all add: chunk_len_of_def ip_len_of_def sample_frame_parts bswap16_def word_bytes_numeral)
  moreover have z: "word_bytes 4 (0 :: u32) = [0, 0, 0, 0]" by (simp add: word_bytes_numeral)
  have "sctp_crc_ok sample_frame"
    by (simp add: sctp_crc_ok_def n z sample_frame_parts crc_of_def crc_byte_def crc32_bits_numeral crc_step_def)
  ultimately show ?thesis by (simp add: frame_valid_def sample_frame_parts)
qed

text \<open>The call inspects the whole buffer \<open>p\<close>; of the number of bytes received only the first test makes use.\<close>

lemma sctp_check_checksums_buffer:
  assumes "unat plen \<le> length p"
  shows "sctp_check_checksums p plen = Some (p', 0) \<longleftrightarrow> 46 \<le> plen \<and> frame_valid p \<and> p' = p"
    and "sctp_check_checksums p plen = None \<longleftrightarrow>
      46 \<le> plen \<and> ip_header_ok p \<and> 36 \<le> ip_len_of p \<and> (length p < 50 \<or> length p < 46 + chunk_len_of p)"
proof -
  have "(sctp_check_checksums p plen = Some (p', 0) \<longleftrightarrow> 46 \<le> plen \<and> frame_valid p \<and> p' = p)
    \<and> (sctp_check_checksums p plen = None \<longleftrightarrow>
      46 \<le> plen \<and> ip_header_ok p \<and> 36 \<le> ip_len_of p \<and> (length p < 50 \<or> length p < 46 + chunk_len_of p))"
  proof (cases "plen \<ge> 46")
    case True
    then have l: "46 \<le> length p" using assms by (simp add: word_le_nat_alt)
    show ?thesis
    proof (cases "ip_header_ok p \<and> 36 \<le> ip_len_of p")
      case ok: True
      show ?thesis
        using sctp_check_checksums_crc [of p plen] sctp_check_checksums_overrun [of p plen] True l ok
        by (cases "50 \<le> length p \<and> 46 + chunk_len_of p \<le> length p") (auto simp: frame_valid_def)
    qed (use sctp_check_checksums_ip [OF l True] True in \<open>auto simp: frame_valid_def\<close>)
  qed (auto simp: sctp_check_checksums_def not_le)
  then show "sctp_check_checksums p plen = Some (p', 0) \<longleftrightarrow> 46 \<le> plen \<and> frame_valid p \<and> p' = p"
    "sctp_check_checksums p plen = None \<longleftrightarrow>
      46 \<le> plen \<and> ip_header_ok p \<and> 36 \<le> ip_len_of p \<and> (length p < 50 \<or> length p < 46 + chunk_len_of p)" by blast+
qed

text \<open>What lies behind a frame whose chunk it contains does not matter to its validity.\<close>

lemma frame_valid_append:
  assumes "50 \<le> length f" "46 + chunk_len_of f \<le> length f"
  shows "frame_valid (f @ rest) \<longleftrightarrow> frame_valid f"
proof -
  have eq: "chunk_len_of (f @ rest) = chunk_len_of f" "ip_len_of (f @ rest) = ip_len_of f" "crc_of (f @ rest) = crc_of f"
    "ip_header_ok (f @ rest) = ip_header_ok f"
    using assms(1) by (simp_all add: chunk_len_of_def ip_len_of_def crc_of_def ip_header_ok_def ip_check_of_def)
  have "splice (f @ rest) 42 (word_bytes 4 (0 :: u32)) = splice f 42 (word_bytes 4 (0 :: u32)) @ rest"
    using assms(1) by (simp add: splice_def)
  then have "take (12 + chunk_len_of f) (drop 34 (splice (f @ rest) 42 (word_bytes 4 (0 :: u32))))
      = take (12 + chunk_len_of f) (drop 34 (splice f 42 (word_bytes 4 (0 :: u32))))"
    using assms by simp
  then show ?thesis using assms eq by (simp add: frame_valid_def sctp_crc_ok_def)
qed

text \<open>
  C4. A frame of \<open>plen\<close> bytes has been received at the beginning of a buffer, whose other bytes \<open>rest\<close> are left from earlier
  frames (\<^verbatim>\<open>recv_packet.c\<close> passes a buffer of 2048 bytes). \<open>sctp_check_checksums\<close> accepts exactly when 46 bytes were received and
  the content of the whole buffer is valid: the IPv4 header sums to
  \<open>0xFFFF\<close>, its total length has room for the SCTP headers, the chunk lies inside the buffer, and the CRC-32c
  of the SCTP packet (with a zero checksum field) is the one it carries; and the buffer comes back unchanged,
  although both checksum fields are zeroed on the way. When the chunk lies inside the received frame, this is the validity of the frame alone.
  Beyond the first test the number of bytes received is not looked at: the chunk length is never compared with it, so a chunk that runs past the
  received bytes is checked, and accepted, together with what an earlier frame left behind them.
\<close>

theorem sctp_check_checksums_valid:
  assumes "length f = unat plen"
  shows "(sctp_check_checksums (f @ rest) plen = Some (p', 0) \<longleftrightarrow> 46 \<le> length f \<and> frame_valid (f @ rest) \<and> p' = f @ rest)
    \<and> (50 \<le> length f \<and> 46 + chunk_len_of f \<le> length f \<longrightarrow>
        (sctp_check_checksums (f @ rest) plen = Some (p', 0) \<longleftrightarrow> frame_valid f \<and> p' = f @ rest))"
proof -
  have "unat plen \<le> length (f @ rest)" "46 \<le> plen \<longleftrightarrow> 46 \<le> length f" using assms by (simp_all add: word_le_nat_alt)
  then have "sctp_check_checksums (f @ rest) plen = Some (p', 0) \<longleftrightarrow> 46 \<le> length f \<and> frame_valid (f @ rest) \<and> p' = f @ rest"
    using sctp_check_checksums_buffer(1) [of plen "f @ rest"] by simp
  then show ?thesis using frame_valid_append [of f rest] by auto
qed

text \<open>A whole frame, and the first 46 bytes of it received over the last four of the same frame.\<close>

theorem sctp_check_checksums_valid_witness:
  "sctp_check_checksums (sample_frame @ [9, 9]) 50 = Some (sample_frame @ [9, 9], 0)
    \<and> sctp_check_checksums (take 46 sample_frame @ [11, 0, 0, 4]) 46 = Some (take 46 sample_frame @ [11, 0, 0, 4], 0)"
proof -
  have "take 46 sample_frame @ [11, 0, 0, 4] = sample_frame" by (simp add: sample_frame_def)
  moreover have "chunk_len_of sample_frame = 4" by (simp add: chunk_len_of_def sample_frame_parts bswap16_def word_bytes_numeral)
  ultimately show ?thesis
    using sctp_check_checksums_valid [of sample_frame 50 "[9, 9]" "sample_frame @ [9, 9]"]
      sctp_check_checksums_valid [of "take 46 sample_frame" 46 "[11, 0, 0, 4]" "take 46 sample_frame @ [11, 0, 0, 4]"]
      sample_frame_valid by (simp add: sample_frame_parts)
qed

text \<open>
  \<open>sctp_check_checksums\<close> reads outside the buffer exactly when the IPv4 header is good and the
  SCTP chunk header, or the chunk length the sender wrote into it, does not fit in the buffer: the chunk
  length is used before any check.
\<close>

theorem sctp_check_checksums_overread:
  assumes "unat plen \<le> length p"
  shows "sctp_check_checksums p plen = None \<longleftrightarrow>
    46 \<le> plen \<and> ip_header_ok p \<and> 36 \<le> ip_len_of p \<and> (length p < 50 \<or> length p < 46 + chunk_len_of p)"
  using assms by (rule sctp_check_checksums_buffer(2))

theorem sctp_check_checksums_overread_witness:
  "sctp_check_checksums (sample_frame[49 := 200]) 50 = None"
proof -
  have "ip_header_ok (sample_frame[49 := 200])"
    using sample_frame_valid ip_header_ok_cong [of "sample_frame[49 := 200]" sample_frame]
    by (simp add: frame_valid_def sample_frame_parts(1) take_update_cancel drop_update_swap)
  moreover have "ip_len_of (sample_frame[49 := 200]) = 36" "chunk_len_of (sample_frame[49 := 200]) = 200"
    by (simp_all add: chunk_len_of_def ip_len_of_def sample_frame_def bswap16_def word_bytes_numeral)
  ultimately show ?thesis
    using sctp_check_checksums_overread [of 50 "sample_frame[49 := 200]"] by (simp add: sample_frame_parts)
qed

section \<open>Filling in and verifying\<close>

lemma splice_splice: "off + length d \<le> length p \<Longrightarrow> length d = length d' \<Longrightarrow> splice (splice p off d) off d' = splice p off d'"
  by (simp add: splice_def)

text \<open>Storing the complement of the sum of a header with a zero checksum field makes the header good.\<close>

lemma ip_check_fill:
  assumes "34 \<le> length m"
  shows "\<exists>c. ip_checksum (splice m 24 (word_bytes 2 (0 :: u16))) 14 20 = Some c
    \<and> ip_header_ok (splice m 24 (word_bytes 2 (NOT (ucast c) :: u16)))"
proof -
  obtain c where c: "ip_checksum (splice m 24 (word_bytes 2 (0 :: u16))) 14 20 = Some c"
    using ip_checksum_ones [of 14 20 "splice m 24 (word_bytes 2 (0 :: u16))"] assms by auto
  let ?p = "splice m 24 (word_bytes 2 (NOT (ucast c) :: u16))"
  have "splice ?p 24 (word_bytes 2 (0 :: u16)) = splice m 24 (word_bytes 2 (0 :: u16))"
    using assms by (intro splice_splice) simp_all
  moreover have "ip_check_of ?p = NOT (ucast c)"
    using take_drop_splice_same [of 24 "word_bytes 2 (NOT (ucast c) :: u16)" m] assms by (simp add: ip_check_of_def)
  ultimately show ?thesis using ip_check_correct [of ?p] assms c by auto
qed

text \<open>The CRC of a packet as it stands is the one the receiver computes exactly when the field is zero.\<close>

lemma crc_fill:
  assumes "46 + n \<le> length m"
  shows "crc_bytes (take (12 + n) (drop 34 (splice m 42 (word_bytes 4 (0 :: u32))))) c = crc_bytes (take (12 + n) (drop 34 m)) c
    \<longleftrightarrow> crc_of m = 0"
proof -
  let ?x = "take 4 (drop 42 m)"
  have m: "take (12 + n) (drop 34 m) = take 8 (drop 34 m) @ ?x @ take n (drop 46 m)"
  proof -
    have "take (8 + (4 + n)) (drop 34 m) = take 8 (drop 34 m) @ ?x @ take n (drop 46 m)"
      by (simp only: take_add drop_drop) simp
    then show ?thesis by simp
  qed
  have "drop 34 (take 42 m) = take 8 (drop 34 m)" by (simp add: drop_take)
  then have z: "take (12 + n) (drop 34 (splice m 42 (word_bytes 4 (0 :: u32)))) = take 8 (drop 34 m) @ word_bytes 4 (0 :: u32) @ take n (drop 46 m)"
    using assms by (simp add: splice_def)
  have l: "length ?x = 4" using assms by simp
  have "?x = word_bytes 4 (crc_of m)"
    using word_bytes_bytes_word [of ?x, where 'a = 32] l by (simp add: crc_of_def)
  then have "crc_of m = 0 \<longleftrightarrow> ?x = word_bytes 4 (0 :: u32)" by (metis bytes_word_roundtrip_u32)
  then show ?thesis
    using crc_bytes_burst [of "word_bytes 4 (0 :: u32)" ?x] l unfolding m z foldl_append
    by (metis crc_bytes_inj length_word_bytes le_refl)
qed

lemma crc_store:
  assumes "46 + chunk_len_of m \<le> length m" "50 \<le> length m"
    "generate_crc32c (drop 34 m) (of_nat (12 + chunk_len_of m)) = Some crc"
  shows "sctp_crc_ok (splice m 42 (word_bytes 4 crc)) \<longleftrightarrow> crc_of m = 0"
proof -
  let ?q = "splice m 42 (word_bytes 4 crc)" and ?n = "chunk_len_of m"
  have n: "?n \<le> 65535" unfolding chunk_len_of_def by (rule unat_u16_le)
  then have u: "unat (of_nat (12 + ?n) :: u32) = 12 + ?n" by (simp add: unat_of_nat del: of_nat_add)
  then have crc: "crc = NOT (crc_bytes (take (12 + ?n) (drop 34 m)) 0xFFFFFFFF)"
    using generate_crc32c_bytes [of "of_nat (12 + ?n)" "drop 34 m"] assms(1,3) by simp
  have q: "chunk_len_of ?q = ?n"
    using assms by (simp add: chunk_len_of_def take_drop_splice_after)
  have "crc_of ?q = crc"
    using take_drop_splice_same [of 42 "word_bytes 4 crc" m] assms by (simp add: crc_of_def)
  moreover have "splice ?q 42 (word_bytes 4 (0 :: u32)) = splice m 42 (word_bytes 4 (0 :: u32))"
    using assms by (intro splice_splice) simp_all
  ultimately have "sctp_crc_ok ?q \<longleftrightarrow>
      crc = NOT (crc_bytes (take (12 + ?n) (drop 34 (splice m 42 (word_bytes 4 (0 :: u32))))) 0xFFFFFFFF)"
    by (simp only: sctp_crc_ok_def q)
  then show ?thesis using crc crc_fill [OF assms(1), of "0xFFFFFFFF"] bit.double_compl by metis
qed

lemma word_12_ucast: "(12 + ucast (w :: u16) :: u32) = of_nat (12 + unat w)"
  by (simp only: ucast_of_unat of_nat_add of_nat_numeral)

text \<open>The CRC of a chunk inside the frame, and the length that a frame with room for a chunk header gets.\<close>

lemma crc_of_chunk_returns:
  assumes "46 + chunk_len_of m \<le> length m"
  shows "\<exists>crc. generate_crc32c (drop 34 m) (of_nat (12 + chunk_len_of m)) = Some crc"
proof -
  have "chunk_len_of m \<le> 65535" unfolding chunk_len_of_def by (rule unat_u16_le)
  then have "unat (of_nat (12 + chunk_len_of m) :: u32) = 12 + chunk_len_of m" by (simp add: unat_of_nat del: of_nat_add)
  then show ?thesis using generate_crc32c_bytes [of "of_nat (12 + chunk_len_of m)" "drop 34 m"] assms by simp
qed

lemma frame_len_room:
  assumes "(plen :: u16) \<le> 1466"
  shows "36 \<le> unat (1516 - plen - 14)"
proof -
  have "unat plen \<le> 1466" using assms by (simp add: word_le_nat_alt)
  moreover have "1516 - plen - 14 = 1502 - plen" by simp
  moreover have "unat (1502 - plen) = 1502 - unat plen" using assms by (subst unat_sub) (auto simp: word_le_nat_alt)
  ultimately show ?thesis by simp
qed

text \<open>
  C36. The checksums \<^verbatim>\<open>fix_check_ip_sctp\<close> fills into a frame make it pass the receiver's test exactly when
  the SCTP checksum field was zero before the call: the function clears the field of the IPv4 header, but
  not that of the SCTP header, which is part of the CRC.
\<close>

theorem fix_check_ip_sctp_valid:
  assumes "fr_packet f = Some (int (unat mx) - int (unat (fr_plen f)))"
    "50 \<le> length (fr_mem f)" "46 + chunk_len_of (fr_mem f) \<le> length (fr_mem f)" "fr_plen f \<le> 1466"
  shows "\<exists>f'. fix_check_ip_sctp f mx = Some f' \<and> length (fr_mem f') = length (fr_mem f)
    \<and> (frame_valid (fr_mem f') \<longleftrightarrow> crc_of (fr_mem f) = 0)"
proof -
  let ?l = "htons (1516 - fr_plen f - 14) :: u16"
  let ?m1 = "splice (fr_mem f) 16 (word_bytes 2 ?l)"
  let ?m2 = "splice ?m1 24 (word_bytes 2 (0 :: u16))"
  obtain c where c: "ip_checksum ?m2 14 20 = Some c" "ip_header_ok (splice ?m1 24 (word_bytes 2 (NOT (ucast c) :: u16)))"
    using ip_check_fill [of ?m1] assms(2) by auto
  let ?m3 = "splice ?m1 24 (word_bytes 2 (NOT (ucast c) :: u16))"
  have m3: "splice ?m2 24 (word_bytes 2 (NOT (ucast c) :: u16)) = ?m3"
    using assms(2) by (intro splice_splice) simp_all
  have L: "length ?m3 = length (fr_mem f)" using assms(2) by simp
  have fields: "chunk_len_of ?m3 = chunk_len_of (fr_mem f)" "crc_of ?m3 = crc_of (fr_mem f)"
    using assms(2) by (simp_all add: chunk_len_of_def crc_of_def take_drop_splice_after)
  obtain crc where crc: "generate_crc32c (drop 34 ?m3) (of_nat (12 + chunk_len_of ?m3)) = Some crc"
    using crc_of_chunk_returns [of ?m3] assms(3) fields L by auto
  let ?m4 = "splice ?m3 42 (word_bytes 4 crc)"
  have "fix_check_ip_sctp f mx = Some (f\<lparr>fr_mem := ?m4\<rparr>)"
  proof -
    have "get_u16 ?m3 48 = Some (bytes_word (take 2 (drop 48 ?m3)))" using assms(2) L by (intro get_word_in) simp
    moreover have "generate_crc32c (drop 34 ?m3) (12 + ucast (ntohs (bytes_word (take 2 (drop 48 ?m3))))) = Some crc"
      using crc by (simp only: word_12_ucast chunk_len_of_def)
    ultimately show ?thesis using assms(1,2) c(1) m3 L
      by (simp add: fix_check_ip_sctp_def in_buf_def mwrite_def)
  qed
  moreover have "frame_valid ?m4 \<longleftrightarrow> crc_of (fr_mem f) = 0"
  proof -
    have "ip_header_ok ?m4"
      using c(2) L assms(2) by (subst ip_header_ok_cong [of _ ?m3]) (simp_all add: take_drop_splice_before)
    moreover have "ip_len_of ?m4 = unat (1516 - fr_plen f - 14)"
      using take_drop_splice_same [of 16 "word_bytes 2 ?l" "fr_mem f"] L assms(2)
      by (simp add: ip_len_of_def take_drop_splice_before)
    moreover have "36 \<le> unat (1516 - fr_plen f - 14)" by (rule frame_len_room [OF assms(4)])
    moreover have "chunk_len_of ?m4 = chunk_len_of (fr_mem f)"
      using fields L assms(2) by (simp add: chunk_len_of_def take_drop_splice_after)
    ultimately show ?thesis
      using crc_store [OF _ _ crc] fields assms(2,3) L by (simp add: frame_valid_def)
  qed
  ultimately show ?thesis using L assms(2) by (intro exI [of _ "f\<lparr>fr_mem := ?m4\<rparr>"]) simp
qed

theorem fix_check_ip_sctp_valid_witness:
  "\<exists>f'. fix_check_ip_sctp \<lparr>fr_mem = splice sample_frame 42 [0, 0, 0, 0], fr_packet = Some 50, fr_pmem = [], fr_prefill = None,
      fr_plen = 1466, fr_proto = PROTO_STACK_IP_SCTP, fr_sync = None, fr_state = None\<rparr> 1516 = Some f'
    \<and> length (fr_mem f') = 50 \<and> frame_valid (fr_mem f')"
proof -
  let ?m = "splice sample_frame 42 [0, 0, 0, 0]"
  have "length ?m = 50" "chunk_len_of ?m = 4" "crc_of ?m = 0"
    by (simp_all add: chunk_len_of_def crc_of_def sample_frame_def splice_def bswap16_def word_bytes_numeral)
  then show ?thesis
    using fix_check_ip_sctp_valid [of "\<lparr>fr_mem = ?m, fr_packet = Some 50, fr_pmem = [], fr_prefill = None,
      fr_plen = 1466, fr_proto = PROTO_STACK_IP_SCTP, fr_sync = None, fr_state = None\<rparr>" 1516] by simp
qed

end
