(* ===== verification/Frames.thy ===== *)
theory Frames
  imports Checks Md5 Rng
begin

unbundle bit_operations_syntax

text \<open>
  Building whole frames. The functions \<^verbatim>\<open>build_*_raw\<close> each prepend one header: they move the packet pointer
  back, write the header and add its size to the length; \<^verbatim>\<open>build_sctp_*_hdr\<close> compose them into an INIT,
  INIT ACK, COOKIE ECHO or COOKIE ACK frame. A \<open>cursor\<close> is the buffer, the packet pointer as an offset into it
  (\<open>None\<close>: NULL; the pointer may leave the buffer, an access then does not return) and the length \<open>*plen\<close>.
  The pointer to the length is never NULL in a call of the program and is not modelled.
\<close>

type_synonym cursor = "bytes \<times> int option \<times> u16"

section \<open>Headers one at a time\<close>

fun build_sctp_init_hdr_raw :: "cursor \<Rightarrow> u32 \<Rightarrow> u32 \<Rightarrow> u16 \<Rightarrow> u16 \<Rightarrow> u32 \<Rightarrow> cursor option" where
  "build_sctp_init_hdr_raw (mem, None, plen) tag a_rwnd os mis tsn = Some (mem, None, plen)"
| "build_sctp_init_hdr_raw (mem, Some p, plen) tag a_rwnd os mis tsn =
     do { off \<leftarrow> in_buf (p - 16);
          mem \<leftarrow> mwrite mem off (enc_init \<lparr>init_tag = htonl tag, init_a_rwnd = htonl a_rwnd, init_os = htons os,
                   init_mis = htons mis, init_tsn = htonl tsn\<rparr>);
          Some (mem, Some (p - 16), plen + 16) }"

text \<open>\<^verbatim>\<open>sctp_init_ack_hdr_t\<close> is written field by field; the fields fill the structure.\<close>

fun build_sctp_init_ack_hdr_raw :: "cursor \<Rightarrow> u32 \<Rightarrow> u32 \<Rightarrow> u16 \<Rightarrow> u16 \<Rightarrow> u32 \<Rightarrow> cursor option" where
  "build_sctp_init_ack_hdr_raw (mem, None, plen) tag a_rwnd os mis tsn = Some (mem, None, plen)"
| "build_sctp_init_ack_hdr_raw (mem, Some p, plen) tag a_rwnd os mis tsn =
     do { off \<leftarrow> in_buf (p - 16);
          mem \<leftarrow> put_u32 mem off (htonl tag);
          mem \<leftarrow> put_u32 mem (off + 4) (htonl a_rwnd);
          mem \<leftarrow> put_u16 mem (off + 8) (htons os);
          mem \<leftarrow> put_u16 mem (off + 10) (htons mis);
          mem \<leftarrow> put_u32 mem (off + 12) (htonl tsn);
          Some (mem, Some (p - 16), plen + 16) }"

fun build_sctp_fld_hdr_raw :: "cursor \<Rightarrow> u8 \<Rightarrow> u8 \<Rightarrow> u16 \<Rightarrow> cursor option" where
  "build_sctp_fld_hdr_raw (mem, None, plen) type flags len = Some (mem, None, plen)"
| "build_sctp_fld_hdr_raw (mem, Some p, plen) type flags len =
     do { off \<leftarrow> in_buf (p - 4);
          mem \<leftarrow> mwrite mem off (enc_fld \<lparr>fld_type = type, fld_flags = flags, fld_len = htons len\<rparr>);
          Some (mem, Some (p - 4), plen + 4) }"

fun build_sctp_cmn_hdr_raw :: "cursor \<Rightarrow> u16 \<Rightarrow> u16 \<Rightarrow> u32 \<Rightarrow> cursor option" where
  "build_sctp_cmn_hdr_raw (mem, None, plen) srcport dstport tag = Some (mem, None, plen)"
| "build_sctp_cmn_hdr_raw (mem, Some p, plen) srcport dstport tag =
     do { off \<leftarrow> in_buf (p - 12);
          mem \<leftarrow> mwrite mem off (enc_cmn \<lparr>cmn_srcp = htons srcport, cmn_dstp = htons dstport, cmn_tag = tag, cmn_check = 0\<rparr>);
          let plen = plen + 12 in
          do { crc \<leftarrow> generate_crc32c (drop off mem) (ucast plen);
               mem \<leftarrow> put_u32 mem (off + 8) crc;
               Some (mem, Some (p - 12), plen) } }"

text \<open>\<open>hdr.tos = htons (0x2)\<close> is stored into a byte.\<close>

fun build_ip_raw :: "random_state \<Rightarrow> cursor \<Rightarrow> u32 \<Rightarrow> u32 \<Rightarrow> u8 \<Rightarrow> (random_state \<times> cursor) option" where
  "build_ip_raw rnd (mem, None, plen) src dst proto = Some (rnd, mem, None, plen)"
| "build_ip_raw rnd (mem, Some p, plen) src dst proto =
     (let (indent, rnd) = get_random_u32 rnd;
          plen = plen + 20;
          hdr = \<lparr>ip_ihl = 5, ip_ver = 4, ip_tos = ucast (htons 0x2), ip_len = htons plen, ip_indent = ucast indent, ip_offset = 0,
                 ip_ttl = 181, ip_proto = proto, ip_check = 0, ip_src_addr = src, ip_dest_addr = dst\<rparr>
      in do { off \<leftarrow> in_buf (p - 20);
              mem \<leftarrow> mwrite mem off (enc_ipv4 hdr);
              c \<leftarrow> ip_checksum (enc_ipv4 hdr) 0 20;
              mem \<leftarrow> put_u16 mem (off + 10) (NOT (ucast c));
              Some (rnd, mem, Some (p - 20), plen) })"

fun build_mac_raw :: "cursor \<Rightarrow> bytes option \<Rightarrow> bytes option \<Rightarrow> u16 \<Rightarrow> cursor option" where
  "build_mac_raw (mem, Some p, plen) (Some gateway) (Some dev) typelen =
     do { off \<leftarrow> in_buf (p - 14);
          g \<leftarrow> mread gateway 0 6;
          mem \<leftarrow> mwrite mem off g;
          d \<leftarrow> mread dev 0 6;
          mem \<leftarrow> mwrite mem (off + 6) d;
          mem \<leftarrow> put_u16 mem (off + 12) (htons typelen);
          Some (mem, Some (p - 14), plen + 14) }"
| "build_mac_raw (mem, packet, plen) gateway dev typelen = Some (mem, None, plen)"

fun build_sctp_cookie_echo_hdr_raw :: "cursor \<Rightarrow> heap_obj \<Rightarrow> u16 \<Rightarrow> cursor option" where
  "build_sctp_cookie_echo_hdr_raw (mem, None, plen) ck cookie_len = Some (mem, None, plen)"
| "build_sctp_cookie_echo_hdr_raw (mem, Some p, plen) ck cookie_len =
     do { off \<leftarrow> in_buf (p - int (unat cookie_len));
          d \<leftarrow> obj_read ck (unat cookie_len);
          mem \<leftarrow> mwrite mem off d;
          Some (mem, Some (p - int (unat cookie_len)), plen + cookie_len) }"

definition cookie_key :: bytes where
  "cookie_key = [0xC9, 0xAB, 0x02, 0x9C, 0x92, 0xBF, 0x47, 0xF3, 0xC9, 0xAB, 0x02, 0x9C, 0x92, 0xBF, 0x47, 0xF3]"

text \<open>The cookie is the first 40 bytes of the object \<open>ck\<close> (\<open>None\<close>: NULL); \<open>g\<close> is the uninitialised MD5 buffer.\<close>

fun build_sctp_cookie_param_raw :: "(nat \<Rightarrow> u8) \<Rightarrow> cursor \<Rightarrow> bytes option \<Rightarrow> cursor option" where
  "build_sctp_cookie_param_raw g (mem, Some p, plen) (Some ck) =
     do { off \<leftarrow> in_buf (p - (4 + 40 + 16));
          mem \<leftarrow> put_u16 mem off (htons 7);
          mem \<leftarrow> put_u16 mem (off + 2) (htons (4 + 40 + 16));
          c \<leftarrow> mread ck 0 40;
          mem \<leftarrow> mwrite mem (off + 4) c;
          digest \<leftarrow> hmac_md5 g ck 40 cookie_key 16;
          mem \<leftarrow> mwrite mem (off + 4 + 40) digest;
          len \<leftarrow> get_u16 mem (off + 2);
          Some (mem, Some (p - (4 + 40 + 16)), plen + ntohs len) }"
| "build_sctp_cookie_param_raw g (mem, packet, plen) ck = Some (mem, None, plen)"

declare build_sctp_init_hdr_raw.simps [simp del] build_sctp_init_ack_hdr_raw.simps [simp del] build_sctp_fld_hdr_raw.simps [simp del]
  build_sctp_cmn_hdr_raw.simps [simp del] build_ip_raw.simps [simp del] build_mac_raw.simps [simp del]
  build_sctp_cookie_echo_hdr_raw.simps [simp del] build_sctp_cookie_param_raw.simps [simp del]

section \<open>Frames\<close>

text \<open>
  The result is the pointer returned, \<open>None\<close> for NULL (the frame is then unchanged). Where a call has two
  random arguments, C leaves the order of the two draws open; the model draws the tag first.
\<close>

definition frame_cursor :: "frame_data \<Rightarrow> int \<Rightarrow> cursor" where
  "frame_cursor f p = (fr_mem f, Some p, fr_plen f)"

definition frame_result :: "frame_data \<Rightarrow> cursor \<Rightarrow> frame_data" where
  "frame_result f cur = (case cur of (mem, packet, plen) \<Rightarrow> f\<lparr>fr_mem := mem, fr_packet := packet, fr_plen := plen\<rparr>)"

fun build_sctp_init_hdr :: "random_state \<Rightarrow> frame_data option \<Rightarrow> (random_state \<times> frame_data option) option" where
  "build_sctp_init_hdr rnd None = Some (rnd, None)"
| "build_sctp_init_hdr rnd (Some f) =
     (case (fr_packet f, fr_state f) of
        (Some p, Some meta) \<Rightarrow>
          do { let cur = frame_cursor f (p + (14 + 20 + 12 + 4 + 16));
               (tag, rnd) \<leftarrow> get_random_from_buffer_u32 rnd;
               (tsn, rnd) \<leftarrow> get_random_from_buffer_u32 rnd;
               cur \<leftarrow> build_sctp_init_hdr_raw cur tag (m_src_arwnd meta) (m_src_os meta) (m_src_mis meta) tsn;
               cur \<leftarrow> build_sctp_fld_hdr_raw cur SCTP_INIT 0 (snd (snd cur) + 4);
               cur \<leftarrow> build_sctp_cmn_hdr_raw cur (ucast (m_src_port meta)) (ucast (m_dst_port meta)) 0;
               (rnd, cur) \<leftarrow> build_ip_raw rnd cur (m_src_ip meta) (m_dst_ip meta) PROTO_SCTP;
               cur \<leftarrow> build_mac_raw cur (Some (m_gateway meta)) (Some (m_dev meta)) ETHERTYPE_IP;
               Some (rnd, Some (frame_result f cur)) }
      | _ \<Rightarrow> Some (rnd, None))"

text \<open>
  \<^verbatim>\<open>(cookie_t *) meta\<close>: the first 40 bytes of the state. \<^verbatim>\<open>if_ip_sctp_meta_t\<close> has no \<open>dst_tsn\<close>, so from the
  address on its fields stand four bytes before those of \<^verbatim>\<open>cookie_t\<close>.
\<close>

definition meta_bytes :: "if_ip_sctp_meta \<Rightarrow> bytes" where
  "meta_bytes s = word_bytes 4 (m_ver_tag s) @ word_bytes 4 (m_init_tag s) @ word_bytes 4 (m_a_rwnd s)
     @ word_bytes 2 (m_os s) @ word_bytes 2 (m_mis s) @ word_bytes 4 (m_tsn s) @ word_bytes 4 (m_src_ip s)
     @ word_bytes 4 (m_dst_ip s) @ word_bytes 4 (m_src_port s) @ word_bytes 4 (m_dst_port s) @ word_bytes 4 (m_state s)"

fun build_sctp_init_ack_hdr :: "(nat \<Rightarrow> u8) \<Rightarrow> random_state \<Rightarrow> frame_data option \<Rightarrow> (random_state \<times> frame_data option) option" where
  "build_sctp_init_ack_hdr g rnd None = Some (rnd, None)"
| "build_sctp_init_ack_hdr g rnd (Some f) =
     (case (fr_packet f, fr_state f) of
        (Some p, Some meta) \<Rightarrow>
          let (tag, rnd) = get_random_u32 rnd; (tsn, rnd) = get_random_u32 rnd;
              meta = meta\<lparr>m_init_tag := tag, m_tsn := tsn\<rparr>; f = f\<lparr>fr_state := Some meta\<rparr>;
              cur = frame_cursor f (p + (14 + 20 + 12 + 4 + 16 + 4 + 40 + 16))
          in do { cur \<leftarrow> build_sctp_cookie_param_raw g cur (Some (meta_bytes meta));
                  cur \<leftarrow> build_sctp_init_ack_hdr_raw cur (m_init_tag meta) (m_src_arwnd meta) (m_src_os meta) (m_src_mis meta) (m_tsn meta);
                  cur \<leftarrow> build_sctp_fld_hdr_raw cur SCTP_INIT_ACK 0 (snd (snd cur) + 4);
                  cur \<leftarrow> build_sctp_cmn_hdr_raw cur (ucast (m_src_port meta)) (ucast (m_dst_port meta)) (m_ver_tag meta);
                  (rnd, cur) \<leftarrow> build_ip_raw rnd cur (m_src_ip meta) (m_dst_ip meta) PROTO_SCTP;
                  cur \<leftarrow> build_mac_raw cur (Some (m_gateway meta)) (Some (m_dev meta)) ETHERTYPE_IP;
                  Some (rnd, Some (frame_result f cur)) }
      | _ \<Rightarrow> Some (rnd, None))"

fun build_sctp_cookie_echo_hdr :: "random_state \<Rightarrow> frame_data option \<Rightarrow> (random_state \<times> frame_data option) option" where
  "build_sctp_cookie_echo_hdr rnd None = Some (rnd, None)"
| "build_sctp_cookie_echo_hdr rnd (Some f) =
     (case (fr_packet f, fr_state f) of
        (Some p, Some meta) \<Rightarrow>
          do { let cur = frame_cursor f (p + (14 + 20 + 12 + 4 + 4 + int (unat (m_add_len meta))));
               cur \<leftarrow> build_sctp_cookie_echo_hdr_raw cur (m_add meta) (m_add_len meta);
               cur \<leftarrow> build_sctp_fld_hdr_raw cur SCTP_COOKIE_ECHO 0 (snd (snd cur) + 4);
               cur \<leftarrow> build_sctp_cmn_hdr_raw cur (ucast (m_src_port meta)) (ucast (m_dst_port meta)) (m_init_tag meta);
               (rnd, cur) \<leftarrow> build_ip_raw rnd cur (m_src_ip meta) (m_dst_ip meta) PROTO_SCTP;
               cur \<leftarrow> build_mac_raw cur (Some (m_gateway meta)) (Some (m_dev meta)) ETHERTYPE_IP;
               add \<leftarrow> obj_free (m_add meta);
               Some (rnd, Some (frame_result (f\<lparr>fr_state := Some (meta\<lparr>m_add := add\<rparr>)\<rparr>) cur)) }
      | _ \<Rightarrow> Some (rnd, None))"

fun build_sctp_cookie_ack_hdr :: "random_state \<Rightarrow> frame_data option \<Rightarrow> (random_state \<times> frame_data option) option" where
  "build_sctp_cookie_ack_hdr rnd None = Some (rnd, None)"
| "build_sctp_cookie_ack_hdr rnd (Some f) =
     (case (fr_packet f, fr_state f) of
        (Some p, Some meta) \<Rightarrow>
          do { let cur = frame_cursor f (p + (14 + 20 + 12 + 4));
               cur \<leftarrow> build_sctp_fld_hdr_raw cur SCTP_COOKIE_ACK 0 (snd (snd cur) + 4);
               cur \<leftarrow> build_sctp_cmn_hdr_raw cur (ucast (m_src_port meta)) (ucast (m_dst_port meta)) (m_ver_tag meta);
               (rnd, cur) \<leftarrow> build_ip_raw rnd cur (m_src_ip meta) (m_dst_ip meta) PROTO_SCTP;
               cur \<leftarrow> build_mac_raw cur (Some (m_gateway meta)) (Some (m_dev meta)) ETHERTYPE_IP;
               add \<leftarrow> obj_free (m_add meta);
               Some (rnd, Some (frame_result (f\<lparr>fr_state := Some (meta\<lparr>m_add := add\<rparr>)\<rparr>) cur)) }
      | _ \<Rightarrow> Some (rnd, None))"

section \<open>Prefilled frames\<close>

text \<open>
  \<^verbatim>\<open>prefill_mac_ip_sctp\<close> writes the three outer headers of a frame whose length is not known yet (IPv4 total
  length 0); \<^verbatim>\<open>build_prefilled_sctp_init_hdr\<close> adds an INIT chunk and corrects length and checksums.
\<close>

fun prefill_mac_ip_sctp :: "random_state \<Rightarrow> frame_data option \<Rightarrow> (random_state \<times> frame_data option) option" where
  "prefill_mac_ip_sctp rnd None = Some (rnd, None)"
| "prefill_mac_ip_sctp rnd (Some f) =
     (case (fr_prefill f, fr_state f) of
        (Some p, Some meta) \<Rightarrow>
          let cmn = \<lparr>cmn_srcp = htons (ucast (m_src_port meta)), cmn_dstp = htons (ucast (m_dst_port meta)), cmn_tag = 0, cmn_check = 0\<rparr>;
              (indent, rnd) = get_random_u32 rnd;
              ip = \<lparr>ip_ihl = 5, ip_ver = 4, ip_tos = ucast (htons 0x2), ip_len = htons 0, ip_indent = ucast indent, ip_offset = 0,
                    ip_ttl = 228, ip_proto = PROTO_SCTP, ip_check = 0, ip_src_addr = m_src_ip meta, ip_dest_addr = m_dst_ip meta\<rparr>
          in do { c \<leftarrow> ip_checksum (enc_ipv4 ip) 0 20;
                  off \<leftarrow> in_buf p;
                  g \<leftarrow> mread (m_gateway meta) 0 6;
                  mem \<leftarrow> mwrite (fr_pmem f) off g;
                  d \<leftarrow> mread (m_dev meta) 0 6;
                  mem \<leftarrow> mwrite mem (off + 6) d;
                  mem \<leftarrow> put_u16 mem (off + 12) (htons ETHERTYPE_IP);
                  mem \<leftarrow> mwrite mem (off + 14) (enc_ipv4 (ip\<lparr>ip_check := NOT (ucast c)\<rparr>));
                  mem \<leftarrow> mwrite mem (off + 20 + 14) (enc_cmn cmn);
                  Some (rnd, Some (f\<lparr>fr_pmem := mem, fr_plen := 14 + 20 + 12\<rparr>)) }
      | _ \<Rightarrow> Some (rnd, None))"

definition prefill_cursor :: "frame_data \<Rightarrow> int \<Rightarrow> cursor" where
  "prefill_cursor f p = (fr_pmem f, Some p, fr_plen f)"

definition prefill_result :: "frame_data \<Rightarrow> cursor \<Rightarrow> frame_data" where
  "prefill_result f cur = (case cur of (mem, prefill, plen) \<Rightarrow> f\<lparr>fr_pmem := mem, fr_prefill := prefill, fr_plen := plen\<rparr>)"

fun prefill_mac_ip_sctp_2 :: "random_state \<Rightarrow> frame_data option \<Rightarrow> (random_state \<times> frame_data option) option" where
  "prefill_mac_ip_sctp_2 rnd None = Some (rnd, None)"
| "prefill_mac_ip_sctp_2 rnd (Some f) =
     (case (fr_prefill f, fr_state f) of
        (Some p, Some meta) \<Rightarrow>
          do { let cur = prefill_cursor f (p + (14 + 20 + 12));
               cur \<leftarrow> build_sctp_cmn_hdr_raw cur (ucast (m_src_port meta)) (ucast (m_dst_port meta)) 0;
               (rnd, cur) \<leftarrow> build_ip_raw rnd cur (m_src_ip meta) (m_dst_ip meta) PROTO_SCTP;
               cur \<leftarrow> build_mac_raw cur (Some (m_gateway meta)) (Some (m_dev meta)) ETHERTYPE_IP;
               Some (rnd, Some (prefill_result f cur)) }
      | _ \<Rightarrow> Some (rnd, None))"

text \<open>
  \<open>ip->check += \<dots>\<close> is an addition on 16 bits, so that the carry test that follows it never holds.
\<close>

fun build_prefilled_sctp_init_hdr :: "random_state \<Rightarrow> frame_data option \<Rightarrow> (random_state \<times> frame_data option) option" where
  "build_prefilled_sctp_init_hdr rnd None = Some (rnd, None)"
| "build_prefilled_sctp_init_hdr rnd (Some f) =
     (case (fr_prefill f, fr_state f) of
        (Some p, Some meta) \<Rightarrow>
          do { let pck_len = fr_plen f;
               let cur = prefill_cursor (f\<lparr>fr_plen := 0\<rparr>) (p + (14 + 20 + 12 + 4 + 16));
               (tag, rnd) \<leftarrow> get_random_from_buffer_u32 rnd;
               (tsn, rnd) \<leftarrow> get_random_from_buffer_u32 rnd;
               cur \<leftarrow> build_sctp_init_hdr_raw cur tag (m_src_arwnd meta) (m_src_os meta) (m_src_mis meta) tsn;
               cur \<leftarrow> build_sctp_fld_hdr_raw cur SCTP_INIT 0 (snd (snd cur) + 4);
               let (mem, prefill, plen) = cur;
               let plen = plen + pck_len;
               ip \<leftarrow> in_buf (p + 14);
               len \<leftarrow> get_u16 mem (ip + 2);
               mem \<leftarrow> put_u16 mem (ip + 2) (ntohs (plen - 14));
               check \<leftarrow> get_u16 mem (ip + 10);
               mem \<leftarrow> put_u16 mem (ip + 10) (check + (len - ntohs (plen - 14)));
               mem \<leftarrow> put_u32 mem (ip + 20 + 8) 0;
               crc \<leftarrow> generate_crc32c (drop (ip + 20) mem) (ucast plen - 14 - 20);
               mem \<leftarrow> put_u32 mem (ip + 20 + 8) crc;
               Some (rnd, Some (prefill_result f (mem, prefill, plen))) }
      | _ \<Rightarrow> Some (rnd, None))"

section \<open>Writing a header in front\<close>

lemma splice_part: "length d = length e \<Longrightarrow> splice (pre @ e @ post) (length pre) d = pre @ d @ post"
  by (simp add: splice_def)

lemma split_at:
  assumes "off + n \<le> length m"
  obtains pre e post where "m = pre @ e @ post" "length pre = off" "length e = n"
proof -
  have "m = take off m @ take n (drop off m) @ drop (off + n) m"
    by (metis append_take_drop_id drop_drop add.commute)
  then show thesis using that [of "take off m" "take n (drop off m)" "drop (off + n) m"] assms by simp
qed

lemma split_frame:
  assumes "b + (50 + n) \<le> length m"
  obtains pre ma ip cm fl body post where "m = pre @ ma @ ip @ cm @ fl @ body @ post" "length pre = b" "length ma = 14"
    "length ip = 20" "length cm = 12" "length fl = 4" "length body = n"
proof -
  obtain pre e post where m: "m = pre @ e @ post" "length pre = b" "length e = 50 + n" using split_at [OF assms] by blast
  have "take (14 + (20 + (12 + 4))) e = take 14 e @ take 20 (drop 14 e) @ take 12 (drop 34 e) @ take 4 (drop 46 e)"
    by (simp only: take_add drop_drop) simp
  then have "e = take 14 e @ take 20 (drop 14 e) @ take 12 (drop 34 e) @ take 4 (drop 46 e) @ drop 50 e"
    using append_take_drop_id [of 50 e] by simp
  then have "m = pre @ take 14 e @ take 20 (drop 14 e) @ take 12 (drop 34 e) @ take 4 (drop 46 e) @ drop 50 e @ post"
    using m(1) by (metis append.assoc)
  then show thesis using that m(2,3) by simp
qed

lemma mwrite_part:
  "length d = length e \<Longrightarrow> mwrite (pre @ e @ post) (length pre) d = Some (pre @ d @ post)"
  by (simp add: mwrite_def splice_part)

section \<open>A frame as the sequence of its headers\<close>

definition frame_bytes :: "mac_hdr \<Rightarrow> ipv4_hdr \<Rightarrow> sctp_common_hdr \<Rightarrow> bytes \<Rightarrow> bytes" where
  "frame_bytes m i c chunk = enc_mac m @ enc_ipv4 i @ enc_cmn c @ chunk"

lemma length_enc_mac: "length (mac_mac m) = 12 \<Longrightarrow> length (enc_mac m) = 14"
  by (simp add: enc_mac_def)

lemma length_frame_bytes: "length (mac_mac m) = 12 \<Longrightarrow> length (frame_bytes m i c chunk) = 46 + length chunk"
  by (simp add: frame_bytes_def length_enc_mac)

lemma ip_check_image: "take 2 (drop 10 (enc_ipv4 i)) = word_bytes 2 (ip_check i)"
  "take 2 (drop 2 (enc_ipv4 i)) = word_bytes 2 (ip_len i)"
  by (simp_all add: enc_ipv4_def)

lemma splice_ip_check: "splice (enc_ipv4 i) 10 (word_bytes 2 w) = enc_ipv4 (i\<lparr>ip_check := w\<rparr>)"
  by (simp add: enc_ipv4_def splice_def)

lemma splice_cmn_check: "splice (enc_cmn c) 8 (word_bytes 4 w) = enc_cmn (c\<lparr>cmn_check := w\<rparr>)"
  by (simp add: enc_cmn_def splice_def)

lemma cmn_check_image: "take 4 (drop 8 (enc_cmn c)) = word_bytes 4 (cmn_check c)"
  by (simp add: enc_cmn_def)

lemma splice_mid:
  "length pre = off \<Longrightarrow> i + length d \<le> length e \<Longrightarrow> splice (pre @ e @ post) (off + i) d = pre @ splice e i d @ post"
  by (simp add: splice_def)

lemma frame_fields:
  assumes "length (mac_mac m) = 12"
  shows "take 20 (drop 14 (frame_bytes m i c chunk)) = enc_ipv4 i"
    and "ip_check_of (frame_bytes m i c chunk) = ip_check i"
    and "ip_len_of (frame_bytes m i c chunk) = unat (ntohs (ip_len i))"
    and "crc_of (frame_bytes m i c chunk) = cmn_check c"
    and "drop 34 (frame_bytes m i c chunk) = enc_cmn c @ chunk"
    and "chunk_len_of (frame_bytes m i c chunk) = unat (ntohs (bytes_word (take 2 (drop 2 chunk))))"
proof -
  note l = length_enc_mac [OF assms]
  show "take 20 (drop 14 (frame_bytes m i c chunk)) = enc_ipv4 i" "drop 34 (frame_bytes m i c chunk) = enc_cmn c @ chunk"
    by (simp_all add: frame_bytes_def l)
  have "take 2 (drop 24 (frame_bytes m i c chunk)) = take 2 (drop 10 (enc_ipv4 i))"
    "take 2 (drop 16 (frame_bytes m i c chunk)) = take 2 (drop 2 (enc_ipv4 i))"
    "take 4 (drop 42 (frame_bytes m i c chunk)) = take 4 (drop 8 (enc_cmn c))"
    "take 2 (drop 48 (frame_bytes m i c chunk)) = take 2 (drop 2 chunk)"
    by (simp_all add: frame_bytes_def l)
  then show "ip_check_of (frame_bytes m i c chunk) = ip_check i" "ip_len_of (frame_bytes m i c chunk) = unat (ntohs (ip_len i))"
    "crc_of (frame_bytes m i c chunk) = cmn_check c"
    "chunk_len_of (frame_bytes m i c chunk) = unat (ntohs (bytes_word (take 2 (drop 2 chunk))))"
    by (simp_all add: ip_check_of_def ip_len_of_def crc_of_def chunk_len_of_def ip_check_image cmn_check_image)
qed

lemma frame_splice:
  assumes "length (mac_mac m) = 12"
  shows "splice (frame_bytes m i c chunk) 24 (word_bytes 2 w) = frame_bytes m (i\<lparr>ip_check := w\<rparr>) c chunk"
    and "splice (frame_bytes m i c chunk) 42 (word_bytes 4 v) = frame_bytes m i (c\<lparr>cmn_check := v\<rparr>) chunk"
  using splice_mid [of "enc_mac m" 14 10 "word_bytes 2 w" "enc_ipv4 i" "enc_cmn c @ chunk"]
    splice_mid [of "enc_mac m @ enc_ipv4 i" 34 8 "word_bytes 4 v" "enc_cmn c" chunk] length_enc_mac [OF assms]
  by (simp_all add: frame_bytes_def splice_ip_check splice_cmn_check)

lemma ip_checksum_slice:
  assumes "off + unat len \<le> length data" "even (unat len)"
  shows "ip_checksum data off len = ip_checksum (take (unat len) (drop off data)) 0 len"
proof -
  obtain r s where "ip_checksum data off len = Some r" "unat r = ones (osum (take (unat len) (drop off data)))"
      "ip_checksum (take (unat len) (drop off data)) 0 len = Some s" "unat s = ones (osum (take (unat len) (drop off data)))"
    using ip_checksum_ones [OF assms] ip_checksum_ones [of 0 len "take (unat len) (drop off data)"] assms by auto
  then show ?thesis by (simp add: word_unat_eq_iff)
qed

text \<open>The header is good exactly when its checksum is the complement of the sum of the cleared header.\<close>

lemma frame_ip_ok:
  assumes "length (mac_mac m) = 12" "ip_checksum (enc_ipv4 (i\<lparr>ip_check := 0\<rparr>)) 0 20 = Some s"
  shows "ip_header_ok (frame_bytes m i c chunk) \<longleftrightarrow> ip_check i = NOT (ucast s)"
proof -
  let ?f = "frame_bytes m i c chunk"
  have l: "34 \<le> length ?f" by (simp add: length_frame_bytes assms(1))
  have z: "splice ?f 24 (word_bytes 2 (0 :: u16)) = frame_bytes m (i\<lparr>ip_check := 0\<rparr>) c chunk"
    by (rule frame_splice) (rule assms(1))
  have "14 + unat (20 :: u16) \<le> length (frame_bytes m (i\<lparr>ip_check := 0\<rparr>) c chunk)"
    by (simp add: length_frame_bytes assms(1))
  from ip_checksum_slice [OF this] have "ip_checksum (splice ?f 24 (word_bytes 2 (0 :: u16))) 14 20 = Some s"
    using assms by (simp add: z frame_fields)
  then show ?thesis using ip_check_correct [OF l] by (simp add: frame_fields assms(1))
qed

lemma frame_crc_ok:
  assumes "length (mac_mac m) = 12" "unat (ntohs (bytes_word (take 2 (drop 2 chunk)))) = n"
  shows "sctp_crc_ok (frame_bytes m i c chunk) \<longleftrightarrow>
    cmn_check c = NOT (crc_bytes (take (12 + n) (enc_cmn (c\<lparr>cmn_check := 0\<rparr>) @ chunk)) 0xFFFFFFFF)"
  unfolding sctp_crc_ok_def frame_splice(2) [OF assms(1)] frame_fields [OF assms(1)] assms(2) ..

lemma frame_valid_parts:
  assumes "length (mac_mac m) = 12" "ip_checksum (enc_ipv4 (i\<lparr>ip_check := 0\<rparr>)) 0 20 = Some s"
    "36 \<le> unat (ntohs (ip_len i))" "unat (ntohs (bytes_word (take 2 (drop 2 chunk)))) = n" "4 \<le> length chunk" "n \<le> length chunk"
  shows "frame_valid (frame_bytes m i c chunk) \<longleftrightarrow> ip_check i = NOT (ucast s)
    \<and> cmn_check c = NOT (crc_bytes (take (12 + n) (enc_cmn (c\<lparr>cmn_check := 0\<rparr>) @ chunk)) 0xFFFFFFFF)"
  using assms by (simp add: frame_valid_def frame_ip_ok frame_crc_ok frame_fields length_frame_bytes)

section \<open>The builders in front of a payload\<close>

lemma in_buf_int [simp]: "in_buf (int n) = Some n"
  by (simp add: in_buf_def)

lemma in_buf_back: "in_buf (int (off + k) - int k) = Some off"
  by (simp add: in_buf_def)

definition cmn_built :: "u16 \<Rightarrow> u16 \<Rightarrow> u32 \<Rightarrow> nat \<Rightarrow> bytes \<Rightarrow> sctp_common_hdr" where
  "cmn_built srcport dstport tag n chunk =
     (let c = \<lparr>cmn_srcp = htons srcport, cmn_dstp = htons dstport, cmn_tag = tag, cmn_check = 0\<rparr> in
      c\<lparr>cmn_check := NOT (crc_bytes (take (12 + n) (enc_cmn c @ chunk)) 0xFFFFFFFF)\<rparr>)"

lemma cmn_step:
  assumes "length pre = off" "length e = 12" "n \<le> length chunk" "n + 12 < 65536"
  shows "build_sctp_cmn_hdr_raw (pre @ e @ chunk, Some (int (off + 12)), of_nat n) srcport dstport tag
    = Some (pre @ enc_cmn (cmn_built srcport dstport tag n chunk) @ chunk, Some (int off), of_nat (n + 12))"
proof -
  let ?c = "\<lparr>cmn_srcp = htons srcport, cmn_dstp = htons dstport, cmn_tag = tag, cmn_check = 0\<rparr>"
  let ?crc = "NOT (crc_bytes (take (12 + n) (enc_cmn ?c @ chunk)) 0xFFFFFFFF)"
  have pl: "unat (ucast (of_nat (n + 12) :: u16) :: u32) = 12 + n"
    using assms(4) unat_ucast_up [of "of_nat (n + 12) :: u16", where 'b = 32] by (simp add: unat_of_nat del: of_nat_add)
  have w: "mwrite (pre @ e @ chunk) off (enc_cmn ?c) = Some (pre @ enc_cmn ?c @ chunk)"
    using assms(1,2) mwrite_part [of "enc_cmn ?c" e pre chunk] by simp
  have g: "generate_crc32c (drop off (pre @ enc_cmn ?c @ chunk)) (ucast (of_nat (n + 12) :: u16)) = Some ?crc"
    using generate_crc32c_bytes [of "ucast (of_nat (n + 12) :: u16)" "enc_cmn ?c @ chunk"] pl assms(1,3) by simp
  have "splice (pre @ enc_cmn ?c @ chunk) (off + 8) (word_bytes 4 ?crc) = pre @ enc_cmn (?c\<lparr>cmn_check := ?crc\<rparr>) @ chunk"
    using splice_mid [OF assms(1), of 8 "word_bytes 4 ?crc" "enc_cmn ?c" chunk] by (simp only: splice_cmn_check) simp
  then have p: "put_u32 (pre @ enc_cmn ?c @ chunk) (off + 8) ?crc = Some (pre @ enc_cmn (?c\<lparr>cmn_check := ?crc\<rparr>) @ chunk)"
    using assms(1) by (simp add: mwrite_def)
  have n12: "(of_nat n + 12 :: u16) = of_nat (n + 12)" by simp
  have ib: "in_buf (int (off + 12) - 12) = Some off" using in_buf_back [of off 12] by simp
  show ?thesis
    unfolding build_sctp_cmn_hdr_raw.simps n12 Let_def ib
    by (simp only: Option.bind.simps w g p) (simp add: cmn_built_def)
qed

definition ip_built :: "u16 \<Rightarrow> u16 \<Rightarrow> u32 \<Rightarrow> u32 \<Rightarrow> u8 \<Rightarrow> ipv4_hdr" where
  "ip_built indent len src dst proto =
     (let i = \<lparr>ip_ihl = 5, ip_ver = 4, ip_tos = ucast (htons 0x2), ip_len = htons len, ip_indent = indent, ip_offset = 0,
               ip_ttl = 181, ip_proto = proto, ip_check = 0, ip_src_addr = src, ip_dest_addr = dst\<rparr> in
      i\<lparr>ip_check := NOT (ucast (the (ip_checksum (enc_ipv4 i) 0 20)))\<rparr>)"

lemma ip_checksum_20: "length h = 20 \<Longrightarrow> \<exists>s. ip_checksum h 0 20 = Some s"
  using ip_checksum_ones [of 0 20 h] by auto

lemma ip_step:
  assumes "length pre = off" "length e = 20"
  shows "build_ip_raw rnd (pre @ e @ post, Some (int (off + 20)), l) src dst proto
    = Some (snd (get_random_u32 rnd),
        pre @ enc_ipv4 (ip_built (ucast (fst (get_random_u32 rnd))) (l + 20) src dst proto) @ post, Some (int off), l + 20)"
proof -
  let ?i = "\<lparr>ip_ihl = 5, ip_ver = 4, ip_tos = ucast (htons 0x2), ip_len = htons (l + 20), ip_indent = ucast (fst (get_random_u32 rnd)),
    ip_offset = 0, ip_ttl = 181, ip_proto = proto, ip_check = 0, ip_src_addr = src, ip_dest_addr = dst\<rparr>"
  obtain s where s: "ip_checksum (enc_ipv4 ?i) 0 20 = Some s" using ip_checksum_20 [of "enc_ipv4 ?i"] by auto
  have w: "mwrite (pre @ e @ post) off (enc_ipv4 ?i) = Some (pre @ enc_ipv4 ?i @ post)"
    using assms mwrite_part [of "enc_ipv4 ?i" e pre post] by simp
  have "splice (pre @ enc_ipv4 ?i @ post) (off + 10) (word_bytes 2 (NOT (ucast s) :: u16))
      = pre @ enc_ipv4 (?i\<lparr>ip_check := NOT (ucast s)\<rparr>) @ post"
    using splice_mid [OF assms(1), of 10 "word_bytes 2 (NOT (ucast s) :: u16)" "enc_ipv4 ?i" post]
    by (simp only: splice_ip_check) simp
  then have p: "put_u16 (pre @ enc_ipv4 ?i @ post) (off + 10) (NOT (ucast s) :: u16) = Some (pre @ enc_ipv4 (?i\<lparr>ip_check := NOT (ucast s)\<rparr>) @ post)"
    using assms(1) by (simp add: mwrite_def)
  have ib: "in_buf (int (off + 20) - 20) = Some off" using in_buf_back [of off 20] by simp
  show ?thesis
    unfolding build_ip_raw.simps Let_def split_beta ib
    by (simp only: Option.bind.simps w s p) (simp add: ip_built_def s Let_def)
qed

lemma mac_step:
  assumes "length pre = off" "length e = 14" "length gw = 6" "length dev = 6"
  shows "build_mac_raw (pre @ e @ post, Some (int (off + 14)), l) (Some gw) (Some dev) typelen
    = Some (pre @ enc_mac \<lparr>mac_mac = gw @ dev, mac_type = htons typelen\<rparr> @ post, Some (int off), l + 14)"
proof -
  obtain e1 e2 e3 where e: "e = e1 @ e2 @ e3" "length e1 = 6" "length e2 = 6" "length e3 = 2"
  proof
    show "e = take 6 e @ take 6 (drop 6 e) @ drop 12 e"
      by (metis append_take_drop_id drop_drop numeral_Bit0)
  qed (use assms(2) in simp_all)
  have "mwrite (pre @ e @ post) off gw = Some (pre @ gw @ e2 @ e3 @ post)"
    using mwrite_part [of gw e1 pre "e2 @ e3 @ post"] assms(1,3) e by simp
  moreover have "mwrite (pre @ gw @ e2 @ e3 @ post) (off + 6) dev = Some (pre @ gw @ dev @ e3 @ post)"
    using mwrite_part [of dev e2 "pre @ gw" "e3 @ post"] assms(1,3,4) e by simp
  moreover have "put_u16 (pre @ gw @ dev @ e3 @ post) (off + 12) (htons typelen) = Some (pre @ gw @ dev @ word_bytes 2 (htons typelen) @ post)"
    using mwrite_part [of "word_bytes 2 (htons typelen)" e3 "pre @ gw @ dev" post] assms(1,3,4) e by simp
  moreover have "in_buf (int (off + 14) - 14) = Some off" using in_buf_back [of off 14] by simp
  ultimately show ?thesis using assms(3,4) by (simp add: build_mac_raw.simps mread_def enc_mac_def)
qed

definition frame_built ::
  "bytes \<Rightarrow> bytes \<Rightarrow> u32 \<Rightarrow> u32 \<Rightarrow> u16 \<Rightarrow> u16 \<Rightarrow> u32 \<Rightarrow> u16 \<Rightarrow> bytes \<Rightarrow> bytes" where
  "frame_built gw dev src dst srcport dstport tag indent chunk =
     frame_bytes \<lparr>mac_mac = gw @ dev, mac_type = htons ETHERTYPE_IP\<rparr>
       (ip_built indent (of_nat (length chunk + 32)) src dst PROTO_SCTP)
       (cmn_built srcport dstport tag (length chunk) chunk) chunk"

lemma ip_built_simps [simp]:
  "ip_len (ip_built indent len src dst proto) = htons len"
  "ip_src_addr (ip_built indent len src dst proto) = src" "ip_dest_addr (ip_built indent len src dst proto) = dst"
  "ip_proto (ip_built indent len src dst proto) = proto" "ip_indent (ip_built indent len src dst proto) = indent"
  by (simp_all add: ip_built_def Let_def)

lemma ip_built_check:
  "\<exists>s. ip_checksum (enc_ipv4 (ip_built indent len src dst proto\<lparr>ip_check := 0\<rparr>)) 0 20 = Some s
    \<and> ip_check (ip_built indent len src dst proto) = NOT (ucast s)"
  using ip_checksum_20 [of "enc_ipv4 (ip_built indent len src dst proto\<lparr>ip_check := 0\<rparr>)"]
  by (auto simp: ip_built_def Let_def)

lemma frame_built_valid:
  assumes "length gw = 6" "length dev = 6" "4 \<le> length chunk" "length chunk + 46 < 65536"
    "unat (ntohs (bytes_word (take 2 (drop 2 chunk)))) = length chunk"
  shows "frame_valid (frame_built gw dev src dst srcport dstport tag indent chunk)"
proof -
  let ?i = "ip_built indent (of_nat (length chunk + 32)) src dst PROTO_SCTP"
  obtain s where s: "ip_checksum (enc_ipv4 (?i\<lparr>ip_check := 0\<rparr>)) 0 20 = Some s" "ip_check ?i = NOT (ucast s)"
    using ip_built_check by blast
  have "unat (of_nat (length chunk + 32) :: u16) = length chunk + 32"
    using assms(4) by (simp add: unat_of_nat del: of_nat_add)
  then have "36 \<le> unat (ntohs (ip_len ?i))" using assms(3) by (simp del: of_nat_add)
  then show ?thesis
    unfolding frame_built_def
    using frame_valid_parts [OF _ s(1) _ assms(5)] assms(1,2,3) s(2)
    by (simp add: cmn_built_def Let_def del: of_nat_add)
qed

lemma length_frame_built:
  "length gw = 6 \<Longrightarrow> length dev = 6 \<Longrightarrow> length (frame_built gw dev src dst srcport dstport tag indent chunk) = 46 + length chunk"
  by (simp add: frame_built_def length_frame_bytes)

lemma envelope:
  assumes "length pre = b" "length ma = 14" "length ip = 20" "length cm = 12" "length chunk + 46 < 65536"
    "length gw = 6" "length dev = 6"
    and c: "c = cmn_built srcport dstport tag (length chunk) chunk"
    and i: "i = ip_built (ucast (fst (get_random_u32 rnd))) (of_nat (length chunk + 32)) src dst PROTO_SCTP"
  shows "build_sctp_cmn_hdr_raw (pre @ ma @ ip @ cm @ chunk @ post, Some (int (b + 46)), of_nat (length chunk)) srcport dstport tag
      = Some (pre @ ma @ ip @ enc_cmn c @ chunk @ post, Some (int (b + 34)), of_nat (length chunk + 12))" (is ?A)
    and "build_ip_raw rnd (pre @ ma @ ip @ enc_cmn c @ chunk @ post, Some (int (b + 34)), of_nat (length chunk + 12)) src dst PROTO_SCTP
      = Some (snd (get_random_u32 rnd), pre @ ma @ enc_ipv4 i @ enc_cmn c @ chunk @ post, Some (int (b + 14)), of_nat (length chunk + 32))" (is ?B)
    and "build_mac_raw (pre @ ma @ enc_ipv4 i @ enc_cmn c @ chunk @ post, Some (int (b + 14)), of_nat (length chunk + 32)) (Some gw) (Some dev) ETHERTYPE_IP
      = Some (pre @ frame_built gw dev src dst srcport dstport tag (ucast (fst (get_random_u32 rnd))) chunk @ post,
          Some (int b), of_nat (length chunk + 46))" (is ?C)
proof -
  have cc: "cmn_built srcport dstport tag (length chunk) (chunk @ post) = c"
    by (simp add: cmn_built_def c)
  show ?A
    using cmn_step [of "pre @ ma @ ip" "b + 34" cm "length chunk" "chunk @ post" srcport dstport tag] assms(1-5)
    by (simp add: cc add.commute)
  have l: "(of_nat (length chunk + 12) + 20 :: u16) = of_nat (length chunk + 32)"
    "(of_nat (length chunk + 32) + 14 :: u16) = of_nat (length chunk + 46)" by simp_all
  show ?B
    using ip_step [of "pre @ ma" "b + 14" ip rnd "enc_cmn c @ chunk @ post" "of_nat (length chunk + 12)" src dst PROTO_SCTP] assms(1-3)
    by (simp add: l i add.commute [of b] del: of_nat_add)
  show ?C
    using mac_step [of pre b ma gw dev "enc_ipv4 i @ enc_cmn c @ chunk @ post" "of_nat (length chunk + 32)" ETHERTYPE_IP] assms(1,2,6,7)
    by (simp add: l frame_built_def frame_bytes_def c i del: of_nat_add)
qed

lemma init_step:
  assumes "length pre = off" "length e = 16"
  shows "build_sctp_init_hdr_raw (pre @ e @ post, Some (int (off + 16)), l) tag a_rwnd os mis tsn
    = Some (pre @ enc_init \<lparr>init_tag = htonl tag, init_a_rwnd = htonl a_rwnd, init_os = htons os, init_mis = htons mis,
        init_tsn = htonl tsn\<rparr> @ post, Some (int off), l + 16)"
proof -
  have ib: "in_buf (int (off + 16) - 16) = Some off" using in_buf_back [of off 16] by simp
  show ?thesis unfolding build_sctp_init_hdr_raw.simps ib
    using assms mwrite_part [of "enc_init x" e pre post for x] by simp
qed

lemma fld_step:
  assumes "length pre = off" "length e = 4"
  shows "build_sctp_fld_hdr_raw (pre @ e @ post, Some (int (off + 4)), l) type flags len
    = Some (pre @ enc_fld \<lparr>fld_type = type, fld_flags = flags, fld_len = htons len\<rparr> @ post, Some (int off), l + 4)"
proof -
  have ib: "in_buf (int (off + 4) - 4) = Some off" using in_buf_back [of off 4] by simp
  show ?thesis unfolding build_sctp_fld_hdr_raw.simps ib
    using assms mwrite_part [of "enc_fld x" e pre post for x] by simp
qed

text \<open>Field-by-field stores into a structure are one store of its image.\<close>

lemma mwrite_seq:
  assumes "off + length d1 + length d2 \<le> length m"
  shows "mwrite (splice m off d1) (off + length d1) d2 = Some (splice m off (d1 @ d2))"
  using assms by (simp add: mwrite_def splice_def add_ac)

lemma init_ack_step:
  assumes "length pre = off" "length e = 16"
  shows "build_sctp_init_ack_hdr_raw (pre @ e @ post, Some (int (off + 16)), l) tag a_rwnd os mis tsn
    = Some (pre @ enc_init \<lparr>init_tag = htonl tag, init_a_rwnd = htonl a_rwnd, init_os = htons os, init_mis = htons mis,
        init_tsn = htonl tsn\<rparr> @ post, Some (int off), l + 16)"
proof -
  have ib: "in_buf (int (off + 16) - 16) = Some off" using in_buf_back [of off 16] by simp
  let ?m = "pre @ e @ post"
  let ?a = "word_bytes 4 (htonl tag)" and ?b = "word_bytes 4 (htonl a_rwnd)" and ?c = "word_bytes 2 (htons os)"
    and ?d = "word_bytes 2 (htons mis)" and ?e = "word_bytes 4 (htonl tsn)"
  have len: "off + 16 \<le> length ?m" using assms by simp
  have "mwrite ?m off ?a = Some (splice ?m off ?a)" using len by (simp add: mwrite_def)
  moreover have "mwrite (splice ?m off ?a) (off + 4) ?b = Some (splice ?m off (?a @ ?b))"
    using mwrite_seq [of off ?a ?b ?m] len by simp
  moreover have "mwrite (splice ?m off (?a @ ?b)) (off + 8) ?c = Some (splice ?m off (?a @ ?b @ ?c))"
    using mwrite_seq [of off "?a @ ?b" ?c ?m] len by simp
  moreover have "mwrite (splice ?m off (?a @ ?b @ ?c)) (off + 10) ?d = Some (splice ?m off (?a @ ?b @ ?c @ ?d))"
    using mwrite_seq [of off "?a @ ?b @ ?c" ?d ?m] len by simp
  moreover have "mwrite (splice ?m off (?a @ ?b @ ?c @ ?d)) (off + 12) ?e = Some (splice ?m off (?a @ ?b @ ?c @ ?d @ ?e))"
    using mwrite_seq [of off "?a @ ?b @ ?c @ ?d" ?e ?m] len by simp
  moreover have "splice ?m off (?a @ ?b @ ?c @ ?d @ ?e) = pre @ (?a @ ?b @ ?c @ ?d @ ?e) @ post"
    using splice_part [of "?a @ ?b @ ?c @ ?d @ ?e" e pre post] assms by simp
  ultimately show ?thesis unfolding build_sctp_init_ack_hdr_raw.simps ib by (simp add: enc_init_def)
qed

lemma echo_step:
  assumes "length pre = off" "length e = unat n" "obj_read ck (unat n) = Some d" "length d = unat n"
  shows "build_sctp_cookie_echo_hdr_raw (pre @ e @ post, Some (int (off + unat n)), l) ck n
    = Some (pre @ d @ post, Some (int off), l + n)"
  using assms mwrite_part [of d e pre post] in_buf_back [of off "unat n"]
  by (simp add: build_sctp_cookie_echo_hdr_raw.simps)

text \<open>The cookie parameter: its header, the 40 bytes of the cookie and their keyed hash.\<close>

definition cookie_param :: "bytes \<Rightarrow> bytes" where
  "cookie_param ck = enc_par \<lparr>par_type = htons 7, par_len = htons 60\<rparr> @ take 40 ck @ hmac_spec cookie_key (take 40 ck)"

lemma length_cookie_param: "40 \<le> length ck \<Longrightarrow> length (cookie_param ck) = 60"
  by (simp add: cookie_param_def)

lemma length_cookie_key [simp]: "length cookie_key = 16"
  by (simp add: cookie_key_def)

lemma length_meta_bytes [simp]: "length (meta_bytes s) = 40"
  by (simp add: meta_bytes_def)

lemma cookie_hmac:
  assumes "length ck = 40"
  shows "hmac_md5 g ck 40 cookie_key 16 = Some (hmac_spec cookie_key ck)"
  using hmac_md5_spec [of ck cookie_key g] assms by simp

lemma cookie_step:
  assumes "length pre = off" "length e = 60" "length ck = 40"
  shows "build_sctp_cookie_param_raw g (pre @ e @ post, Some (int (off + 60)), l) (Some ck)
    = Some (pre @ cookie_param ck @ post, Some (int off), l + 60)"
proof -
  let ?m = "pre @ e @ post" and ?h = "hmac_spec cookie_key ck"
  let ?a = "word_bytes 2 (htons 7)" and ?b = "word_bytes 2 (htons (4 + 40 + 16))"
  have ib: "in_buf (int (off + 60) - (4 + 40 + 16)) = Some off" using in_buf_back [of off 60] by simp
  have len: "off + 60 \<le> length ?m" using assms by simp
  have "mwrite ?m off ?a = Some (splice ?m off ?a)" using len by (simp add: mwrite_def)
  moreover have "mwrite (splice ?m off ?a) (off + 2) ?b = Some (splice ?m off (?a @ ?b))"
    using mwrite_seq [of off ?a ?b ?m] len by simp
  moreover have "mwrite (splice ?m off (?a @ ?b)) (off + 4) ck = Some (splice ?m off (?a @ ?b @ ck))"
    using mwrite_seq [of off "?a @ ?b" ck ?m] len assms(3) by simp
  moreover have "mwrite (splice ?m off (?a @ ?b @ ck)) (off + 44) ?h = Some (splice ?m off (?a @ ?b @ ck @ ?h))"
    using mwrite_seq [of off "?a @ ?b @ ck" ?h ?m] len assms(3) by simp
  moreover have "off + 4 + 40 = off + 44" by simp
  moreover have f: "splice ?m off (?a @ ?b @ ck @ ?h) = pre @ (?a @ ?b @ ck @ ?h) @ post"
    using splice_part [of "?a @ ?b @ ck @ ?h" e pre post] assms by simp
  moreover have "get_u16 (pre @ (?a @ ?b @ ck @ ?h) @ post) (off + 2) = Some (htons 60)"
    using assms(1) by (simp add: get_word_in)
  ultimately show ?thesis
    unfolding build_sctp_cookie_param_raw.simps ib
    using assms(3) by (simp add: mread_def cookie_hmac cookie_param_def enc_par_def add.commute)
qed

section \<open>Whole frames\<close>

definition chunk_hdr :: "u8 \<Rightarrow> nat \<Rightarrow> bytes" where
  "chunk_hdr type n = enc_fld \<lparr>fld_type = type, fld_flags = 0, fld_len = htons (of_nat n)\<rparr>"

lemma chunk_hdr_len:
  "n < 65536 \<Longrightarrow> unat (ntohs (bytes_word (take 2 (drop 2 (chunk_hdr type n @ body))))) = n"
  by (simp add: chunk_hdr_def enc_fld_def unat_of_nat)

lemma length_chunk_hdr [simp]: "length (chunk_hdr type n) = 4"
  by (simp add: chunk_hdr_def)

text \<open>
  The last four calls of every builder, on a buffer whose chunk body is in place, and the frame they leave.
\<close>

lemma chunk_envelope:
  assumes "length pre = b" "length ma = 14" "length ip = 20" "length cm = 12" "length fl = 4" "length body + 50 < 65536"
    "length gw = 6" "length dev = 6"
  shows "do { cur \<leftarrow> build_sctp_fld_hdr_raw (pre @ ma @ ip @ cm @ fl @ body @ post, Some (int (b + 50)), of_nat (length body)) type 0 (of_nat (length body) + 4);
              cur \<leftarrow> build_sctp_cmn_hdr_raw cur srcport dstport tag;
              (rnd, cur) \<leftarrow> build_ip_raw rnd cur src dst PROTO_SCTP;
              cur \<leftarrow> build_mac_raw cur (Some gw) (Some dev) ETHERTYPE_IP;
              k rnd cur }
    = k (snd (get_random_u32 rnd))
        (pre @ frame_built gw dev src dst srcport dstport tag (ucast (fst (get_random_u32 rnd))) (chunk_hdr type (length body + 4) @ body) @ post,
         Some (int b), of_nat (length body + 50))"
proof -
  let ?ch = "chunk_hdr type (length body + 4) @ body"
  have f: "build_sctp_fld_hdr_raw (pre @ ma @ ip @ cm @ fl @ body @ post, Some (int (b + 50)), of_nat (length body)) type 0 (of_nat (length body) + 4)
      = Some (pre @ ma @ ip @ cm @ ?ch @ post, Some (int (b + 46)), of_nat (length ?ch))"
    using fld_step [of "pre @ ma @ ip @ cm" "b + 46" fl "body @ post" "of_nat (length body)" type 0 "of_nat (length body) + 4"] assms(1-5)
    by (simp add: chunk_hdr_def add.commute)
  have "length ?ch + 46 < 65536" using assms(6) by simp
  note e = envelope [OF assms(1-4) this assms(7,8) refl refl]
  have l: "length ?ch + 46 = length body + 50" by simp
  show ?thesis
    unfolding f by (simp only: Option.bind.simps e split l)
qed

text \<open>
  C32. \<^verbatim>\<open>build_sctp_init_hdr\<close>, given an empty frame with room for 66 bytes, returns, writes exactly those bytes
  and leaves a frame that the receiver's check accepts: an INIT chunk with the tag and the TSN drawn from the
  random buffer and the configured window and stream numbers, addressed as the connection state says.
\<close>

theorem build_sctp_init_hdr_valid:
  assumes "fr_packet f = Some (int b)" "fr_plen f = 0" "b + 66 \<le> length (fr_mem f)" "fr_state f = Some meta"
    "length (m_gateway meta) = 6" "length (m_dev meta) = 6" "rnd_inv rnd"
  shows "\<exists>tag tsn rnd1 rnd2 rnd3 f'. get_random_from_buffer_u32 rnd = Some (tag, rnd1) \<and> get_random_from_buffer_u32 rnd1 = Some (tsn, rnd2)
    \<and> build_sctp_init_hdr rnd (Some f) = Some (rnd3, Some f') \<and> fr_packet f' = Some (int b) \<and> fr_plen f' = 66
    \<and> take 66 (drop b (fr_mem f')) = frame_built (m_gateway meta) (m_dev meta) (m_src_ip meta) (m_dst_ip meta)
        (ucast (m_src_port meta)) (ucast (m_dst_port meta)) 0 (ucast (fst (get_random_u32 rnd2)))
        (chunk_hdr SCTP_INIT 20 @ enc_init \<lparr>init_tag = htonl tag, init_a_rwnd = htonl (m_src_arwnd meta),
           init_os = htons (m_src_os meta), init_mis = htons (m_src_mis meta), init_tsn = htonl tsn\<rparr>)
    \<and> frame_valid (take 66 (drop b (fr_mem f')))
    \<and> take b (fr_mem f') = take b (fr_mem f) \<and> drop (b + 66) (fr_mem f') = drop (b + 66) (fr_mem f)"
proof -
  obtain tag rnd1 where r1: "get_random_from_buffer_u32 rnd = Some (tag, rnd1)" "rnd_inv rnd1"
    using from_buffer_ok [OF assms(7), of 4, where 'a = 32] by (auto simp: from_buffer_eqs)
  obtain tsn rnd2 where r2: "get_random_from_buffer_u32 rnd1 = Some (tsn, rnd2)" "rnd_inv rnd2"
    using from_buffer_ok [OF r1(2), of 4, where 'a = 32] by (auto simp: from_buffer_eqs)
  have room: "b + (50 + 16) \<le> length (fr_mem f)" using assms(3) by simp
  obtain pre ma ip cm fl ini post where m: "fr_mem f = pre @ ma @ ip @ cm @ fl @ ini @ post" "length pre = b" "length ma = 14"
    "length ip = 20" "length cm = 12" "length fl = 4" "length ini = 16" by (rule split_frame [OF room])
  let ?i = "\<lparr>init_tag = htonl tag, init_a_rwnd = htonl (m_src_arwnd meta),
    init_os = htons (m_src_os meta), init_mis = htons (m_src_mis meta), init_tsn = htonl tsn\<rparr>"
  let ?ch = "chunk_hdr SCTP_INIT 20 @ enc_init ?i"
  let ?fr = "frame_built (m_gateway meta) (m_dev meta) (m_src_ip meta) (m_dst_ip meta)
        (ucast (m_src_port meta)) (ucast (m_dst_port meta)) 0 (ucast (fst (get_random_u32 rnd2))) ?ch"
  let ?f' = "frame_result f (pre @ ?fr @ post, Some (int b), 66)"
  have i: "build_sctp_init_hdr_raw (fr_mem f, Some (int (b + 66)), 0) tag (m_src_arwnd meta) (m_src_os meta) (m_src_mis meta) tsn
      = Some (pre @ ma @ ip @ cm @ fl @ enc_init ?i @ post, Some (int (b + 50)), 16)"
    using init_step [of "pre @ ma @ ip @ cm @ fl" "b + 50" ini post 0] m by (simp add: add.commute)
  note env = chunk_envelope [of pre b ma ip cm fl "enc_init ?i" "m_gateway meta" "m_dev meta" post SCTP_INIT "ucast (m_src_port meta)"
      "ucast (m_dst_port meta)" 0 rnd2 "m_src_ip meta" "m_dst_ip meta" "\<lambda>rnd cur. Some (rnd, Some (frame_result f cur))"]
  have "build_sctp_init_hdr rnd (Some f) = Some (snd (get_random_u32 rnd2), Some ?f')"
    using r1(1) r2(1) i env m(2-) assms(1,2,4,5,6)
    by (simp add: frame_cursor_def add.commute)
  moreover have "length ?fr = 66" using assms(5,6) by (simp add: length_frame_built)
  moreover have "frame_valid ?fr"
    using assms(5,6) chunk_hdr_len [of 20 SCTP_INIT "enc_init ?i"] by (intro frame_built_valid) simp_all
  ultimately show ?thesis
    using r1(1) r2(1) m by (intro exI [of _ tag] exI [of _ tsn] exI [of _ rnd1] exI [of _ rnd2] exI [of _ "snd (get_random_u32 rnd2)"] exI [of _ ?f'])
      (simp add: frame_result_def)
qed

definition sample_meta :: if_ip_sctp_meta where
  "sample_meta = \<lparr>m_ver_tag = 1, m_init_tag = 2, m_a_rwnd = 3, m_os = 4, m_mis = 5, m_tsn = 6, m_src_ip = 7, m_dst_ip = 8,
     m_src_port = 9, m_dst_port = 10, m_state = 0, m_src_arwnd = 65535, m_src_os = 32, m_src_mis = 32,
     m_dev = [1, 2, 3, 4, 5, 6], m_gateway = [6, 5, 4, 3, 2, 1], m_add = Live [1, 2, 3, 4], m_add_len = 4\<rparr>"

definition sample_data :: frame_data where
  "sample_data = \<lparr>fr_mem = replicate 200 0, fr_packet = Some 0, fr_pmem = replicate 200 0, fr_prefill = Some 0, fr_plen = 0,
     fr_proto = PROTO_STACK_IP_SCTP, fr_sync = None, fr_state = Some sample_meta\<rparr>"

theorem build_sctp_init_hdr_valid_witness:
  "\<exists>rnd' f'. build_sctp_init_hdr (random_start []) (Some sample_data) = Some (rnd', Some f')
    \<and> fr_plen f' = 66 \<and> frame_valid (take 66 (drop 0 (fr_mem f')))"
proof -
  have a: "fr_packet sample_data = Some (int 0)" "fr_plen sample_data = 0" "0 + 66 \<le> length (fr_mem sample_data)"
    "fr_state sample_data = Some sample_meta" "length (m_gateway sample_meta) = 6" "length (m_dev sample_meta) = 6"
    by (simp_all add: sample_data_def sample_meta_def)
  show ?thesis using build_sctp_init_hdr_valid [OF a rnd_inv_start [of "[]"]] by blast
qed

text \<open>
  C33. \<^verbatim>\<open>build_sctp_init_ack_hdr\<close> leaves a frame that the receiver's check accepts: an INIT ACK chunk followed by
  a State Cookie parameter that holds the first 40 bytes of the connection state, with the tag and TSN just
  drawn, and their HMAC-MD5 under the server's key.
\<close>

theorem build_sctp_init_ack_hdr_valid:
  assumes "fr_packet f = Some (int b)" "fr_plen f = 0" "b + 126 \<le> length (fr_mem f)" "fr_state f = Some meta0"
    "length (m_gateway meta0) = 6" "length (m_dev meta0) = 6"
    "get_random_u32 rnd = (tag, rnd1)" "get_random_u32 rnd1 = (tsn, rnd2)" "meta = meta0\<lparr>m_init_tag := tag, m_tsn := tsn\<rparr>"
  shows "\<exists>rnd3 f'. build_sctp_init_ack_hdr g rnd (Some f) = Some (rnd3, Some f') \<and> fr_packet f' = Some (int b) \<and> fr_plen f' = 126
    \<and> fr_state f' = Some meta
    \<and> take 126 (drop b (fr_mem f')) = frame_built (m_gateway meta) (m_dev meta) (m_src_ip meta) (m_dst_ip meta)
        (ucast (m_src_port meta)) (ucast (m_dst_port meta)) (m_ver_tag meta) (ucast (fst (get_random_u32 rnd2)))
        (chunk_hdr SCTP_INIT_ACK 80 @ enc_init \<lparr>init_tag = htonl tag, init_a_rwnd = htonl (m_src_arwnd meta),
           init_os = htons (m_src_os meta), init_mis = htons (m_src_mis meta), init_tsn = htonl tsn\<rparr>
         @ cookie_param (meta_bytes meta))
    \<and> frame_valid (take 126 (drop b (fr_mem f')))
    \<and> take b (fr_mem f') = take b (fr_mem f) \<and> drop (b + 126) (fr_mem f') = drop (b + 126) (fr_mem f)"
proof -
  have room: "b + (50 + 76) \<le> length (fr_mem f)" using assms(3) by simp
  obtain pre ma ip cm fl body post where m: "fr_mem f = pre @ ma @ ip @ cm @ fl @ body @ post" "length pre = b" "length ma = 14"
    "length ip = 20" "length cm = 12" "length fl = 4" "length body = 76" by (rule split_frame [OF room])
  have "body = take 16 body @ drop 16 body" by simp
  then have mem: "fr_mem f = (pre @ ma @ ip @ cm @ fl) @ take 16 body @ drop 16 body @ post" using m(1) by (metis append.assoc)
  have meta: "m_gateway meta0 = m_gateway meta" "m_dev meta0 = m_dev meta" "m_init_tag meta = tag" "m_tsn meta = tsn"
    "m_src_arwnd meta0 = m_src_arwnd meta" "m_src_os meta0 = m_src_os meta" "m_src_mis meta0 = m_src_mis meta"
    "m_src_port meta0 = m_src_port meta" "m_dst_port meta0 = m_dst_port meta" "m_src_ip meta0 = m_src_ip meta"
    "m_dst_ip meta0 = m_dst_ip meta" "m_ver_tag meta0 = m_ver_tag meta" by (simp_all add: assms(9))
  let ?ck = "cookie_param (meta_bytes meta)"
  let ?i = "\<lparr>init_tag = htonl tag, init_a_rwnd = htonl (m_src_arwnd meta),
    init_os = htons (m_src_os meta), init_mis = htons (m_src_mis meta), init_tsn = htonl tsn\<rparr>"
  let ?ch = "chunk_hdr SCTP_INIT_ACK 80 @ enc_init ?i @ ?ck"
  let ?fr = "frame_built (m_gateway meta) (m_dev meta) (m_src_ip meta) (m_dst_ip meta)
        (ucast (m_src_port meta)) (ucast (m_dst_port meta)) (m_ver_tag meta) (ucast (fst (get_random_u32 rnd2))) ?ch"
  let ?f = "f\<lparr>fr_state := Some meta\<rparr>"
  let ?f' = "frame_result ?f (pre @ ?fr @ post, Some (int b), 126)"
  have ck: "length ?ck = 60" by (simp add: length_cookie_param)
  have c: "build_sctp_cookie_param_raw g (fr_mem f, Some (int (b + 126)), 0) (Some (meta_bytes meta))
      = Some ((pre @ ma @ ip @ cm @ fl) @ take 16 body @ ?ck @ post, Some (int (b + 66)), 60)"
    using cookie_step [of "(pre @ ma @ ip @ cm @ fl) @ take 16 body" "b + 66" "drop 16 body" "meta_bytes meta" g post 0] m(2-) mem
    by (simp add: add.commute)
  have i: "build_sctp_init_ack_hdr_raw ((pre @ ma @ ip @ cm @ fl) @ take 16 body @ ?ck @ post, Some (int (b + 66)), 60)
        tag (m_src_arwnd meta) (m_src_os meta) (m_src_mis meta) tsn
      = Some (pre @ ma @ ip @ cm @ fl @ enc_init ?i @ ?ck @ post, Some (int (b + 50)), 76)"
    using init_ack_step [of "pre @ ma @ ip @ cm @ fl" "b + 50" "take 16 body" "?ck @ post" 60 tag "m_src_arwnd meta" "m_src_os meta" "m_src_mis meta" tsn] m(2-)
    by (simp add: add.commute)
  note env = chunk_envelope [of pre b ma ip cm fl "enc_init ?i @ ?ck" "m_gateway meta" "m_dev meta" post SCTP_INIT_ACK "ucast (m_src_port meta)"
      "ucast (m_dst_port meta)" "m_ver_tag meta" rnd2 "m_src_ip meta" "m_dst_ip meta" "\<lambda>rnd cur. Some (rnd, Some (frame_result ?f cur))"]
  have "build_sctp_init_ack_hdr g rnd (Some f) = Some (snd (get_random_u32 rnd2), Some ?f')"
    using c i env m(2-) assms(1,2,4,5,6,7,8) ck meta
    by (simp add: frame_cursor_def assms(9) [symmetric] add.commute)
  moreover have "length ?fr = 126" using assms(5,6) ck meta by (simp add: length_frame_built)
  moreover have "frame_valid ?fr"
    using assms(5,6) ck meta chunk_hdr_len [of 80 SCTP_INIT_ACK "enc_init ?i @ ?ck"] by (intro frame_built_valid) simp_all
  ultimately show ?thesis
    using m mem by (intro exI [of _ "snd (get_random_u32 rnd2)"] exI [of _ ?f']) (simp add: frame_result_def)
qed

theorem build_sctp_init_ack_hdr_valid_witness:
  "\<exists>rnd' f'. build_sctp_init_ack_hdr (\<lambda>_. 0) (random_start []) (Some sample_data) = Some (rnd', Some f')
    \<and> fr_plen f' = 126 \<and> frame_valid (take 126 (drop 0 (fr_mem f')))"
proof -
  have a: "fr_packet sample_data = Some (int 0)" "fr_plen sample_data = 0" "0 + 126 \<le> length (fr_mem sample_data)"
    "fr_state sample_data = Some sample_meta" "length (m_gateway sample_meta) = 6" "length (m_dev sample_meta) = 6"
    by (simp_all add: sample_data_def sample_meta_def)
  have r: "get_random_u32 (random_start []) = (0, random_start [])"
    by (simp add: get_random_u32_def random_word_def random_start_def)
  show ?thesis using build_sctp_init_ack_hdr_valid [OF a r r refl, of "\<lambda>_. 0"] by blast
qed

text \<open>
  C34. \<^verbatim>\<open>build_sctp_cookie_echo_hdr\<close> leaves a frame that the receiver's check accepts, whose chunk is the
  received cookie as it was, and releases the cookie. The frame starts four bytes after the place it was
  asked for, because the size of the chunk header is counted twice; a second call on the same state does not return.
\<close>

theorem build_sctp_cookie_echo_hdr_valid:
  assumes "fr_packet f = Some (int b)" "fr_plen f = 0" "fr_state f = Some meta" "m_add meta = Live ck" "m_add_len meta = n"
    "length ck = unat n" "b + 54 + unat n \<le> length (fr_mem f)" "unat n + 50 < 65536"
    "length (m_gateway meta) = 6" "length (m_dev meta) = 6"
  shows "\<exists>rnd' f'. build_sctp_cookie_echo_hdr rnd (Some f) = Some (rnd', Some f') \<and> fr_packet f' = Some (int (b + 4))
    \<and> fr_plen f' = n + 50 \<and> fr_state f' = Some (meta\<lparr>m_add := Freed\<rparr>)
    \<and> take (50 + unat n) (drop (b + 4) (fr_mem f')) = frame_built (m_gateway meta) (m_dev meta) (m_src_ip meta) (m_dst_ip meta)
        (ucast (m_src_port meta)) (ucast (m_dst_port meta)) (m_init_tag meta) (ucast (fst (get_random_u32 rnd)))
        (chunk_hdr SCTP_COOKIE_ECHO (unat n + 4) @ ck)
    \<and> frame_valid (take (50 + unat n) (drop (b + 4) (fr_mem f')))
    \<and> (n \<noteq> 0 \<longrightarrow> build_sctp_cookie_echo_hdr rnd' (Some f') = None)"
proof -
  have room: "(b + 4) + (50 + unat n) \<le> length (fr_mem f)" using assms(7) by simp
  obtain pre ma ip cm fl body post where m: "fr_mem f = pre @ ma @ ip @ cm @ fl @ body @ post" "length pre = b + 4" "length ma = 14"
    "length ip = 20" "length cm = 12" "length fl = 4" "length body = unat n" by (rule split_frame [OF room])
  let ?ch = "chunk_hdr SCTP_COOKIE_ECHO (length ck + 4) @ ck"
  let ?fr = "frame_built (m_gateway meta) (m_dev meta) (m_src_ip meta) (m_dst_ip meta)
        (ucast (m_src_port meta)) (ucast (m_dst_port meta)) (m_init_tag meta) (ucast (fst (get_random_u32 rnd))) ?ch"
  let ?f = "f\<lparr>fr_state := Some (meta\<lparr>m_add := Freed\<rparr>)\<rparr>"
  let ?f' = "frame_result ?f (pre @ ?fr @ post, Some (int (b + 4)), n + 50)"
  have nn: "of_nat (length ck) = n" using assms(6) by simp
  have c: "build_sctp_cookie_echo_hdr_raw (fr_mem f, Some (int (b + 54 + unat n)), 0) (Live ck) n
      = Some (pre @ ma @ ip @ cm @ fl @ ck @ post, Some (int (b + 54)), n)"
    using echo_step [of "pre @ ma @ ip @ cm @ fl" "b + 54" body n "Live ck" ck post 0] m assms(6) by (simp add: mread_def)
  note env = chunk_envelope [of pre "b + 4" ma ip cm fl ck "m_gateway meta" "m_dev meta" post SCTP_COOKIE_ECHO "ucast (m_src_port meta)"
      "ucast (m_dst_port meta)" "m_init_tag meta" rnd "m_src_ip meta" "m_dst_ip meta" "\<lambda>rnd cur. Some (rnd, Some (frame_result ?f cur))"]
  have "build_sctp_cookie_echo_hdr rnd (Some f) = Some (snd (get_random_u32 rnd), Some ?f')"
    using c env m(2-) assms(1-6,8-) nn by (simp add: frame_cursor_def add_ac)
  moreover have "length ?fr = 50 + unat n" using assms(6,9,10) by (simp add: length_frame_built)
  moreover have "frame_valid ?fr"
    using assms(6,8,9,10) chunk_hdr_len [of "length ck + 4" SCTP_COOKIE_ECHO ck] by (intro frame_built_valid) simp_all
  moreover have "build_sctp_cookie_echo_hdr r (Some ?f') = None" if "n \<noteq> 0" for r
  proof -
    have "unat n \<noteq> 0" using that by (simp add: unat_eq_0)
    then show ?thesis using assms(5) by (simp add: frame_result_def frame_cursor_def build_sctp_cookie_echo_hdr_raw.simps in_buf_def)
  qed
  ultimately show ?thesis
    using m(2) assms(6) by (intro exI [of _ "snd (get_random_u32 rnd)"] exI [of _ ?f']) (simp add: frame_result_def)
qed

theorem build_sctp_cookie_echo_hdr_valid_witness:
  "\<exists>rnd' f'. build_sctp_cookie_echo_hdr (random_start []) (Some sample_data) = Some (rnd', Some f')
    \<and> fr_packet f' = Some (int (0 + 4)) \<and> frame_valid (take (50 + unat (4 :: u16)) (drop (0 + 4) (fr_mem f')))
    \<and> build_sctp_cookie_echo_hdr rnd' (Some f') = None"
proof -
  have a: "fr_packet sample_data = Some (int 0)" "fr_plen sample_data = 0" "fr_state sample_data = Some sample_meta"
    "m_add sample_meta = Live [1, 2, 3, 4]" "m_add_len sample_meta = 4" "length ([1, 2, 3, 4] :: bytes) = unat (4 :: u16)"
    "0 + 54 + unat (4 :: u16) \<le> length (fr_mem sample_data)" "unat (4 :: u16) + 50 < 65536"
    "length (m_gateway sample_meta) = 6" "length (m_dev sample_meta) = 6"
    by (simp_all add: sample_data_def sample_meta_def)
  show ?thesis using build_sctp_cookie_echo_hdr_valid [OF a, of "random_start []"] by force
qed

text \<open>
  \<^verbatim>\<open>build_sctp_cookie_ack_hdr\<close> leaves a COOKIE ACK frame that the receiver's check accepts; the object behind
  the state's cookie pointer is released.
\<close>

theorem build_sctp_cookie_ack_hdr_valid:
  assumes "fr_packet f = Some (int b)" "fr_plen f = 0" "fr_state f = Some meta" "obj_free (m_add meta) = Some add"
    "b + 50 \<le> length (fr_mem f)" "length (m_gateway meta) = 6" "length (m_dev meta) = 6"
  shows "\<exists>rnd' f'. build_sctp_cookie_ack_hdr rnd (Some f) = Some (rnd', Some f') \<and> fr_packet f' = Some (int b) \<and> fr_plen f' = 50
    \<and> fr_state f' = Some (meta\<lparr>m_add := add\<rparr>)
    \<and> take 50 (drop b (fr_mem f')) = frame_built (m_gateway meta) (m_dev meta) (m_src_ip meta) (m_dst_ip meta)
        (ucast (m_src_port meta)) (ucast (m_dst_port meta)) (m_ver_tag meta) (ucast (fst (get_random_u32 rnd))) (chunk_hdr SCTP_COOKIE_ACK 4)
    \<and> frame_valid (take 50 (drop b (fr_mem f')))"
proof -
  have room: "b + (50 + 0) \<le> length (fr_mem f)" using assms(5) by simp
  obtain pre ma ip cm fl body post where m: "fr_mem f = pre @ ma @ ip @ cm @ fl @ body @ post" "length pre = b" "length ma = 14"
    "length ip = 20" "length cm = 12" "length fl = 4" "length body = 0" by (rule split_frame [OF room])
  let ?fr = "frame_built (m_gateway meta) (m_dev meta) (m_src_ip meta) (m_dst_ip meta)
        (ucast (m_src_port meta)) (ucast (m_dst_port meta)) (m_ver_tag meta) (ucast (fst (get_random_u32 rnd))) (chunk_hdr SCTP_COOKIE_ACK 4)"
  let ?f = "f\<lparr>fr_state := Some (meta\<lparr>m_add := add\<rparr>)\<rparr>"
  let ?f' = "frame_result ?f (pre @ ?fr @ post, Some (int b), 50)"
  note env = chunk_envelope [of pre b ma ip cm fl "[]" "m_gateway meta" "m_dev meta" post SCTP_COOKIE_ACK "ucast (m_src_port meta)"
      "ucast (m_dst_port meta)" "m_ver_tag meta" rnd "m_src_ip meta" "m_dst_ip meta" "\<lambda>rnd cur. Some (rnd, Some (frame_result ?f cur))"]
  have "build_sctp_cookie_ack_hdr rnd (Some f) = Some (snd (get_random_u32 rnd), Some ?f')"
    using env m assms(1-4,6,7) by (simp add: frame_cursor_def)
  moreover have "length ?fr = 50" using assms(6,7) by (simp add: length_frame_built)
  moreover have "frame_valid ?fr"
    using assms(6,7) chunk_hdr_len [of 4 SCTP_COOKIE_ACK "[]"] by (intro frame_built_valid) simp_all
  ultimately show ?thesis
    using m(2) by (intro exI [of _ "snd (get_random_u32 rnd)"] exI [of _ ?f']) (simp add: frame_result_def)
qed

theorem build_sctp_cookie_ack_hdr_valid_witness:
  "\<exists>rnd' f'. build_sctp_cookie_ack_hdr (random_start []) (Some sample_data) = Some (rnd', Some f')
    \<and> frame_valid (take 50 (drop 0 (fr_mem f')))"
proof -
  have a: "fr_packet sample_data = Some (int 0)" "fr_plen sample_data = 0" "fr_state sample_data = Some sample_meta"
    "obj_free (m_add sample_meta) = Some Freed" "0 + 50 \<le> length (fr_mem sample_data)"
    "length (m_gateway sample_meta) = 6" "length (m_dev sample_meta) = 6"
    by (simp_all add: sample_data_def sample_meta_def)
  show ?thesis using build_sctp_cookie_ack_hdr_valid [OF a, of "random_start []"] by blast
qed

section \<open>Correcting the checksum of a prefilled header\<close>

lemma splice_ip_len: "splice (enc_ipv4 i) 2 (word_bytes 2 w) = enc_ipv4 (i\<lparr>ip_len := w\<rparr>)"
  by (simp add: enc_ipv4_def splice_def)

lemma osum_word_bytes: "osum (word_bytes 2 (w :: u16) @ bs) = unat w + osum bs"
  using osum_append2 [of "word_bytes 2 w" bs] osum_bytes_word [of "word_bytes 2 w"] by simp

lemma osum_ip_len: "osum (enc_ipv4 (i\<lparr>ip_len := w\<rparr>)) = osum (enc_ipv4 (i\<lparr>ip_len := 0\<rparr>)) + unat w"
  by (simp add: enc_ipv4_def osum_word_bytes)

lemma ip_checksum_osum: "length h = 20 \<Longrightarrow> ip_checksum h 0 20 = Some s \<Longrightarrow> unat s = ones (osum h)"
  using ip_checksum_ones [of 0 20 h] by auto

lemma unat_ucast_ones: "unat s = ones k \<Longrightarrow> unat (ucast (s :: u32) :: u16) = ones k"
  using ones_le [of k] by (simp add: unsigned_ucast_eq take_bit_nat_eq_self)

text \<open>Subtracting the new length without end-around borrow is right exactly when there is no borrow.\<close>

lemma ip_len_fix:
  assumes "ip_checksum (enc_ipv4 (i\<lparr>ip_len := 0\<rparr>)) 0 20 = Some s" "ip_checksum (enc_ipv4 (i\<lparr>ip_len := w\<rparr>)) 0 20 = Some s'"
  shows "NOT (ucast s) + (0 - w) = (NOT (ucast s') :: u16) \<longleftrightarrow> unat w \<le> unat (NOT (ucast s) :: u16)"
proof -
  let ?k = "osum (enc_ipv4 (i\<lparr>ip_len := 0\<rparr>))"
  have s: "unat (NOT (ucast s) :: u16) = 65535 - ones ?k" "unat (NOT (ucast s') :: u16) = 65535 - ones (?k + unat w)"
    using unat_ucast_ones [OF ip_checksum_osum [OF _ assms(1)]] unat_ucast_ones [OF ip_checksum_osum [OF _ assms(2)]]
    by (simp_all add: unat_not_u16 osum_ip_len [of w i])
  have w: "unat w \<le> 65535" by (rule unat_u16_le)
  have o: "carry16 (ones ?k + unat w) = ones (?k + unat w)" by (rule ones_add_carry [OF w])
  have eq: "NOT (ucast s) + (0 - w) = (NOT (ucast s') :: u16) \<longleftrightarrow> (NOT (ucast s) :: u16) = NOT (ucast s') + w"
    by (simp add: algebra_simps)
  have u: "unat (NOT (ucast s') + w :: u16) = (65535 - ones (?k + unat w) + unat w) mod 65536"
    by (simp add: unat_word_ariths s)
  show ?thesis
  proof (cases "ones ?k + unat w \<le> 65535")
    case True
    then have "ones (?k + unat w) = ones ?k + unat w" using o by (simp add: carry16_def)
    then show ?thesis using True unfolding eq unfolding word_unat_eq_iff unfolding u s by simp
  next
    case False
    then have "(ones ?k + unat w) div 65536 = 1" "(ones ?k + unat w) mod 65536 = ones ?k + unat w - 65536"
      using ones_le [of ?k] w by (simp_all add: div_if mod_if)
    then have c: "ones (?k + unat w) = ones ?k + unat w - 65535" using o False by (simp add: carry16_def)
    have "65535 - ones (?k + unat w) + unat w = 131070 - ones ?k" using c False ones_le [of ?k] w by linarith
    moreover have "(131070 - ones ?k) mod 65536 \<noteq> 65535 - ones ?k"
      using ones_le [of ?k] False w by (cases "ones ?k = 65535") (auto simp: mod_if)
    moreover have "\<not> unat w \<le> 65535 - ones ?k" using False ones_le [of ?k] by linarith
    ultimately show ?thesis unfolding eq unfolding word_unat_eq_iff unfolding u s by auto
  qed
qed

definition ip_prefilled :: "u16 \<Rightarrow> u32 \<Rightarrow> u32 \<Rightarrow> ipv4_hdr" where
  "ip_prefilled indent src dst =
     (let i = \<lparr>ip_ihl = 5, ip_ver = 4, ip_tos = ucast (htons 0x2), ip_len = htons 0, ip_indent = indent, ip_offset = 0,
               ip_ttl = 228, ip_proto = PROTO_SCTP, ip_check = 0, ip_src_addr = src, ip_dest_addr = dst\<rparr> in
      i\<lparr>ip_check := NOT (ucast (the (ip_checksum (enc_ipv4 i) 0 20)))\<rparr>)"

definition cmn_prefilled :: "u16 \<Rightarrow> u16 \<Rightarrow> sctp_common_hdr" where
  "cmn_prefilled srcport dstport = \<lparr>cmn_srcp = htons srcport, cmn_dstp = htons dstport, cmn_tag = 0, cmn_check = 0\<rparr>"

lemma prefill_step:
  assumes "fr_prefill f = Some (int b)" "fr_state f = Some meta" "length (m_gateway meta) = 6" "length (m_dev meta) = 6"
    "fr_pmem f = pre @ ma @ ip @ cm @ post" "length pre = b" "length ma = 14" "length ip = 20" "length cm = 12"
  shows "prefill_mac_ip_sctp rnd (Some f) = Some (snd (get_random_u32 rnd), Some (f\<lparr>fr_pmem :=
      pre @ frame_bytes \<lparr>mac_mac = m_gateway meta @ m_dev meta, mac_type = htons ETHERTYPE_IP\<rparr>
        (ip_prefilled (ucast (fst (get_random_u32 rnd))) (m_src_ip meta) (m_dst_ip meta))
        (cmn_prefilled (ucast (m_src_port meta)) (ucast (m_dst_port meta))) post, fr_plen := 46\<rparr>))"
proof -
  let ?g = "m_gateway meta" and ?d = "m_dev meta"
  let ?i = "\<lparr>ip_ihl = 5, ip_ver = 4, ip_tos = ucast (htons 0x2), ip_len = htons 0, ip_indent = ucast (fst (get_random_u32 rnd)), ip_offset = 0,
               ip_ttl = 228, ip_proto = PROTO_SCTP, ip_check = 0, ip_src_addr = m_src_ip meta, ip_dest_addr = m_dst_ip meta\<rparr>"
  obtain s where s: "ip_checksum (enc_ipv4 ?i) 0 20 = Some s" using ip_checksum_20 [of "enc_ipv4 ?i"] by auto
  let ?i' = "ip_prefilled (ucast (fst (get_random_u32 rnd))) (m_src_ip meta) (m_dst_ip meta)"
  have i': "?i\<lparr>ip_check := NOT (ucast s)\<rparr> = ?i'" by (simp add: ip_prefilled_def s Let_def)
  let ?c = "cmn_prefilled (ucast (m_src_port meta)) (ucast (m_dst_port meta))"
  let ?t = "word_bytes 2 (htons ETHERTYPE_IP)"
  let ?m = "fr_pmem f"
  have len: "b + 46 \<le> length ?m" using assms(5-) by simp
  have "mwrite ?m b ?g = Some (splice ?m b ?g)" using len assms(3) by (simp add: mwrite_def)
  moreover have "mwrite (splice ?m b ?g) (b + 6) ?d = Some (splice ?m b (?g @ ?d))"
    using mwrite_seq [of b ?g ?d ?m] len assms(3,4) by simp
  moreover have "mwrite (splice ?m b (?g @ ?d)) (b + 12) ?t = Some (splice ?m b (?g @ ?d @ ?t))"
    using mwrite_seq [of b "?g @ ?d" ?t ?m] len assms(3,4) by simp
  moreover have "mwrite (splice ?m b (?g @ ?d @ ?t)) (b + 14) (enc_ipv4 ?i') = Some (splice ?m b (?g @ ?d @ ?t @ enc_ipv4 ?i'))"
    using mwrite_seq [of b "?g @ ?d @ ?t" "enc_ipv4 ?i'" ?m] len assms(3,4) by simp
  moreover have "mwrite (splice ?m b (?g @ ?d @ ?t @ enc_ipv4 ?i')) (b + 34) (enc_cmn ?c) = Some (splice ?m b (?g @ ?d @ ?t @ enc_ipv4 ?i' @ enc_cmn ?c))"
    using mwrite_seq [of b "?g @ ?d @ ?t @ enc_ipv4 ?i'" "enc_cmn ?c" ?m] len assms(3,4) by simp
  moreover have "splice ?m b (?g @ ?d @ ?t @ enc_ipv4 ?i' @ enc_cmn ?c) = pre @ (?g @ ?d @ ?t @ enc_ipv4 ?i' @ enc_cmn ?c) @ post"
    using splice_part [of "?g @ ?d @ ?t @ enc_ipv4 ?i' @ enc_cmn ?c" "ma @ ip @ cm" pre post] assms(3-) by simp
  moreover have "b + 20 + 14 = b + 34" by simp
  ultimately show ?thesis
    using assms(1-4) s i'
    by (simp add: split_beta Let_def mread_def frame_bytes_def enc_mac_def cmn_prefilled_def [symmetric] add.commute)
qed

lemma splice_prefix: "length pre = b \<Longrightarrow> splice (pre @ x) (b + k) d = pre @ splice x k d"
  by (auto simp: splice_def add.assoc)

lemma put_prefix:
  "length pre = b \<Longrightarrow> k + length d \<le> length x \<Longrightarrow> mwrite (pre @ x) (b + k) d = Some (pre @ splice x k d)"
  by (simp add: mwrite_def splice_prefix)

lemma get_prefix: "length pre = b \<Longrightarrow> get_word n (pre @ x) (b + k) = get_word n x k"
  by (simp add: get_word_def mread_def)

lemma frame_splice_len:
  "length (mac_mac m) = 12 \<Longrightarrow> splice (frame_bytes m i c chunk) 16 (word_bytes 2 w) = frame_bytes m (i\<lparr>ip_len := w\<rparr>) c chunk"
  using splice_mid [of "enc_mac m" 14 2 "word_bytes 2 w" "enc_ipv4 i" "enc_cmn c @ chunk"] length_enc_mac [of m]
  by (simp add: frame_bytes_def splice_ip_len)

lemma frame_get:
  assumes "length (mac_mac m) = 12"
  shows "get_u16 (frame_bytes m i c chunk) 16 = Some (ip_len i)" "get_u16 (frame_bytes m i c chunk) 24 = Some (ip_check i)"
proof -
  have "take 2 (drop 24 (frame_bytes m i c chunk)) = take 2 (drop 10 (enc_ipv4 i))"
    "take 2 (drop 16 (frame_bytes m i c chunk)) = take 2 (drop 2 (enc_ipv4 i))"
    by (simp_all add: frame_bytes_def length_enc_mac [OF assms])
  then show "get_u16 (frame_bytes m i c chunk) 16 = Some (ip_len i)" "get_u16 (frame_bytes m i c chunk) 24 = Some (ip_check i)"
    using length_frame_bytes [OF assms] by (simp_all add: get_word_in ip_check_image)
qed

lemma prefilled_tail:
  assumes "length pre = b" "length (mac_mac m) = 12" "cmn_check c = 0" "length chunk = 20"
  shows "do { len \<leftarrow> get_u16 (pre @ frame_bytes m i c (chunk @ post)) (b + 14 + 2);
              mem \<leftarrow> put_u16 (pre @ frame_bytes m i c (chunk @ post)) (b + 14 + 2) w;
              check \<leftarrow> get_u16 mem (b + 14 + 10);
              mem \<leftarrow> put_u16 mem (b + 14 + 10) (check + (len - w));
              mem \<leftarrow> put_u32 mem (b + 14 + 20 + 8) 0;
              crc \<leftarrow> generate_crc32c (drop (b + 14 + 20) mem) 32;
              mem \<leftarrow> put_u32 mem (b + 14 + 20 + 8) crc;
              k mem }
    = k (pre @ frame_bytes m (i\<lparr>ip_len := w, ip_check := ip_check i + (ip_len i - w)\<rparr>)
          (c\<lparr>cmn_check := NOT (crc_bytes (take 32 (enc_cmn c @ chunk)) 0xFFFFFFFF)\<rparr>) (chunk @ post))"
proof -
  let ?i = "i\<lparr>ip_len := w\<rparr>"
  let ?i2 = "i\<lparr>ip_len := w, ip_check := ip_check i + (ip_len i - w)\<rparr>"
  let ?crc = "NOT (crc_bytes (take 32 (enc_cmn c @ chunk)) 0xFFFFFFFF)"
  have n: "b + 14 + 2 = b + 16" "b + 14 + 10 = b + 24" "b + 14 + 20 + 8 = b + 42" "b + 14 + 20 = b + 34" by simp_all
  have l: "length (frame_bytes m j d (chunk @ post)) = 66 + length post" for j d
    using assms(2,4) by (simp add: length_frame_bytes)
  note fs = frame_splice [OF assms(2)] frame_splice_len [OF assms(2)] frame_get [OF assms(2)]
  have c0: "c\<lparr>cmn_check := 0\<rparr> = c" using assms(3) by simp
  have "generate_crc32c (drop (b + 34) (pre @ frame_bytes m ?i2 c (chunk @ post))) 32 = Some ?crc"
    using generate_crc32c_bytes [of 32 "enc_cmn c @ chunk @ post"] assms(1,2,4) by (simp add: frame_fields)
  then show ?thesis
    unfolding n(1-3) unfolding n(4) using assms(1) by (simp add: get_prefix put_prefix l fs c0)
qed

text \<open>
  An INIT built into a prefilled frame passes the receiver's check exactly when the checksum of the
  prefilled IPv4 header, as the processor reads it, is at least \<open>htons 52\<close>: the length is subtracted from it on
  16 bits and the borrow is not carried around, so that for the other values the header is off by one. The prefill
  pointer is left behind the headers, not at the frame.
\<close>

theorem build_prefilled_sctp_init_hdr_checked:
  assumes "fr_prefill f = Some (int b)" "fr_state f = Some meta" "length (m_gateway meta) = 6" "length (m_dev meta) = 6"
    "b + 66 \<le> length (fr_pmem f)" "rnd_inv rnd"
  shows "\<exists>rnd1 f1 rnd2 f2. prefill_mac_ip_sctp rnd (Some f) = Some (rnd1, Some f1) \<and> fr_plen f1 = 46
    \<and> build_prefilled_sctp_init_hdr rnd1 (Some f1) = Some (rnd2, Some f2) \<and> fr_plen f2 = 66 \<and> fr_prefill f2 = Some (int (b + 46))
    \<and> (frame_valid (take 66 (drop b (fr_pmem f2))) \<longleftrightarrow> unat (htons 52) \<le> unat (ip_check_of (drop b (fr_pmem f1))))"
proof -
  have room: "b + (50 + 16) \<le> length (fr_pmem f)" using assms(5) by simp
  obtain pre ma ip cm fl ini post where m: "fr_pmem f = pre @ ma @ ip @ cm @ fl @ ini @ post" "length pre = b" "length ma = 14"
    "length ip = 20" "length cm = 12" "length fl = 4" "length ini = 16" by (rule split_frame [OF room])
  let ?m = "\<lparr>mac_mac = m_gateway meta @ m_dev meta, mac_type = htons ETHERTYPE_IP\<rparr>"
  let ?i = "ip_prefilled (ucast (fst (get_random_u32 rnd))) (m_src_ip meta) (m_dst_ip meta)"
  let ?c = "cmn_prefilled (ucast (m_src_port meta)) (ucast (m_dst_port meta))"
  let ?r1 = "snd (get_random_u32 rnd)"
  let ?f1 = "f\<lparr>fr_pmem := pre @ frame_bytes ?m ?i ?c (fl @ ini @ post), fr_plen := 46\<rparr>"
  have pf: "prefill_mac_ip_sctp rnd (Some f) = Some (?r1, Some ?f1)"
    using prefill_step [OF assms(1-4) m(1-5)] by simp
  have mm: "length (mac_mac ?m) = 12" using assms(3,4) by simp
  have "rnd_inv ?r1" using random_word_inv [OF assms(6)] by (simp add: get_random_u32_def)
  then obtain tag r2 where r1: "get_random_from_buffer_u32 ?r1 = Some (tag, r2)" "rnd_inv r2"
    using from_buffer_ok [of ?r1 4, where 'a = 32] by (auto simp: from_buffer_eqs)
  obtain tsn r3 where r2: "get_random_from_buffer_u32 r2 = Some (tsn, r3)"
    using from_buffer_ok [OF r1(2), of 4, where 'a = 32] by (auto simp: from_buffer_eqs)
  let ?ini = "enc_init \<lparr>init_tag = htonl tag, init_a_rwnd = htonl (m_src_arwnd meta), init_os = htons (m_src_os meta),
    init_mis = htons (m_src_mis meta), init_tsn = htonl tsn\<rparr>"
  let ?ch = "chunk_hdr SCTP_INIT 20 @ ?ini"
  let ?h = "pre @ enc_mac ?m @ enc_ipv4 ?i @ enc_cmn ?c"
  have h: "length ?h = b + 46" using m(2) length_enc_mac [OF mm] by simp
  have s1: "build_sctp_init_hdr_raw (fr_pmem ?f1, Some (int (b + 66)), 0) tag (m_src_arwnd meta) (m_src_os meta) (m_src_mis meta) tsn
      = Some ((?h @ fl) @ ?ini @ post, Some (int (b + 50)), 16)"
    using init_step [of "?h @ fl" "b + 50" ini post 0] m(6,7) h by (simp add: frame_bytes_def add.commute)
  have s2: "build_sctp_fld_hdr_raw ((?h @ fl) @ ?ini @ post, Some (int (b + 50)), 16) SCTP_INIT 0 20
      = Some (pre @ frame_bytes ?m ?i ?c (?ch @ post), Some (int (b + 46)), 20)"
    using fld_step [of ?h "b + 46" fl "?ini @ post" 16 SCTP_INIT 0 20] m(6) h by (simp add: frame_bytes_def chunk_hdr_def add.commute)
  let ?i2 = "?i\<lparr>ip_len := htons 52, ip_check := ip_check ?i + (ip_len ?i - htons 52)\<rparr>"
  let ?c2 = "?c\<lparr>cmn_check := NOT (crc_bytes (take 32 (enc_cmn ?c @ ?ch)) 0xFFFFFFFF)\<rparr>"
  let ?f2 = "prefill_result ?f1 (pre @ frame_bytes ?m ?i2 ?c2 (?ch @ post), Some (int (b + 46)), 66)"
  have ib: "in_buf (int b + 14) = Some (b + 14)" by (simp add: in_buf_def nat_add_distrib)
  have "build_prefilled_sctp_init_hdr ?r1 (Some ?f1) = Some (r3, Some ?f2)"
    using assms(1,2) r1(1) r2 s1 s2 prefilled_tail [OF m(2) mm, of ?c ?ch ?i post "htons 52"
        "\<lambda>mem. Some (r3, Some (prefill_result ?f1 (mem, Some (int (b + 46)), 66)))"]
    by (simp add: prefill_cursor_def cmn_prefilled_def ib)
  moreover have "frame_valid (frame_bytes ?m ?i2 ?c2 ?ch) \<longleftrightarrow> unat (htons 52) \<le> unat (ip_check ?i)"
  proof -
    obtain s where s: "ip_checksum (enc_ipv4 (?i\<lparr>ip_check := 0\<rparr>)) 0 20 = Some s" "ip_check ?i = NOT (ucast s)"
      using ip_checksum_20 [of "enc_ipv4 (?i\<lparr>ip_check := 0\<rparr>)"] by (auto simp: ip_prefilled_def Let_def)
    have z: "ip_len ?i = 0" by (simp add: ip_prefilled_def Let_def bswap16_def word_bytes_numeral)
    then have i0: "?i\<lparr>ip_check := 0\<rparr> = ?i\<lparr>ip_check := 0, ip_len := 0\<rparr>" by simp
    have s0: "ip_checksum (enc_ipv4 (?i\<lparr>ip_check := 0, ip_len := 0\<rparr>)) 0 20 = Some s" by (subst i0 [symmetric]) (rule s(1))
    obtain s' where s': "ip_checksum (enc_ipv4 (?i2\<lparr>ip_check := 0\<rparr>)) 0 20 = Some s'"
      using ip_checksum_20 [of "enc_ipv4 (?i2\<lparr>ip_check := 0\<rparr>)"] by auto
    have i2: "?i2\<lparr>ip_check := 0\<rparr> = ?i\<lparr>ip_check := 0, ip_len := htons 52\<rparr>" by simp
    have c: "?c\<lparr>cmn_check := 0\<rparr> = ?c" by (simp add: cmn_prefilled_def)
    have "frame_valid (frame_bytes ?m ?i2 ?c2 ?ch) \<longleftrightarrow> ip_check ?i2 = NOT (ucast s')"
      using frame_valid_parts [OF mm s', of ?ch 20 ?c2] chunk_hdr_len [of 20 SCTP_INIT ?ini] c by simp
    also have "\<dots> \<longleftrightarrow> unat (htons 52) \<le> unat (ip_check ?i)"
      using ip_len_fix [OF s0 s' [unfolded i2]] s(2) z by simp
    finally show ?thesis .
  qed
  moreover have "take 66 (drop b (fr_pmem ?f2)) = frame_bytes ?m ?i2 ?c2 ?ch"
    using m(2) length_enc_mac [OF mm] by (simp add: prefill_result_def frame_bytes_def)
  moreover have "ip_check_of (drop b (fr_pmem ?f1)) = ip_check ?i" using m(2) frame_fields(2) [OF mm] by simp
  ultimately show ?thesis using pf
    by (intro exI [of _ ?r1] exI [of _ ?f1] exI [of _ r3] exI [of _ ?f2]) (simp add: prefill_result_def)
qed

theorem build_prefilled_sctp_init_hdr_checked_witness:
  "\<exists>rnd1 f1 rnd2 f2. prefill_mac_ip_sctp (random_start []) (Some sample_data) = Some (rnd1, Some f1)
    \<and> build_prefilled_sctp_init_hdr rnd1 (Some f1) = Some (rnd2, Some f2)
    \<and> (frame_valid (take 66 (drop 0 (fr_pmem f2))) \<longleftrightarrow> unat (htons 52) \<le> unat (ip_check_of (drop 0 (fr_pmem f1))))"
proof -
  have a: "fr_prefill sample_data = Some (int 0)" "fr_state sample_data = Some sample_meta"
    "length (m_gateway sample_meta) = 6" "length (m_dev sample_meta) = 6" "0 + 66 \<le> length (fr_pmem sample_data)"
    by (simp_all add: sample_data_def sample_meta_def)
  show ?thesis using build_prefilled_sctp_init_hdr_checked [OF a rnd_inv_start [of "[]"]] by blast
qed

end
