(* ===== verification/Assoc.thy ===== *)
theory Assoc
  imports Frames Ringbuf
begin

unbundle bit_operations_syntax

text \<open>
  The SCTP association (\<^verbatim>\<open>include/sctp.h\<close>) and its handshake: the builders that complete a prefilled frame
  (\<^verbatim>\<open>src/build_prefilled_mac_ip_sctp_*_hdr.c\<close>), the handlers of received chunks (\<^verbatim>\<open>src/sctp_process_sctp_*.c\<close>),
  the allocation of streams (\<^verbatim>\<open>src/prepare_sctp_threads.c\<close>) and the dispatcher \<^verbatim>\<open>src/if_ip_sctp.c\<close>.

  Packets are objects of a heap, named by the address of their first byte: the rings hold such addresses, so
  that one packet may be queued in two rings. The spin lock around assignments and the messages printed are
  left out.
\<close>

section \<open>State\<close>

type_synonym pheap = "ptr \<rightharpoonup> bytes"

record sctp_ulp_config =
  u_max_retrans :: u32
  u_rto_initial :: u32
  u_rto_min :: u32
  u_rto_max :: u32
  u_max_burst :: u32
  u_cookie_life :: u32
  u_src_ip :: u32
  u_dst_ip :: u32
  u_src_port :: u32
  u_dst_port :: u32
  u_src_arwnd :: u32
  u_src_tsn :: u32
  u_src_os :: u16
  u_src_mis :: u16
  u_dev :: bytes
  u_gateway :: bytes

text \<open>\<open>th_buffer\<close> is the user's message (\<open>None\<close>: NULL).\<close>

record sctp_thread =
  th_id :: u16
  th_buffer :: "bytes option"
  th_pos_low :: u32
  th_pos_current :: u32
  th_pos_high :: u32
  th_misses :: ptr
  th_num_misses :: u16
  th_ssn :: u16
  th_sin :: u16
  th_proto :: u32
  th_flags :: u8
  th_buffer_remain :: u32
  th_active :: bool

text \<open>\<open>sl_buffer\<close>, a pointer into the message of a stream, is the index of the stream and the offset.\<close>

record sctp_chunk_slot =
  sl_in_use :: u8
  sl_acked :: u8
  sl_tsn :: u32
  sl_stream_id :: u32
  sl_retry_count :: u16
  sl_sent_at :: u64
  sl_buffer :: "(nat \<times> u32) option"
  sl_len :: u32

text \<open>
  The association. \<open>a_threads\<close> is the array of both directions, \<open>mis_threads\<close> points to its start and
  \<open>os_threads\<close> \<open>a_os_threads\<close> entries further. \<open>a_retry_ring\<close> is used as the address of a received cookie.
  \<open>a_cursor\<close> points into \<open>a_current_packet\<close>. The fields of the XDP transmit path are in another theory.
\<close>

record sctp_association =
  a_id :: u16
  a_status :: SCTP_STATUS
  a_ver_tag :: u32
  a_init_tag :: u32
  a_a_rwnd :: u32
  a_dst_port :: u32
  a_dst_ip :: u32
  a_os :: u16
  a_mis :: u16
  a_tsn :: u32
  a_dst_tsn :: u32
  a_srtt :: u32
  a_rttvar :: u32
  a_rto :: u32
  a_mtu :: u32
  a_threads :: "sctp_thread list option"
  a_os_threads :: nat
  a_tx_ring :: ringbuf
  a_retry_ring :: "(ptr \<times> nat) option"
  a_prefilled_ring :: ringbuf
  a_bundling :: ringbuf
  a_base :: "frame_data option"
  a_ulp :: sctp_ulp_config
  a_current_packet :: ptr
  a_cursor :: "ptr \<times> nat"
  a_remain_plen :: u32
  a_rtx :: "sctp_chunk_slot list"

abbreviation (input) SCTP_RTO_MIN :: u32 where "SCTP_RTO_MIN \<equiv> 1000"

section \<open>Completing a prefilled frame\<close>

text \<open>
  \<open>rb_pop\<close> and \<open>rb_push\<close> without spurious failures of the compare-and-swap; the latter's result is ignored by
  the code. A popped cell is read after it was released, which for a single thread yields the item popped.
\<close>

definition push_item :: "ringbuf \<Rightarrow> ptr \<Rightarrow> u64 \<Rightarrow> ringbuf option" where
  "push_item rb packet plen = map_option fst (push_ringbuf [] rb packet plen)"

text \<open>\<open>chk += htons (0) - ip->len - \<dots>\<close> on 32 bits, with one carry.\<close>

definition chk_fold :: "u32 \<Rightarrow> u16" where
  "chk_fold chk = ucast (if chk > 0xFFFF then (chk AND 0xFFFF) + drop_bit 16 chk else chk)"

definition build_prefilled_mac_ip_sctp_init_ack_hdr ::
  "(nat \<Rightarrow> u8) \<Rightarrow> pheap \<Rightarrow> random_state \<Rightarrow> sctp_association \<Rightarrow> (pheap \<times> random_state \<times> sctp_association \<times> i32) option" where
  "build_prefilled_mac_ip_sctp_init_ack_hdr g heap rnd a =
     do { (ring, cell) \<leftarrow> rb_pop [] (a_prefilled_ring a);
          (packet, cplen) \<leftarrow> cell;
          let a = a\<lparr>a_prefilled_ring := ring\<rparr>;
          if packet = NULL then Some (heap, rnd, a, -1)
          else
            do { let plen = (ucast cplen :: u32);
                 let ulp = a_ulp a;
                 (itag, rnd) \<leftarrow> get_random_from_buffer_u32 rnd;
                 (itsn, rnd) \<leftarrow> get_random_from_buffer_u32 rnd;
                 let ini = \<lparr>init_tag = itag, init_a_rwnd = htonl (u_src_arwnd ulp), init_os = htons (u_src_os ulp),
                            init_mis = htons (u_src_mis ulp), init_tsn = itsn\<rparr>;
                 let fld = \<lparr>fld_type = SCTP_INIT_ACK, fld_flags = 0, fld_len = htons 80\<rparr>;
                 let cookie_hdr = \<lparr>par_type = htons 7, par_len = htons (4 + 40 + 16)\<rparr>;
                 let (ctag, rnd) = get_random_u32 rnd;
                 let ck = \<lparr>ck_ver_tag = a_ver_tag a, ck_init_tag = ctag, ck_a_rwnd = a_a_rwnd a, ck_os = a_os a, ck_mis = a_mis a,
                           ck_tsn = a_tsn a, ck_dst_tsn = a_dst_tsn a, ck_src_ip = a_dst_ip a, ck_dst_ip = u_src_ip ulp,
                           ck_src_port = a_dst_port a, ck_dst_port = u_src_port ulp\<rparr>;
                 hmac \<leftarrow> hmac_md5 g (enc_cookie ck) 40 cookie_key 16;
                 mem \<leftarrow> heap packet;
                 mem \<leftarrow> mwrite mem 46 (enc_fld fld @ enc_init ini @ enc_par cookie_hdr @ enc_cookie ck @ hmac);
                 let plen = plen + 80;
                 mem \<leftarrow> put_u32 mem (14 + 16) (a_dst_ip a);
                 check \<leftarrow> get_u16 mem (14 + 10);
                 let len = htons (ucast (plen - 14));
                 mem \<leftarrow> put_u16 mem (14 + 2) len;
                 mem \<leftarrow> put_u16 mem (14 + 10) (chk_fold (ucast check + (0 - ucast len - a_dst_ip a)));
                 mem \<leftarrow> put_u16 mem (34 + 2) (ucast (a_dst_port a));
                 mem \<leftarrow> put_u32 mem (34 + 4) (a_ver_tag a);
                 mem \<leftarrow> put_u32 mem (34 + 8) 0;
                 crc \<leftarrow> generate_crc32c_on_crc32c (drop 34 mem) (12 + ucast (ntohs (fld_len fld))) 0xFFFFFFFF;
                 mem \<leftarrow> put_u32 mem (34 + 8) (NOT (ucast crc));
                 tx \<leftarrow> push_item (a_tx_ring a) packet (ucast plen);
                 pre \<leftarrow> push_item (a_prefilled_ring a) packet cplen;
                 Some (heap(packet \<mapsto> mem), rnd, a\<lparr>a_tx_ring := tx, a_prefilled_ring := pre\<rparr>, 0) } }"

definition build_prefilled_mac_ip_sctp_cookie_echo_hdr ::
  "pheap \<Rightarrow> sctp_association \<Rightarrow> (pheap \<times> sctp_association \<times> i32) option" where
  "build_prefilled_mac_ip_sctp_cookie_echo_hdr heap a =
     do { (ring, cell) \<leftarrow> rb_pop [] (a_prefilled_ring a);
          (packet, cplen) \<leftarrow> cell;
          let a = a\<lparr>a_prefilled_ring := ring\<rparr>;
          if packet = NULL then Some (heap, a, -1)
          else
            do { let plen = (ucast cplen :: u32);
                 let fld = \<lparr>fld_type = SCTP_COOKIE_ECHO, fld_flags = 0, fld_len = htons (4 + a_id a)\<rparr>;
                 mem \<leftarrow> heap packet;
                 mem \<leftarrow> mwrite mem 46 (enc_fld fld);
                 (src, off) \<leftarrow> a_retry_ring a;
                 obj \<leftarrow> (heap(packet \<mapsto> mem)) src;
                 ck \<leftarrow> mread obj off (unat (a_id a));
                 mem \<leftarrow> mwrite mem (46 + 4) ck;
                 let plen = plen + (4 + ucast (a_id a));
                 check \<leftarrow> get_u16 mem (14 + 10);
                 let len = htons (ucast (plen - 14));
                 mem \<leftarrow> put_u16 mem (14 + 2) len;
                 mem \<leftarrow> put_u16 mem (14 + 10) (chk_fold (ucast check + (0 - ucast len)));
                 mem \<leftarrow> put_u32 mem (34 + 4) (a_ver_tag a);
                 mem \<leftarrow> put_u32 mem (34 + 8) 0;
                 crc \<leftarrow> generate_crc32c (drop 34 mem) (12 + ucast (ntohs (fld_len fld)));
                 mem \<leftarrow> put_u32 mem (34 + 8) crc;
                 tx \<leftarrow> push_item (a_tx_ring a) packet (ucast plen);
                 pre \<leftarrow> push_item (a_prefilled_ring a) packet cplen;
                 Some (heap(packet \<mapsto> mem), a\<lparr>a_tx_ring := tx, a_prefilled_ring := pre\<rparr>, 0) } }"

definition build_prefilled_mac_ip_sctp_cookie_ack_hdr ::
  "pheap \<Rightarrow> sctp_association \<Rightarrow> (pheap \<times> sctp_association \<times> i32) option" where
  "build_prefilled_mac_ip_sctp_cookie_ack_hdr heap a =
     do { (ring, cell) \<leftarrow> rb_pop [] (a_prefilled_ring a);
          (packet, cplen) \<leftarrow> cell;
          let a = a\<lparr>a_prefilled_ring := ring\<rparr>;
          if packet = NULL then Some (heap, a, -1)
          else
            do { let plen = (ucast cplen :: u32);
                 let fld = \<lparr>fld_type = SCTP_COOKIE_ACK, fld_flags = 0, fld_len = htons 4\<rparr>;
                 mem \<leftarrow> heap packet;
                 mem \<leftarrow> mwrite mem 46 (enc_fld fld);
                 let plen = plen + 4;
                 mem \<leftarrow> put_u32 mem (14 + 16) (a_dst_ip a);
                 check \<leftarrow> get_u16 mem (14 + 10);
                 let len = htons (ucast (plen - 14));
                 mem \<leftarrow> put_u16 mem (14 + 2) len;
                 mem \<leftarrow> put_u16 mem (14 + 10) (chk_fold (ucast check + (0 - ucast len - a_dst_ip a)));
                 mem \<leftarrow> put_u16 mem (34 + 2) (ucast (a_dst_port a));
                 mem \<leftarrow> put_u32 mem (34 + 4) (a_ver_tag a);
                 mem \<leftarrow> put_u32 mem (34 + 8) 0;
                 crc \<leftarrow> generate_crc32c_on_crc32c (drop 34 mem) (12 + 4) 0xFFFFFFFF;
                 mem \<leftarrow> put_u32 mem (34 + 8) (NOT (ucast crc));
                 tx \<leftarrow> push_item (a_tx_ring a) packet (ucast plen);
                 pre \<leftarrow> push_item (a_prefilled_ring a) packet cplen;
                 Some (heap(packet \<mapsto> mem), a\<lparr>a_tx_ring := tx, a_prefilled_ring := pre\<rparr>, 0) } }"

section \<open>Streams\<close>

text \<open>
  Each stream's \<open>id\<close> is assigned and then the whole structure is cleared. \<open>alloc i\<close> says whether the \<open>i\<close>-th
  \<^verbatim>\<open>aligned_alloc\<close> succeeds (the array of pointers is the first one).
\<close>

definition thread_cleared :: sctp_thread where
  "thread_cleared = \<lparr>th_id = 0, th_buffer = None, th_pos_low = 0, th_pos_current = 0, th_pos_high = 0, th_misses = NULL, th_num_misses = 0,
     th_ssn = 0, th_sin = 0, th_proto = 0, th_flags = 0, th_buffer_remain = 0, th_active = False\<rparr>"

definition prepare_sctp_threads :: "(nat \<Rightarrow> bool) \<Rightarrow> sctp_association \<Rightarrow> sctp_association \<times> i64" where
  "prepare_sctp_threads alloc a =
     (let n = unat (ntohs (a_mis a)) + unat (ntohs (a_os a)) in
      if \<not> alloc 0 then (a, -1)
      else if \<not> list_all alloc [1..<Suc n] then (a, -1)
      else (a\<lparr>a_threads := Some (replicate n thread_cleared), a_os_threads := unat (ntohs (a_mis a))\<rparr>, 0))"

section \<open>Received chunks\<close>

text \<open>\<open>pkt\<close> is the received frame, \<open>p\<close> its address; the argument \<open>packet\<close> of the handlers points into it.\<close>

definition sctp_process_sctp_init ::
  "(nat \<Rightarrow> u8) \<Rightarrow> pheap \<Rightarrow> random_state \<Rightarrow> sctp_association \<Rightarrow> bytes \<Rightarrow> (pheap \<times> random_state \<times> sctp_association \<times> i64) option" where
  "sctp_process_sctp_init g heap rnd a pkt =
     do { srcp \<leftarrow> get_u16 pkt 34;
          src_addr \<leftarrow> get_u32 pkt (14 + 12);
          ini \<leftarrow> load dec_init 16 pkt 50;
          let ass = a\<lparr>a_dst_port := ucast srcp, a_dst_ip := src_addr, a_os := init_os ini, a_mis := init_mis ini, a_a_rwnd := init_a_rwnd ini,
                      a_ver_tag := init_tag ini, a_tsn := init_tsn ini, a_dst_tsn := init_tsn ini\<rparr>;
          (heap, rnd, ass, _) \<leftarrow> build_prefilled_mac_ip_sctp_init_ack_hdr g heap rnd ass;
          Some (heap, rnd, a\<lparr>a_tx_ring := a_tx_ring ass, a_prefilled_ring := a_prefilled_ring ass\<rparr>, 0) }"

definition sctp_process_sctp_init_ack ::
  "pheap \<Rightarrow> sctp_association \<Rightarrow> ptr \<Rightarrow> bytes \<Rightarrow> u16 \<Rightarrow> (pheap \<times> sctp_association \<times> i64) option" where
  "sctp_process_sctp_init_ack heap a p pkt plen =
     (if unat (ntohs plen) \<le> 4 + 16 + 4 then Some (heap, a, -1)
      else
        do { ini \<leftarrow> load dec_init 16 pkt 50;
             let a = a\<lparr>a_ver_tag := init_tag ini, a_os := init_os ini, a_mis := init_mis ini, a_a_rwnd := init_a_rwnd ini,
                       a_tsn := init_tsn ini, a_status := SCTP_INIT_ACK_RECEIVED, a_id := ntohs plen - 24, a_retry_ring := Some (p, 70)\<rparr>;
             (heap, a, _) \<leftarrow> build_prefilled_mac_ip_sctp_cookie_echo_hdr heap a;
             Some (heap, a, 0) })"

definition digest_differs :: "bytes \<Rightarrow> bytes \<Rightarrow> bool" where
  "digest_differs d e \<longleftrightarrow> foldl (OR) 0 (map2 (XOR) d e) \<noteq> 0"

definition sctp_process_sctp_cookie_echo ::
  "(nat \<Rightarrow> u8) \<Rightarrow> (nat \<Rightarrow> bool) \<Rightarrow> pheap \<Rightarrow> sctp_association \<Rightarrow> bytes \<Rightarrow> u16 \<Rightarrow> (pheap \<times> sctp_association \<times> i64) option" where
  "sctp_process_sctp_cookie_echo g alloc heap a pkt plen =
     (if unat (ntohs plen) < 40 + 4 + 16 then Some (heap, a, -1)
      else
        do { ckb \<leftarrow> mread pkt 50 40;
             digest \<leftarrow> hmac_md5 g ckb 40 cookie_key 16;
             mac \<leftarrow> mread pkt 90 16;
             if digest_differs digest mac then Some (heap, a, -1)
             else
               do { let ck = dec_cookie ckb;
                    let a = a\<lparr>a_ver_tag := ck_ver_tag ck, a_init_tag := ck_init_tag ck, a_a_rwnd := ck_a_rwnd ck, a_os := ck_os ck, a_mis := ck_mis ck,
                              a_tsn := ck_tsn ck, a_dst_tsn := ck_dst_tsn ck, a_dst_ip := ck_src_ip ck, a_dst_port := ck_src_port ck,
                              a_rto := SCTP_RTO_MIN, a_srtt := 0, a_rttvar := 0\<rparr>;
                    (heap, a, _) \<leftarrow> build_prefilled_mac_ip_sctp_cookie_ack_hdr heap a;
                    Some (heap, fst (prepare_sctp_threads alloc a), 0) } })"

definition sctp_process_sctp_cookie_ack :: "(nat \<Rightarrow> bool) \<Rightarrow> sctp_association \<Rightarrow> u16 \<Rightarrow> sctp_association \<times> i64" where
  "sctp_process_sctp_cookie_ack alloc a plen =
     (if unat (ntohs plen) < 4 then (a, -1)
      else (fst (prepare_sctp_threads alloc (a\<lparr>a_status := SCTP_ESTABLISHED\<rparr>)), 0))"

text \<open>
  The dispatcher; the last component says whether it returns the association (\<open>True\<close>) or NULL. \<open>p\<close> is the
  address of the received frame in the heap. The argument \<open>size\<close> of the code is not used by it.
\<close>

definition if_ip_sctp ::
  "(nat \<Rightarrow> u8) \<Rightarrow> (nat \<Rightarrow> bool) \<Rightarrow> pheap \<Rightarrow> random_state \<Rightarrow> ptr \<Rightarrow> sctp_association
   \<Rightarrow> (pheap \<times> random_state \<times> sctp_association \<times> bool) option" where
  "if_ip_sctp g alloc heap rnd p a =
     (if p = NULL \<or> a_base a = None \<or> fr_state (the (a_base a)) = None then Some (heap, rnd, a, False)
      else
        do { pkt \<leftarrow> heap p;
             dest \<leftarrow> get_u32 pkt (14 + 16);
             if dest \<noteq> u_src_ip (a_ulp a) then Some (heap, rnd, a, False)
             else
               do { dstp \<leftarrow> get_u16 pkt (34 + 2);
                    if u_src_port (a_ulp a) \<noteq> ucast (ntohs dstp) then Some (heap, rnd, a, False)
                    else
                      do { fld \<leftarrow> load dec_fld 4 pkt 46;
                           if fld_type fld = SCTP_INIT \<and> a_status a = SCTP_LISTEN
                           then do { (heap, rnd, a, r) \<leftarrow> sctp_process_sctp_init g heap rnd a pkt; Some (heap, rnd, a, \<not> r <s 0) }
                           else if fld_type fld = SCTP_INIT_ACK \<and> a_status a = SCTP_INIT_SENT
                           then do { (heap, a, r) \<leftarrow> sctp_process_sctp_init_ack heap a p pkt (fld_len fld); Some (heap, rnd, a, \<not> r <s 0) }
                           else if fld_type fld = SCTP_COOKIE_ECHO \<and> a_status a = SCTP_LISTEN
                           then do { (heap, a, r) \<leftarrow> sctp_process_sctp_cookie_echo g alloc heap a pkt (fld_len fld); Some (heap, rnd, a, \<not> r <s 0) }
                           else if fld_type fld = SCTP_COOKIE_ACK \<and> a_status a = SCTP_INIT_ACK_RECEIVED
                           then let (a, r) = sctp_process_sctp_cookie_ack alloc a (fld_len fld) in Some (heap, rnd, a, \<not> r <s 0)
                           else Some (heap, rnd, a, False) } } })"

end
