(* ===== verification/Handshake.thy ===== *)
theory Handshake
  imports Assoc
begin

unbundle bit_operations_syntax

text \<open>
  What the handlers of the association do to the packet heap and the rings, and the four-way handshake they make up.
\<close>

section \<open>Rings\<close>

lemma push_item_room:
  assumes "rb_inv rb" "length (rb_items rb) < rb_cap rb"
  shows "\<exists>rb'. push_item rb p l = Some rb' \<and> rb_inv rb' \<and> rb_cap rb' = rb_cap rb \<and> rb_items rb' = rb_items rb @ [(p, l)]"
  using rbq.push_room [OF assms, of "[]" "(p, l)"] by (auto simp: rb_push_def push_item_def)

text \<open>A packet is taken from the prefilled ring, queued for sending, and put back into the prefilled ring.\<close>

lemma rings_recycle:
  assumes "rb_inv pr" "rb_items pr = (p, l) # rest" "rb_inv tx" "length (rb_items tx) < rb_cap tx"
  shows "\<exists>r1 tx' pr'. rb_pop [] pr = Some (r1, Some (p, l)) \<and> push_item tx p l' = Some tx' \<and> push_item r1 p l = Some pr'
    \<and> rb_inv tx' \<and> rb_cap tx' = rb_cap tx \<and> rb_items tx' = rb_items tx @ [(p, l')]
    \<and> rb_inv pr' \<and> rb_cap pr' = rb_cap pr \<and> rb_items pr' = rest @ [(p, l)]"
proof -
  obtain r1 where r1: "rb_pop [] pr = Some (r1, Some (p, l))" "rb_inv r1" "rb_cap r1 = rb_cap pr" "rb_items r1 = rest"
    using rbq.pop_front [OF assms(1,2), of "[]"] by blast
  have "length (rb_items r1) < rb_cap r1" using rbq.bounded [OF assms(1)] r1 assms(2) by simp
  then show ?thesis using r1 push_item_room [OF r1(2)] push_item_room [OF assms(3,4), of p l'] by fastforce
qed

section \<open>Stores into a frame\<close>

lemma splice_fields:
  "splice (enc_ipv4 i) 16 (word_bytes 4 v) = enc_ipv4 (i\<lparr>ip_dest_addr := v\<rparr>)"
  "splice (enc_cmn c) 2 (word_bytes 2 w) = enc_cmn (c\<lparr>cmn_dstp := w\<rparr>)"
  "splice (enc_cmn c) 4 (word_bytes 4 v) = enc_cmn (c\<lparr>cmn_tag := v\<rparr>)"
  by (simp_all add: enc_ipv4_def enc_cmn_def splice_def)

lemma frame_put:
  assumes "length (mac_mac m) = 12"
  shows "put_u16 (frame_bytes m i c t) 16 w = Some (frame_bytes m (i\<lparr>ip_len := w\<rparr>) c t)"
    and "put_u16 (frame_bytes m i c t) 24 w = Some (frame_bytes m (i\<lparr>ip_check := w\<rparr>) c t)"
    and "put_u32 (frame_bytes m i c t) 30 v = Some (frame_bytes m (i\<lparr>ip_dest_addr := v\<rparr>) c t)"
    and "put_u16 (frame_bytes m i c t) 36 w = Some (frame_bytes m i (c\<lparr>cmn_dstp := w\<rparr>) t)"
    and "put_u32 (frame_bytes m i c t) 38 v = Some (frame_bytes m i (c\<lparr>cmn_tag := v\<rparr>) t)"
    and "put_u32 (frame_bytes m i c t) 42 v = Some (frame_bytes m i (c\<lparr>cmn_check := v\<rparr>) t)"
  using splice_mid [of "enc_mac m" 14 16 "word_bytes 4 v" "enc_ipv4 i" "enc_cmn c @ t"]
    splice_mid [of "enc_mac m @ enc_ipv4 i" 34 2 "word_bytes 2 w" "enc_cmn c" t]
    splice_mid [of "enc_mac m @ enc_ipv4 i" 34 4 "word_bytes 4 v" "enc_cmn c" t]
    frame_splice [OF assms] frame_splice_len [OF assms] length_enc_mac [OF assms] length_frame_bytes [OF assms]
  by (simp_all add: mwrite_def) (simp_all add: frame_bytes_def splice_fields)

lemma frame_put_chunk:
  assumes "length (mac_mac m) = 12" "length d = length e"
  shows "mwrite (frame_bytes m i c (e @ t)) 46 d = Some (frame_bytes m i c (d @ t))"
  using mwrite_part [of d e "enc_mac m @ enc_ipv4 i @ enc_cmn c" t] length_enc_mac [OF assms(1)] assms(2)
  by (simp add: frame_bytes_def)

lemma frame_reads:
  assumes "length (mac_mac m) = 12"
  shows "get_u16 (frame_bytes m i c t) 34 = Some (cmn_srcp c)"
    and "get_u16 (frame_bytes m i c t) 36 = Some (cmn_dstp c)"
    and "get_u32 (frame_bytes m i c t) 26 = Some (ip_src_addr i)"
    and "get_u32 (frame_bytes m i c t) 30 = Some (ip_dest_addr i)"
  using length_frame_bytes [OF assms] length_enc_mac [OF assms]
  by (simp_all add: get_word_in) (simp_all add: frame_bytes_def enc_cmn_def enc_ipv4_def)

lemma frame_read_chunk:
  "length (mac_mac m) = 12 \<Longrightarrow> mread (frame_bytes m i c t) (46 + k) n = mread t k n"
  using length_frame_bytes [of m i c t] length_enc_mac [of m] by (simp add: mread_def) (simp add: frame_bytes_def)

text \<open>The last steps of the replies to INIT and COOKIE ECHO.\<close>

definition ip_reply :: "ipv4_hdr \<Rightarrow> u32 \<Rightarrow> u16 \<Rightarrow> ipv4_hdr" where
  "ip_reply i dst len = i\<lparr>ip_dest_addr := dst, ip_len := len, ip_check := chk_fold (ucast (ip_check i) + (0 - ucast len - dst))\<rparr>"

definition cmn_reply :: "sctp_common_hdr \<Rightarrow> u16 \<Rightarrow> u32 \<Rightarrow> bytes \<Rightarrow> sctp_common_hdr" where
  "cmn_reply c port tag chunk =
     (let c = c\<lparr>cmn_dstp := port, cmn_tag := tag, cmn_check := 0\<rparr> in
      c\<lparr>cmn_check := NOT (crc_bytes (enc_cmn c @ chunk) 0xFFFFFFFF)\<rparr>)"

lemma reply_tail:
  assumes "length (mac_mac m) = 12" "unat L = 12 + length chunk"
  shows "do { mem \<leftarrow> put_u32 (frame_bytes m i c (chunk @ rest)) (14 + 16) dst;
              check \<leftarrow> get_u16 mem (14 + 10);
              mem \<leftarrow> put_u16 mem (14 + 2) len;
              mem \<leftarrow> put_u16 mem (14 + 10) (chk_fold (ucast check + (0 - ucast len - dst)));
              mem \<leftarrow> put_u16 mem (34 + 2) port;
              mem \<leftarrow> put_u32 mem (34 + 4) tag;
              mem \<leftarrow> put_u32 mem (34 + 8) 0;
              crc \<leftarrow> generate_crc32c_on_crc32c (drop 34 mem) L 0xFFFFFFFF;
              mem \<leftarrow> put_u32 mem (34 + 8) (NOT (ucast crc));
              k mem }
    = k (frame_bytes m (ip_reply i dst len) (cmn_reply c port tag chunk) (chunk @ rest))"
proof -
  let ?c = "c\<lparr>cmn_dstp := port, cmn_tag := tag, cmn_check := 0\<rparr>"
  have "generate_crc32c_on_crc32c (enc_cmn ?c @ chunk @ rest) L 0xFFFFFFFF = Some (ucast (crc_bytes (enc_cmn ?c @ chunk) 0xFFFFFFFF))"
    using generate_crc32c_on_crc32c_bytes [of L "enc_cmn ?c @ chunk @ rest" "0xFFFFFFFF"] assms(2) by simp
  then show ?thesis
    using frame_put [OF assms(1)] frame_get [OF assms(1)] frame_fields(5) [OF assms(1)]
    by (simp add: ip_reply_def cmn_reply_def)
qed

section \<open>Replies\<close>

lemma split_front: "n \<le> length t \<Longrightarrow> \<exists>e rest. t = e @ rest \<and> length e = n"
  by (intro exI [of _ "take n t"] exI [of _ "drop n t"]) simp

text \<open>The State Cookie an INIT is answered with.\<close>

definition cookie_for :: "sctp_association \<Rightarrow> u32 \<Rightarrow> cookie" where
  "cookie_for a ctag = \<lparr>ck_ver_tag = a_ver_tag a, ck_init_tag = ctag, ck_a_rwnd = a_a_rwnd a, ck_os = a_os a, ck_mis = a_mis a,
     ck_tsn = a_tsn a, ck_dst_tsn = a_dst_tsn a, ck_src_ip = a_dst_ip a, ck_dst_ip = u_src_ip (a_ulp a),
     ck_src_port = a_dst_port a, ck_dst_port = u_src_port (a_ulp a)\<rparr>"

definition init_ack_chunk :: "sctp_association \<Rightarrow> u32 \<Rightarrow> u32 \<Rightarrow> u32 \<Rightarrow> bytes" where
  "init_ack_chunk a itag itsn ctag =
     enc_fld \<lparr>fld_type = SCTP_INIT_ACK, fld_flags = 0, fld_len = htons 80\<rparr>
     @ enc_init \<lparr>init_tag = itag, init_a_rwnd = htonl (u_src_arwnd (a_ulp a)), init_os = htons (u_src_os (a_ulp a)),
                 init_mis = htons (u_src_mis (a_ulp a)), init_tsn = itsn\<rparr>
     @ enc_par \<lparr>par_type = htons 7, par_len = htons 60\<rparr>
     @ enc_cookie (cookie_for a ctag) @ hmac_spec cookie_key (enc_cookie (cookie_for a ctag))"

lemma length_init_ack_chunk [simp]: "length (init_ack_chunk a itag itsn ctag) = 80"
  by (simp add: init_ack_chunk_def)

text \<open>A packet that waits in the prefilled ring: an address, 46 bytes of headers and room for a chunk.\<close>

definition prefilled :: "pheap \<Rightarrow> ptr \<Rightarrow> mac_hdr \<Rightarrow> ipv4_hdr \<Rightarrow> sctp_common_hdr \<Rightarrow> bytes \<Rightarrow> bool" where
  "prefilled heap p m i c t \<longleftrightarrow> p \<noteq> NULL \<and> heap p = Some (frame_bytes m i c t) \<and> length (mac_mac m) = 12"

definition rings_ready :: "sctp_association \<Rightarrow> ptr \<Rightarrow> (ptr \<times> u64) list \<Rightarrow> bool" where
  "rings_ready a p rest \<longleftrightarrow> rb_inv (a_prefilled_ring a) \<and> rb_items (a_prefilled_ring a) = (p, 46) # rest
     \<and> rb_inv (a_tx_ring a) \<and> length (rb_items (a_tx_ring a)) < rb_cap (a_tx_ring a)"

definition rings_after :: "sctp_association \<Rightarrow> sctp_association \<Rightarrow> ptr \<Rightarrow> (ptr \<times> u64) list \<Rightarrow> u64 \<Rightarrow> bool" where
  "rings_after a a' p rest l \<longleftrightarrow> rb_inv (a_prefilled_ring a') \<and> rb_items (a_prefilled_ring a') = rest @ [(p, 46)]
     \<and> rb_inv (a_tx_ring a') \<and> rb_cap (a_tx_ring a') = rb_cap (a_tx_ring a)
     \<and> rb_items (a_tx_ring a') = rb_items (a_tx_ring a) @ [(p, l)]"

text \<open>The three random numbers of an INIT ACK: its tag and its TSN from the buffer, the cookie's tag from the system.\<close>

definition init_ack_draws :: "random_state \<Rightarrow> (u32 \<times> u32 \<times> u32 \<times> random_state) option" where
  "init_ack_draws rnd =
     do { (itag, rnd) \<leftarrow> get_random_from_buffer_u32 rnd;
          (itsn, rnd) \<leftarrow> get_random_from_buffer_u32 rnd;
          let (ctag, rnd) = get_random_u32 rnd;
          Some (itag, itsn, ctag, rnd) }"

lemma init_ack_built:
  assumes "prefilled heap p m i c t" "80 \<le> length t" "rings_ready a p rest" "rnd_inv rnd"
  shows "\<exists>itag itsn ctag rnd' tx pr. build_prefilled_mac_ip_sctp_init_ack_hdr g heap rnd a
      = Some (heap(p \<mapsto> frame_bytes m (ip_reply i (a_dst_ip a) (htons 112)) (cmn_reply c (ucast (a_dst_port a)) (a_ver_tag a) (init_ack_chunk a itag itsn ctag))
          (init_ack_chunk a itag itsn ctag @ drop 80 t)), rnd', a\<lparr>a_tx_ring := tx, a_prefilled_ring := pr\<rparr>, 0)
    \<and> rings_after a (a\<lparr>a_tx_ring := tx, a_prefilled_ring := pr\<rparr>) p rest 126 \<and> rnd_inv rnd'
    \<and> init_ack_draws rnd = Some (itag, itsn, ctag, rnd')"
proof -
  obtain itag rnd1 where r1: "get_random_from_buffer_u32 rnd = Some (itag, rnd1)" "rnd_inv rnd1"
    using from_buffer_ok [OF assms(4), of 4, where 'a = 32] by (auto simp: from_buffer_eqs)
  obtain itsn rnd2 where r2: "get_random_from_buffer_u32 rnd1 = Some (itsn, rnd2)" "rnd_inv rnd2"
    using from_buffer_ok [OF r1(2), of 4, where 'a = 32] by (auto simp: from_buffer_eqs)
  obtain ctag rnd3 where r3: "get_random_u32 rnd2 = (ctag, rnd3)" by fastforce
  then have r3i: "rnd_inv rnd3" using random_word_inv [OF r2(2), of 4, where 'a = 32] by (simp add: get_random_u32_def)
  obtain e s where t: "t = e @ s" "length e = 80" using split_front [OF assms(2)] by blast
  have m: "p \<noteq> NULL" "heap p = Some (frame_bytes m i c (e @ s))" "length (mac_mac m) = 12" using assms(1) t by (auto simp: prefilled_def)
  obtain q tx pr where q: "rb_pop [] (a_prefilled_ring a) = Some (q, Some (p, 46))" "push_item (a_tx_ring a) p 126 = Some tx"
      "push_item q p 46 = Some pr" "rings_after a (a\<lparr>a_tx_ring := tx, a_prefilled_ring := pr\<rparr>) p rest 126"
    using rings_recycle [of "a_prefilled_ring a" p 46 rest "a_tx_ring a" 126] assms(3) by (auto simp: rings_ready_def rings_after_def)
  let ?ch = "init_ack_chunk a itag itsn ctag"
  have hm: "hmac_md5 g (enc_cookie (cookie_for a ctag)) 40 cookie_key 16 = Some (hmac_spec cookie_key (enc_cookie (cookie_for a ctag)))"
    by (rule cookie_hmac) simp
  have w: "mwrite (frame_bytes m i c (e @ s)) 46 ?ch = Some (frame_bytes m i c (?ch @ s))"
    using frame_put_chunk [OF m(3), of ?ch e i c s] t(2) by simp
  have L: "unat (92 :: u32) = 12 + length ?ch" by simp
  have bytes: "?ch = enc_fld \<lparr>fld_type = SCTP_INIT_ACK, fld_flags = 0, fld_len = htons 80\<rparr>
     @ enc_init \<lparr>init_tag = itag, init_a_rwnd = htonl (u_src_arwnd (a_ulp a)), init_os = htons (u_src_os (a_ulp a)),
                 init_mis = htons (u_src_mis (a_ulp a)), init_tsn = itsn\<rparr>
     @ enc_par \<lparr>par_type = htons 7, par_len = htons 60\<rparr>
     @ enc_cookie (cookie_for a ctag) @ hmac_spec cookie_key (enc_cookie (cookie_for a ctag))"
    by (simp add: init_ack_chunk_def)
  note w' = w [THEN subst [of _ _ "\<lambda>x. mwrite (frame_bytes m i c (e @ s)) 46 x = Some (frame_bytes m i c (?ch @ s))", OF bytes]]
  note tail = reply_tail [OF m(3) L, of i c s "a_dst_ip a" "htons 112" "ucast (a_dst_port a)" "a_ver_tag a"
    "\<lambda>mem. Some (heap(p \<mapsto> mem), rnd3, a\<lparr>a_tx_ring := tx, a_prefilled_ring := pr\<rparr>, 0)"]
  have "build_prefilled_mac_ip_sctp_init_ack_hdr g heap rnd a
      = Some (heap(p \<mapsto> frame_bytes m (ip_reply i (a_dst_ip a) (htons 112)) (cmn_reply c (ucast (a_dst_port a)) (a_ver_tag a) ?ch) (?ch @ s)), rnd3,
          a\<lparr>a_tx_ring := tx, a_prefilled_ring := pr\<rparr>, 0)"
    unfolding build_prefilled_mac_ip_sctp_init_ack_hdr_def
    using q(1-3) r1(1) r2(1) r3 m(1,2) hm [unfolded cookie_for_def] w' [unfolded cookie_for_def] tail
    by (simp add: Let_def)
  moreover have "init_ack_draws rnd = Some (itag, itsn, ctag, rnd3)" using r1(1) r2(1) r3 by (simp add: init_ack_draws_def)
  ultimately show ?thesis using q(4) r3i t
    by (intro exI [of _ itag] exI [of _ itsn] exI [of _ ctag] exI [of _ rnd3] exI [of _ tx] exI [of _ pr]) simp
qed

text \<open>The last steps of a COOKIE ECHO, which leaves the addresses as they are.\<close>

definition ip_echo :: "ipv4_hdr \<Rightarrow> u16 \<Rightarrow> ipv4_hdr" where
  "ip_echo i len = i\<lparr>ip_len := len, ip_check := chk_fold (ucast (ip_check i) + (0 - ucast len))\<rparr>"

lemma echo_tail:
  assumes "length (mac_mac m) = 12" "unat L = 12 + length chunk"
  shows "do { check \<leftarrow> get_u16 (frame_bytes m i c (chunk @ rest)) (14 + 10);
              mem \<leftarrow> put_u16 (frame_bytes m i c (chunk @ rest)) (14 + 2) len;
              mem \<leftarrow> put_u16 mem (14 + 10) (chk_fold (ucast check + (0 - ucast len)));
              mem \<leftarrow> put_u32 mem (34 + 4) tag;
              mem \<leftarrow> put_u32 mem (34 + 8) 0;
              crc \<leftarrow> generate_crc32c (drop 34 mem) L;
              mem \<leftarrow> put_u32 mem (34 + 8) crc;
              k mem }
    = k (frame_bytes m (ip_echo i len) (cmn_reply c (cmn_dstp c) tag chunk) (chunk @ rest))"
proof -
  let ?c = "c\<lparr>cmn_tag := tag, cmn_check := 0\<rparr>"
  have "generate_crc32c (enc_cmn ?c @ chunk @ rest) L = Some (NOT (crc_bytes (enc_cmn ?c @ chunk) 0xFFFFFFFF))"
    using generate_crc32c_bytes [of L "enc_cmn ?c @ chunk @ rest"] assms(2) by simp
  then show ?thesis
    using frame_put [OF assms(1)] frame_get [OF assms(1)] frame_fields(5) [OF assms(1)]
    by (simp add: ip_echo_def cmn_reply_def)
qed

definition cookie_echo_chunk :: "bytes \<Rightarrow> bytes" where
  "cookie_echo_chunk ck = enc_fld \<lparr>fld_type = SCTP_COOKIE_ECHO, fld_flags = 0, fld_len = htons (of_nat (4 + length ck))\<rparr> @ ck"

lemma length_cookie_echo_chunk [simp]: "length (cookie_echo_chunk ck) = 4 + length ck"
  by (simp add: cookie_echo_chunk_def)

lemma cookie_echo_built:
  assumes "prefilled heap p m i c t" "4 + n \<le> length t" "rings_ready a p rest" "a_retry_ring a = Some (q, off)" "q \<noteq> p"
    "heap q = Some obj" "mread obj off n = Some ck" "unat (a_id a) = n" "n + 50 < 65536"
  shows "\<exists>tx pr. build_prefilled_mac_ip_sctp_cookie_echo_hdr heap a
      = Some (heap(p \<mapsto> frame_bytes m (ip_echo i (htons (of_nat (n + 36)))) (cmn_reply c (cmn_dstp c) (a_ver_tag a) (cookie_echo_chunk ck))
          (cookie_echo_chunk ck @ drop (4 + n) t)), a\<lparr>a_tx_ring := tx, a_prefilled_ring := pr\<rparr>, 0)
    \<and> rings_after a (a\<lparr>a_tx_ring := tx, a_prefilled_ring := pr\<rparr>) p rest (of_nat (n + 50))"
proof -
  have ck: "length ck = n" using assms(7) by (auto simp: mread_def split: if_splits)
  obtain e s where t: "t = e @ s" "length e = 4 + n" using split_front [OF assms(2)] by blast
  have m: "p \<noteq> NULL" "heap p = Some (frame_bytes m i c (e @ s))" "length (mac_mac m) = 12" using assms(1) t by (auto simp: prefilled_def)
  have id: "a_id a = of_nat n" unfolding assms(8) [symmetric] by simp
  obtain r tx pr where q: "rb_pop [] (a_prefilled_ring a) = Some (r, Some (p, 46))" "push_item (a_tx_ring a) p (of_nat (n + 50)) = Some tx"
      "push_item r p 46 = Some pr" "rings_after a (a\<lparr>a_tx_ring := tx, a_prefilled_ring := pr\<rparr>) p rest (of_nat (n + 50))"
    using rings_recycle [of "a_prefilled_ring a" p 46 rest "a_tx_ring a" "of_nat (n + 50)"] assms(3) by (auto simp: rings_ready_def rings_after_def)
  let ?f = "\<lparr>fld_type = SCTP_COOKIE_ECHO, fld_flags = 0, fld_len = htons (4 + a_id a)\<rparr>" and ?ch = "cookie_echo_chunk ck"
  have ch: "?ch = enc_fld ?f @ ck" by (simp add: cookie_echo_chunk_def id ck)
  obtain e1 e2 where e: "e = e1 @ e2" "length e1 = 4" "length e2 = n" using split_front [of 4 e] t(2) by auto
  have w1: "mwrite (frame_bytes m i c (e @ s)) 46 (enc_fld ?f) = Some (frame_bytes m i c (enc_fld ?f @ e2 @ s))"
    using frame_put_chunk [OF m(3), of "enc_fld ?f" e1 i c "e2 @ s"] e by simp
  have w2: "mwrite (frame_bytes m i c (enc_fld ?f @ e2 @ s)) 50 ck = Some (frame_bytes m i c (?ch @ s))"
    using mwrite_part [of ck e2 "enc_mac m @ enc_ipv4 i @ enc_cmn c @ enc_fld ?f" s] length_enc_mac [OF m(3)] e(3) ck ch by (simp add: frame_bytes_def)
  have len: "ucast (46 + (4 + ucast (a_id a)) - 14 :: u32) = (of_nat (n + 36) :: u16)" "ucast (46 + (4 + ucast (a_id a)) :: u32) = (of_nat (n + 50) :: u64)"
      "unat (12 + ucast (ntohs (htons (4 + a_id a))) :: u32) = 12 + length ?ch"
    using assms(8,9) ck by (simp_all add: word_unat_eq_iff unat_word_ariths unsigned_ucast_eq unsigned_take_bit_eq take_bit_eq_mod unat_of_nat)
  note tail = echo_tail [OF m(3) len(3), of i c s "htons (of_nat (n + 36))" "a_ver_tag a"
    "\<lambda>mem. Some (heap(p \<mapsto> mem), a\<lparr>a_tx_ring := tx, a_prefilled_ring := pr\<rparr>, 0)"]
  have "build_prefilled_mac_ip_sctp_cookie_echo_hdr heap a
      = Some (heap(p \<mapsto> frame_bytes m (ip_echo i (htons (of_nat (n + 36)))) (cmn_reply c (cmn_dstp c) (a_ver_tag a) ?ch) (?ch @ s)),
          a\<lparr>a_tx_ring := tx, a_prefilled_ring := pr\<rparr>, 0)"
    unfolding build_prefilled_mac_ip_sctp_cookie_echo_hdr_def
    using q(1-3) m(1,2) w1 w2 assms(4-8) tail len(1,2)
    by (simp add: Let_def)
  then show ?thesis using q(4) t by (intro exI [of _ tx] exI [of _ pr]) simp
qed

definition cookie_ack_chunk :: bytes where
  "cookie_ack_chunk = enc_fld \<lparr>fld_type = SCTP_COOKIE_ACK, fld_flags = 0, fld_len = htons 4\<rparr>"

lemma length_cookie_ack_chunk [simp]: "length cookie_ack_chunk = 4"
  by (simp add: cookie_ack_chunk_def)

lemma cookie_ack_built:
  assumes "prefilled heap p m i c t" "4 \<le> length t" "rings_ready a p rest"
  shows "\<exists>tx pr. build_prefilled_mac_ip_sctp_cookie_ack_hdr heap a
      = Some (heap(p \<mapsto> frame_bytes m (ip_reply i (a_dst_ip a) (htons 36)) (cmn_reply c (ucast (a_dst_port a)) (a_ver_tag a) cookie_ack_chunk)
          (cookie_ack_chunk @ drop 4 t)), a\<lparr>a_tx_ring := tx, a_prefilled_ring := pr\<rparr>, 0)
    \<and> rings_after a (a\<lparr>a_tx_ring := tx, a_prefilled_ring := pr\<rparr>) p rest 50"
proof -
  obtain e s where t: "t = e @ s" "length e = 4" using split_front [OF assms(2)] by blast
  have m: "p \<noteq> NULL" "heap p = Some (frame_bytes m i c (e @ s))" "length (mac_mac m) = 12" using assms(1) t by (auto simp: prefilled_def)
  obtain r tx pr where q: "rb_pop [] (a_prefilled_ring a) = Some (r, Some (p, 46))" "push_item (a_tx_ring a) p 50 = Some tx"
      "push_item r p 46 = Some pr" "rings_after a (a\<lparr>a_tx_ring := tx, a_prefilled_ring := pr\<rparr>) p rest 50"
    using rings_recycle [of "a_prefilled_ring a" p 46 rest "a_tx_ring a" 50] assms(3) by (auto simp: rings_ready_def rings_after_def)
  have w: "mwrite (frame_bytes m i c (e @ s)) 46 (enc_fld \<lparr>fld_type = SCTP_COOKIE_ACK, fld_flags = 0, fld_len = htons 4\<rparr>) = Some (frame_bytes m i c (cookie_ack_chunk @ s))"
    using frame_put_chunk [OF m(3), of cookie_ack_chunk e i c s] t(2) by (simp add: cookie_ack_chunk_def)
  have L: "unat (16 :: u32) = 12 + length cookie_ack_chunk" by simp
  note tail = reply_tail [OF m(3) L, of i c s "a_dst_ip a" "htons 36" "ucast (a_dst_port a)" "a_ver_tag a"
    "\<lambda>mem. Some (heap(p \<mapsto> mem), a\<lparr>a_tx_ring := tx, a_prefilled_ring := pr\<rparr>, 0)"]
  have "build_prefilled_mac_ip_sctp_cookie_ack_hdr heap a
      = Some (heap(p \<mapsto> frame_bytes m (ip_reply i (a_dst_ip a) (htons 36)) (cmn_reply c (ucast (a_dst_port a)) (a_ver_tag a) cookie_ack_chunk)
          (cookie_ack_chunk @ s)), a\<lparr>a_tx_ring := tx, a_prefilled_ring := pr\<rparr>, 0)"
    unfolding build_prefilled_mac_ip_sctp_cookie_ack_hdr_def
    using q(1-3) m(1,2) w tail by (simp add: Let_def)
  then show ?thesis using q(4) t by (intro exI [of _ tx] exI [of _ pr]) simp
qed

section \<open>Handlers\<close>

text \<open>The dispatcher's tests before it looks at the chunk.\<close>

definition addressed :: "sctp_association \<Rightarrow> ipv4_hdr \<Rightarrow> sctp_common_hdr \<Rightarrow> bool" where
  "addressed a i c \<longleftrightarrow> (\<exists>b. a_base a = Some b \<and> fr_state b \<noteq> None) \<and> ip_dest_addr i = u_src_ip (a_ulp a)
     \<and> u_src_port (a_ulp a) = ucast (ntohs (cmn_dstp c))"

lemma mread_parts:
  "n = length b \<Longrightarrow> k = length a \<Longrightarrow> mread (a @ b @ c) k n = Some b"
  "n = length b \<Longrightarrow> k = length a \<Longrightarrow> mread (a @ b) k n = Some b"
  "n = length b \<Longrightarrow> mread (b @ c) 0 n = Some b"
  by (simp_all add: mread_def)

lemma frame_load:
  assumes "length (mac_mac m) = 12"
  shows "load dec_fld 4 (frame_bytes m i c (enc_fld f @ t)) 46 = Some f"
    and "load dec_init 16 (frame_bytes m i c (enc_fld f @ enc_init ini @ t)) 50 = Some ini"
  using frame_read_chunk [OF assms, of i c _ 0] frame_read_chunk [OF assms, of i c _ 4]
    mread_parts(3) [of 4 "enc_fld f" t] mread_parts(1) [of 16 "enc_init ini" 4 "enc_fld f" t]
  by (simp_all add: load_def fld.dec_enc ini.dec_enc)

text \<open>The association that an INIT would create: it lives only while the INIT is answered.\<close>

definition peer :: "sctp_association \<Rightarrow> ipv4_hdr \<Rightarrow> sctp_common_hdr \<Rightarrow> sctp_init_hdr \<Rightarrow> sctp_association" where
  "peer a i c ini = a\<lparr>a_dst_port := ucast (cmn_srcp c), a_dst_ip := ip_src_addr i, a_os := init_os ini, a_mis := init_mis ini,
     a_a_rwnd := init_a_rwnd ini, a_ver_tag := init_tag ini, a_tsn := init_tsn ini, a_dst_tsn := init_tsn ini\<rparr>"

definition init_ack_frame :: "mac_hdr \<Rightarrow> ipv4_hdr \<Rightarrow> sctp_common_hdr \<Rightarrow> sctp_association \<Rightarrow> u32 \<Rightarrow> u32 \<Rightarrow> u32 \<Rightarrow> bytes \<Rightarrow> bytes" where
  "init_ack_frame m i c a itag itsn ctag t =
     frame_bytes m (ip_reply i (a_dst_ip a) (htons 112)) (cmn_reply c (ucast (a_dst_port a)) (a_ver_tag a) (init_ack_chunk a itag itsn ctag))
       (init_ack_chunk a itag itsn ctag @ t)"

lemma peer_rings:
  "rings_ready (peer a i c ini) p rest = rings_ready a p rest"
  "rings_after (peer a i c ini) ((peer a i c ini)\<lparr>a_tx_ring := tx, a_prefilled_ring := pr\<rparr>) p rest l
     = rings_after a (a\<lparr>a_tx_ring := tx, a_prefilled_ring := pr\<rparr>) p rest l"
  by (simp_all add: rings_ready_def rings_after_def peer_def)

lemma init_handled:
  assumes "heap r = Some (frame_bytes m' i' c' (enc_fld f @ enc_init ini @ x))" "length (mac_mac m') = 12" "r \<noteq> NULL"
    "addressed a i' c'" "fld_type f = SCTP_INIT" "a_status a = SCTP_LISTEN"
    "prefilled heap p m i c t" "80 \<le> length t" "rings_ready a p rest" "rnd_inv rnd"
  shows "\<exists>itag itsn ctag rnd' tx pr. if_ip_sctp g alloc heap rnd r a
      = Some (heap(p \<mapsto> init_ack_frame m i c (peer a i' c' ini) itag itsn ctag (drop 80 t)), rnd', a\<lparr>a_tx_ring := tx, a_prefilled_ring := pr\<rparr>, True)
    \<and> rings_after a (a\<lparr>a_tx_ring := tx, a_prefilled_ring := pr\<rparr>) p rest 126 \<and> rnd_inv rnd'
    \<and> init_ack_draws rnd = Some (itag, itsn, ctag, rnd')"
proof -
  have ready: "rings_ready (peer a i' c' ini) p rest" using assms(9) by (simp add: peer_rings)
  obtain itag itsn ctag rnd' tx pr where b: "build_prefilled_mac_ip_sctp_init_ack_hdr g heap rnd (peer a i' c' ini)
      = Some (heap(p \<mapsto> init_ack_frame m i c (peer a i' c' ini) itag itsn ctag (drop 80 t)), rnd', (peer a i' c' ini)\<lparr>a_tx_ring := tx, a_prefilled_ring := pr\<rparr>, 0)"
      "rings_after (peer a i' c' ini) ((peer a i' c' ini)\<lparr>a_tx_ring := tx, a_prefilled_ring := pr\<rparr>) p rest 126" "rnd_inv rnd'"
      "init_ack_draws rnd = Some (itag, itsn, ctag, rnd')"
    using init_ack_built [OF assms(7,8) ready assms(10), of g, folded init_ack_frame_def] by blast
  have "sctp_process_sctp_init g heap rnd a (frame_bytes m' i' c' (enc_fld f @ enc_init ini @ x))
      = Some (heap(p \<mapsto> init_ack_frame m i c (peer a i' c' ini) itag itsn ctag (drop 80 t)), rnd', a\<lparr>a_tx_ring := tx, a_prefilled_ring := pr\<rparr>, 0)"
    using b(1) frame_reads [OF assms(2)] frame_load [OF assms(2)] by (simp add: sctp_process_sctp_init_def peer_def)
  then have "if_ip_sctp g alloc heap rnd r a
      = Some (heap(p \<mapsto> init_ack_frame m i c (peer a i' c' ini) itag itsn ctag (drop 80 t)), rnd', a\<lparr>a_tx_ring := tx, a_prefilled_ring := pr\<rparr>, True)"
    using assms(1-6) frame_reads [OF assms(2)] frame_load [OF assms(2)] by (auto simp: if_ip_sctp_def addressed_def)
  then show ?thesis using b(2-4) unfolding peer_rings by blast
qed

text \<open>The client's answer to an INIT ACK: \<open>ck\<close> is the cookie with its digest, the rest of the chunk after the parameter header.\<close>

definition after_init_ack :: "sctp_association \<Rightarrow> sctp_init_hdr \<Rightarrow> nat \<Rightarrow> ptr \<Rightarrow> sctp_association" where
  "after_init_ack a ini n r = a\<lparr>a_ver_tag := init_tag ini, a_os := init_os ini, a_mis := init_mis ini, a_a_rwnd := init_a_rwnd ini,
     a_tsn := init_tsn ini, a_status := SCTP_INIT_ACK_RECEIVED, a_id := of_nat n, a_retry_ring := Some (r, 70)\<rparr>"

definition cookie_echo_frame :: "mac_hdr \<Rightarrow> ipv4_hdr \<Rightarrow> sctp_common_hdr \<Rightarrow> u32 \<Rightarrow> bytes \<Rightarrow> bytes \<Rightarrow> bytes" where
  "cookie_echo_frame m i c tag ck t =
     frame_bytes m (ip_echo i (htons (of_nat (length ck + 36)))) (cmn_reply c (cmn_dstp c) tag (cookie_echo_chunk ck)) (cookie_echo_chunk ck @ t)"

lemma init_ack_handled:
  assumes "heap r = Some (frame_bytes m' i' c' (enc_fld f @ enc_init ini @ par @ ck @ x))" "length (mac_mac m') = 12" "r \<noteq> NULL"
    "addressed a i' c'" "fld_type f = SCTP_INIT_ACK" "a_status a = SCTP_INIT_SENT"
    "unat (ntohs (fld_len f)) = 24 + n" "0 < n" "length par = 4" "length ck = n"
    "prefilled heap p m i c t" "4 + n \<le> length t" "rings_ready a p rest" "n + 50 < 65536" "r \<noteq> p"
  shows "\<exists>tx pr. if_ip_sctp g alloc heap rnd r a
      = Some (heap(p \<mapsto> cookie_echo_frame m i c (init_tag ini) ck (drop (4 + n) t)), rnd,
          (after_init_ack a ini n r)\<lparr>a_tx_ring := tx, a_prefilled_ring := pr\<rparr>, True)
    \<and> rings_after a ((after_init_ack a ini n r)\<lparr>a_tx_ring := tx, a_prefilled_ring := pr\<rparr>) p rest (of_nat (n + 50))"
proof -
  let ?pkt = "frame_bytes m' i' c' (enc_fld f @ enc_init ini @ par @ ck @ x)" and ?a = "after_init_ack a ini n r"
  have ready: "rings_ready ?a p rest" using assms(13) by (simp add: rings_ready_def after_init_ack_def)
  have n: "unat (a_id ?a) = n" using assms(14) by (simp add: after_init_ack_def unat_of_nat)
  have rr: "a_retry_ring ?a = Some (r, 70)" by (simp add: after_init_ack_def)
  have ck: "mread ?pkt 70 n = Some ck"
    using frame_read_chunk [OF assms(2), of i' c' "enc_fld f @ enc_init ini @ par @ ck @ x" 24 n]
      mread_parts(1) [of n ck 24 "enc_fld f @ enc_init ini @ par" x] assms(9,10) by simp
  obtain tx pr where b: "build_prefilled_mac_ip_sctp_cookie_echo_hdr heap ?a
      = Some (heap(p \<mapsto> cookie_echo_frame m i c (init_tag ini) ck (drop (4 + n) t)), ?a\<lparr>a_tx_ring := tx, a_prefilled_ring := pr\<rparr>, 0)"
      "rings_after ?a (?a\<lparr>a_tx_ring := tx, a_prefilled_ring := pr\<rparr>) p rest (of_nat (n + 50))"
    using cookie_echo_built [OF assms(11,12) ready rr assms(15,1) ck n assms(14)] assms(10)
    by (auto simp: cookie_echo_frame_def) (auto simp: after_init_ack_def)
  have "ntohs (fld_len f) = of_nat (24 + n)" unfolding assms(7) [symmetric] by simp
  then have id: "ntohs (fld_len f) - 24 = of_nat n" by simp
  have "sctp_process_sctp_init_ack heap a r ?pkt (fld_len f)
      = Some (heap(p \<mapsto> cookie_echo_frame m i c (init_tag ini) ck (drop (4 + n) t)), ?a\<lparr>a_tx_ring := tx, a_prefilled_ring := pr\<rparr>, 0)"
    using b(1) assms(7,8) frame_load [OF assms(2)] id by (simp add: sctp_process_sctp_init_ack_def after_init_ack_def)
  then have "if_ip_sctp g alloc heap rnd r a
      = Some (heap(p \<mapsto> cookie_echo_frame m i c (init_tag ini) ck (drop (4 + n) t)), rnd, ?a\<lparr>a_tx_ring := tx, a_prefilled_ring := pr\<rparr>, True)"
    using assms(1-6) frame_reads [OF assms(2)] frame_load [OF assms(2)] by (auto simp: if_ip_sctp_def addressed_def)
  then show ?thesis using b(2) by (auto simp: rings_after_def after_init_ack_def)
qed

lemma or_fold_zero: "foldl (OR) b xs = 0 \<longleftrightarrow> b = 0 \<and> (\<forall>x \<in> set xs. x = (0 :: u8))"
  by (induction xs arbitrary: b) (auto simp: or_eq_0_iff)

lemma xor_zero: "x XOR y = 0 \<longleftrightarrow> x = (y :: u8)"
  by (metis xor.assoc xor.left_neutral xor.right_neutral xor_self_eq)

text \<open>The comparison without early exit is inequality.\<close>

lemma digest_differs_iff: "length d = length e \<Longrightarrow> digest_differs d e \<longleftrightarrow> d \<noteq> e"
proof (induction d e rule: list_induct2)
  case (Cons x xs y ys)
  then show ?case by (auto simp: digest_differs_def or_fold_zero xor_zero)
qed (simp add: digest_differs_def)

text \<open>What the association takes over from an authentic cookie.\<close>

definition from_cookie :: "sctp_association \<Rightarrow> cookie \<Rightarrow> sctp_association" where
  "from_cookie a ck = a\<lparr>a_ver_tag := ck_ver_tag ck, a_init_tag := ck_init_tag ck, a_a_rwnd := ck_a_rwnd ck, a_os := ck_os ck, a_mis := ck_mis ck,
     a_tsn := ck_tsn ck, a_dst_tsn := ck_dst_tsn ck, a_dst_ip := ck_src_ip ck, a_dst_port := ck_src_port ck,
     a_rto := SCTP_RTO_MIN, a_srtt := 0, a_rttvar := 0\<rparr>"

definition cookie_ack_frame :: "mac_hdr \<Rightarrow> ipv4_hdr \<Rightarrow> sctp_common_hdr \<Rightarrow> cookie \<Rightarrow> bytes \<Rightarrow> bytes" where
  "cookie_ack_frame m i c ck t =
     frame_bytes m (ip_reply i (ck_src_ip ck) (htons 36)) (cmn_reply c (ucast (ck_src_port ck)) (ck_ver_tag ck) cookie_ack_chunk) (cookie_ack_chunk @ t)"

lemma cookie_echo_handled:
  assumes "heap r = Some (frame_bytes m' i' c' (enc_fld f @ ckb @ mac @ x))" "length (mac_mac m') = 12" "r \<noteq> NULL"
    "addressed a i' c'" "fld_type f = SCTP_COOKIE_ECHO" "a_status a = SCTP_LISTEN" "length ckb = 40" "length mac = 16"
  shows "60 \<le> unat (ntohs (fld_len f)) \<Longrightarrow> mac = hmac_spec cookie_key ckb \<Longrightarrow> prefilled heap p m i c t \<Longrightarrow> 4 \<le> length t \<Longrightarrow> rings_ready a p rest
      \<Longrightarrow> \<exists>tx pr. if_ip_sctp g alloc heap rnd r a
          = Some (heap(p \<mapsto> cookie_ack_frame m i c (dec_cookie ckb) (drop 4 t)), rnd,
              fst (prepare_sctp_threads alloc ((from_cookie a (dec_cookie ckb))\<lparr>a_tx_ring := tx, a_prefilled_ring := pr\<rparr>)), True)
        \<and> rings_after a (a\<lparr>a_tx_ring := tx, a_prefilled_ring := pr\<rparr>) p rest 50"
    and "unat (ntohs (fld_len f)) < 60 \<or> mac \<noteq> hmac_spec cookie_key ckb \<Longrightarrow> if_ip_sctp g alloc heap rnd r a = Some (heap, rnd, a, False)"
proof -
  let ?pkt = "frame_bytes m' i' c' (enc_fld f @ ckb @ mac @ x)" and ?a = "from_cookie a (dec_cookie ckb)"
  have rd: "mread ?pkt 50 40 = Some ckb" "mread ?pkt 90 16 = Some mac"
    using frame_read_chunk [OF assms(2), of i' c' "enc_fld f @ ckb @ mac @ x" 4 40] frame_read_chunk [OF assms(2), of i' c' "enc_fld f @ ckb @ mac @ x" 44 16]
      mread_parts(1) [of 40 ckb 4 "enc_fld f" "mac @ x"] mread_parts(1) [of 16 mac 44 "enc_fld f @ ckb" x] assms(7,8) by simp_all
  have hm: "hmac_md5 g ckb 40 cookie_key 16 = Some (hmac_spec cookie_key ckb)" using assms(7) by (rule cookie_hmac)
  have dd: "digest_differs (hmac_spec cookie_key ckb) mac \<longleftrightarrow> mac \<noteq> hmac_spec cookie_key ckb"
    using digest_differs_iff [of "hmac_spec cookie_key ckb" mac] assms(8) by auto
  have dispatch: "if_ip_sctp g alloc heap rnd r a = do { (heap', a', r') \<leftarrow> sctp_process_sctp_cookie_echo g alloc heap a ?pkt (fld_len f); Some (heap', rnd, a', \<not> r' <s 0) }"
    using assms(1-6) frame_reads [OF assms(2)] frame_load [OF assms(2)] by (auto simp: if_ip_sctp_def addressed_def)
  {
    assume "60 \<le> unat (ntohs (fld_len f))" "mac = hmac_spec cookie_key ckb" and c: "prefilled heap p m i c t" "4 \<le> length t" and ready: "rings_ready a p rest"
    have "rings_ready ?a p rest" using ready by (simp add: rings_ready_def from_cookie_def)
    from cookie_ack_built [OF c this] obtain tx pr where b: "build_prefilled_mac_ip_sctp_cookie_ack_hdr heap ?a
        = Some (heap(p \<mapsto> cookie_ack_frame m i c (dec_cookie ckb) (drop 4 t)), ?a\<lparr>a_tx_ring := tx, a_prefilled_ring := pr\<rparr>, 0)"
        "rings_after ?a (?a\<lparr>a_tx_ring := tx, a_prefilled_ring := pr\<rparr>) p rest 50"
      unfolding cookie_ack_frame_def by (auto simp: from_cookie_def)
    then show "\<exists>tx pr. if_ip_sctp g alloc heap rnd r a
          = Some (heap(p \<mapsto> cookie_ack_frame m i c (dec_cookie ckb) (drop 4 t)), rnd,
              fst (prepare_sctp_threads alloc (?a\<lparr>a_tx_ring := tx, a_prefilled_ring := pr\<rparr>)), True)
        \<and> rings_after a (a\<lparr>a_tx_ring := tx, a_prefilled_ring := pr\<rparr>) p rest 50"
      using \<open>60 \<le> _\<close> \<open>mac = _\<close> rd hm dd
      by (intro exI [of _ tx] exI [of _ pr])
        (simp add: dispatch sctp_process_sctp_cookie_echo_def from_cookie_def [symmetric] Let_def, simp add: rings_after_def from_cookie_def)
  }
  assume "unat (ntohs (fld_len f)) < 60 \<or> mac \<noteq> hmac_spec cookie_key ckb"
  then show "if_ip_sctp g alloc heap rnd r a = Some (heap, rnd, a, False)"
    using rd hm dd by (auto simp: dispatch sctp_process_sctp_cookie_echo_def)
qed

lemma prepare_threads_frame:
  "\<exists>th k. fst (prepare_sctp_threads alloc a) = a\<lparr>a_threads := th, a_os_threads := k\<rparr>"
proof -
  let ?n = "unat (ntohs (a_mis a)) + unat (ntohs (a_os a))"
  have same: "\<exists>th k. a = a\<lparr>a_threads := th, a_os_threads := k\<rparr>"
    by (rule exI [of _ "a_threads a"], rule exI [of _ "a_os_threads a"]) simp
  show ?thesis
    unfolding prepare_sctp_threads_def Let_def using same
    by (cases "alloc 0"; cases "list_all alloc [1..<Suc ?n]") (simp_all only: if_True if_False fst_conv not_True_eq_False not_False_eq_True, blast+)
qed

lemma cookie_ack_handled:
  assumes "heap r = Some (frame_bytes m' i' c' (enc_fld f @ x))" "length (mac_mac m') = 12" "r \<noteq> NULL"
    "addressed a i' c'" "fld_type f = SCTP_COOKIE_ACK" "a_status a = SCTP_INIT_ACK_RECEIVED" "4 \<le> unat (ntohs (fld_len f))"
  shows "if_ip_sctp g alloc heap rnd r a = Some (heap, rnd, fst (prepare_sctp_threads alloc (a\<lparr>a_status := SCTP_ESTABLISHED\<rparr>)), True)"
  using assms frame_reads [OF assms(2)] frame_load [OF assms(2)]
  by (auto simp: if_ip_sctp_def addressed_def sctp_process_sctp_cookie_ack_def)

section \<open>A sample association\<close>

text \<open>Its prefilled ring holds the packets \<open>ps\<close> in order, its transmit ring is empty.\<close>

definition ring_of :: "ptr list \<Rightarrow> ringbuf" where
  "ring_of ps = foldl (\<lambda>rb p. rb_pushed rb p 46) (ring_init (\<lambda>_. (0, 0)) 4) ps"

lemma ring_of_ok: "length ps \<le> 4 \<Longrightarrow> rb_inv (ring_of ps) \<and> rb_cap (ring_of ps) = 4 \<and> rb_items (ring_of ps) = map (\<lambda>p. (p, 46)) ps"
proof (induction ps rule: rev_induct)
  case Nil
  show ?case using ring_init_inv [of 2 "\<lambda>_. (0, 0)"] by (simp add: ring_of_def)
next
  case (snoc p ps)
  then have r: "rb_inv (ring_of ps)" "rb_cap (ring_of ps) = 4" "rb_items (ring_of ps) = map (\<lambda>p. (p, 46)) ps" by simp_all
  then have "rb_count (ring_of ps) < rb_cap (ring_of ps)" using snoc.prems by (simp flip: length_rb_items)
  then show ?case using r rb_inv_pushed [OF r(1), of p 46] rb_items_pushed [OF r(1), of p 46] by (simp add: ring_of_def)
qed

definition sample_ulp :: "u32 \<Rightarrow> u32 \<Rightarrow> sctp_ulp_config" where
  "sample_ulp ip port = \<lparr>u_max_retrans = 10, u_rto_initial = 0, u_rto_min = 0, u_rto_max = 0, u_max_burst = 0, u_cookie_life = 0,
     u_src_ip = ip, u_dst_ip = 0, u_src_port = port, u_dst_port = 0, u_src_arwnd = 65535, u_src_tsn = 0, u_src_os = 32, u_src_mis = 32,
     u_dev = replicate 6 0, u_gateway = replicate 6 0\<rparr>"

definition sample_assoc :: "SCTP_STATUS \<Rightarrow> u32 \<Rightarrow> u32 \<Rightarrow> ptr list \<Rightarrow> sctp_association" where
  "sample_assoc st ip port ps = \<lparr>a_id = 56, a_status = st, a_ver_tag = 0, a_init_tag = 0, a_a_rwnd = 0, a_dst_port = 0, a_dst_ip = 0xC800000A,
     a_os = 0, a_mis = 0, a_tsn = 0, a_dst_tsn = 0, a_srtt = 0, a_rttvar = 0, a_rto = 0, a_mtu = 1454, a_threads = None, a_os_threads = 0,
     a_tx_ring = ring_of [], a_retry_ring = Some (9, 0), a_prefilled_ring = ring_of ps, a_bundling = ring_of [], a_base = Some sample_data,
     a_ulp = sample_ulp ip port, a_current_packet = NULL, a_cursor = (NULL, 0), a_remain_plen = 0, a_rtx = []\<rparr>"

lemma sample_rings:
  assumes "length ps \<le> 3"
  shows "rings_ready (sample_assoc st ip port (p # ps)) p (map (\<lambda>p. (p, 46)) ps)"
  using ring_of_ok [of "p # ps"] ring_of_ok [of "[]"] assms by (simp add: rings_ready_def sample_assoc_def)

definition sample_mac :: mac_hdr where
  "sample_mac = \<lparr>mac_mac = replicate 12 0, mac_type = htons ETHERTYPE_IP\<rparr>"

definition sample_ip :: "u32 \<Rightarrow> u32 \<Rightarrow> ipv4_hdr" where
  "sample_ip src dst = ip_prefilled 0 src dst"

definition sample_cmn :: "u16 \<Rightarrow> u16 \<Rightarrow> sctp_common_hdr" where
  "sample_cmn src dst = \<lparr>cmn_srcp = htons src, cmn_dstp = htons dst, cmn_tag = 0, cmn_check = 0\<rparr>"

lemma sample_mac_length [simp]: "length (mac_mac sample_mac) = 12"
  by (simp add: sample_mac_def)

end
