(* ===== verification/Replies.thy ===== *)
theory Replies
  imports Handshake
begin

unbundle bit_operations_syntax

text \<open>
  The checksums of the replies. A builder that completes a prefilled frame does not compute the IPv4 checksum
  anew: it subtracts the fields it adds from the checksum of the prefilled header. The SCTP checksum is
  computed anew.
\<close>

section \<open>The IPv4 checksum of a header\<close>

definition header_ok :: "ipv4_hdr \<Rightarrow> bool" where
  "header_ok i \<longleftrightarrow> unat (ip_check i) = 65535 - ones (osum (enc_ipv4 (i\<lparr>ip_check := 0\<rparr>)))"

lemma not_word16: "w = NOT (v :: u16) \<longleftrightarrow> unat w = 65535 - unat v"
  unfolding word_unat_eq_iff by (simp add: unat_not_u16)

lemma header_ok_checksum:
  "ip_checksum (enc_ipv4 (i\<lparr>ip_check := 0\<rparr>)) 0 20 = Some s \<Longrightarrow> header_ok i \<longleftrightarrow> ip_check i = NOT (ucast s)"
  using unat_ucast_ones [OF ip_checksum_osum, of "enc_ipv4 (i\<lparr>ip_check := 0\<rparr>)" s] by (simp add: header_ok_def not_word16)

section \<open>Subtracting on 32 bits with one fold\<close>

definition fold16 :: "nat \<Rightarrow> nat" where
  "fold16 x = x mod 65536 + x div 65536"

lemma fold16_int: "int (fold16 x) = int x - 65535 * int (x div 65536)"
proof -
  have "x = 65536 * (x div 65536) + x mod 65536" by simp
  then have "int x = 65536 * int (x div 65536) + int (x mod 65536)" by (metis of_nat_add of_nat_mult of_nat_numeral)
  then show ?thesis by (simp add: fold16_def)
qed

lemma ones_int: "\<exists>q. int (ones k) = int k - 65535 * q"
proof -
  have "int (ones k) mod 65535 = int k mod 65535" using ones_mod [of k] by (metis of_nat_mod of_nat_numeral)
  then have "65535 dvd int k - int (ones k)" by (metis mod_eq_dvd_iff)
  then obtain q where "int k - int (ones k) = 65535 * q" by (auto simp: dvd_def)
  then show ?thesis by (intro exI [of _ q]) simp
qed

lemma unat_chk_fold: "unat (chk_fold x) = fold16 (unat x) mod 65536"
proof -
  have a: "x AND 0xFFFF = take_bit 16 x" by (simp add: take_bit_eq_mask mask_eq_exp_minus_1)
  have lt: "unat x < 4294967296" using unsigned_less [of x] by simp
  have u: "unat ((x AND 0xFFFF) + drop_bit 16 x) = fold16 (unat x)"
    unfolding a unat_word_ariths unsigned_take_bit_eq unsigned_drop_bit_eq fold16_def
    using lt by (simp add: take_bit_eq_mod drop_bit_eq_div)
  show ?thesis
  proof (cases "x > 0xFFFF")
    case True
    then show ?thesis using u by (simp add: chk_fold_def unsigned_ucast_eq unsigned_take_bit_eq take_bit_eq_mod)
  next
    case False
    then have "unat x \<le> 65535" by (simp add: word_le_nat_alt word_less_nat_alt)
    then show ?thesis using False by (simp add: chk_fold_def fold16_def unsigned_ucast_eq unsigned_take_bit_eq take_bit_eq_mod)
  qed
qed

text \<open>
  \<open>C\<close> is the old checksum, \<open>D\<close> what is subtracted and \<open>b\<close> how often the subtraction borrows; the result is
  off by the difference between the borrows and the bit lost when the fold is cut to 16 bits.
\<close>

lemma fold_off:
  assumes "ones k = 65535 - C" "C \<le> 65535" "x + D = C + b * 4294967296" "S = k + W + fold16 T" "D = W + T"
    "fold16 x = y + 65536 * t"
  shows "\<exists>z. int y = int (65535 - ones S) + int b - int t + 65535 * z"
proof -
  obtain u where u: "int (ones k) = int k - 65535 * u" using ones_int by blast
  obtain v where v: "int (ones S) = int S - 65535 * v" using ones_int by blast
  have R: "int (65535 - ones S) = 65535 - int (ones S)" using ones_le [of S] by simp
  have k: "int k = 65535 - int C + 65535 * u" using u assms(1,2) by simp
  have S: "int S = int k + int W + int T - 65535 * int (T div 65536)" using assms(4) fold16_int [of T] by simp
  have x: "int x = int C + 4294967296 * int b - int W - int T" using assms(3,5) by linarith
  have y: "int y = int x - 65535 * int (x div 65536) - 65536 * int t" using assms(6) fold16_int [of x] by simp
  have "int y = int (65535 - ones S) + int b - int t + 65535 * (65537 * int b - int (x div 65536) - int t + u - int (T div 65536) - v)"
    unfolding R v S k y x by (simp add: algebra_simps)
  then show ?thesis by blast
qed

lemma fold16_le: "x < 4294967296 \<Longrightarrow> fold16 x \<le> 131070"
proof -
  assume "x < 4294967296"
  then have "x div 65536 < 65536" by (simp add: div_less_iff_less_mult)
  moreover have "x mod 65536 < 65536" by simp
  ultimately show ?thesis unfolding fold16_def by linarith
qed

lemma fold16_split: "r < 65536 \<Longrightarrow> fold16 (r + q * 65536) = r + q"
  unfolding fold16_def by simp

lemma fold16_pos: "0 < x \<Longrightarrow> 0 < fold16 x"
  unfolding fold16_def by (metis add_is_0 gr0I mult_0_right mult_div_mod_eq neq0_conv)

lemma fold_exact:
  assumes "C \<le> 65535" "ones k = 65535 - C" "W \<le> 65535" "T < 4294967296"
    and x: "x = (C + 8589934592 - (W + T)) mod 4294967296" and S: "S = k + W + fold16 T"
  shows "fold16 x mod 65536 = 65535 - ones S \<longleftrightarrow> W + T \<le> C \<or> (W + T \<le> C + 4294967296 \<and> 65536 \<le> fold16 x)"
proof -
  let ?D = "W + T" and ?y = "fold16 x mod 65536" and ?t = "fold16 x div 65536"
  have xlt: "x < 4294967296" using x by simp
  have t: "?t \<le> 1" using fold16_le [OF xlt] by (simp add: div_le_mono [of _ 131070 65536, simplified])
  have yt: "fold16 x = ?y + 65536 * ?t" by simp
  have off: "\<exists>z. int ?y = int (65535 - ones S) + int b - int ?t + 65535 * z" if "x + ?D = C + b * 4294967296" for b
    by (rule fold_off [OF assms(2,1) that S refl yt])
  consider "?D \<le> C" | "C < ?D" "?D \<le> C + 4294967296" | "C + 4294967296 < ?D" by linarith
  then show ?thesis
  proof cases
    case 1
    have "C + 8589934592 - ?D = (C - ?D) + 2 * 4294967296" using 1 by simp
    then have "x = (C - ?D) mod 4294967296" unfolding x by (metis mod_mult_self1)
    then have x': "x = C - ?D" using assms(1) by simp
    have T: "fold16 T = T" using 1 assms(1) by (simp add: fold16_def)
    have "ones S = 65535 - C + ?D"
    proof (rule ones_eqI)
      have "(ones k + ?D) mod 65535 = (k + ?D) mod 65535" by (metis mod_add_left_eq ones_mod)
      then show "(65535 - C + ?D) mod 65535 = S mod 65535" using assms(2) by (simp add: S T add.assoc)
      show "65535 - C + ?D = 0 \<longleftrightarrow> S = 0" using assms(2) ones_eq_0 [of k] by (simp add: S T)
    qed (use 1 assms(1) in simp)
    moreover have "fold16 x = x" using x' assms(1) by (simp add: fold16_def)
    ultimately show ?thesis using 1 x' assms(1) by simp
  next
    case 2
    have "C + 8589934592 - ?D = (C + 4294967296 - ?D) + 4294967296" using 2 by simp
    then have "x = (C + 4294967296 - ?D) mod 4294967296" unfolding x by (metis mod_add_self2)
    then have "x + ?D = C + 1 * 4294967296" using 2 by simp
    from off [OF this] obtain z where z: "int ?y = int (65535 - ones S) + 1 - int ?t + 65535 * z" by auto
    have "0 < S" using 2 fold16_pos [of T] by (cases "T = 0") (simp_all add: S)
    then have R: "65535 - ones S < 65535" using ones_eq_0 [of S] by linarith
    have "?y = 65535 - ones S \<longleftrightarrow> ?t = 1"
    proof
      assume "?y = 65535 - ones S"
      with z have "int ?t = 1 + 65535 * z" by simp
      then have "z = 0" using t by linarith
      then show "?t = 1" using \<open>int ?t = _\<close> by simp
    next
      assume "?t = 1"
      then have y: "int ?y = int (65535 - ones S) + 65535 * z" and lt: "?y < 65535" using z yt fold16_le [OF xlt] by simp_all
      then have "int (65535 - ones S) + 65535 * z < 65535" "0 \<le> int (65535 - ones S) + 65535 * z" by linarith+
      then have "z = 0" using R by linarith
      then show "?y = 65535 - ones S" using y by simp
    qed
    moreover have "?t = 1 \<longleftrightarrow> 65536 \<le> fold16 x" using fold16_le [OF xlt] by (auto simp: div_if)
    ultimately show ?thesis using 2 by simp
  next
    case 3
    then have "x = C + 8589934592 - ?D" using assms(3,4) x by simp
    then have "x + ?D = C + 2 * 4294967296" using assms(3,4) by simp
    from off [OF this] obtain z where z: "int ?y = int (65535 - ones S) + 2 - int ?t + 65535 * z" by auto
    have "?y \<noteq> 65535 - ones S"
    proof
      assume "?y = 65535 - ones S"
      with z have eq: "int ?t = 2 + 65535 * z" by linarith
      then have "z < 0" using t by linarith
      then have "2 + 65535 * z < 0" by linarith
      then show False unfolding eq [symmetric] by linarith
    qed
    then show ?thesis using 3 by simp
  qed
qed

section \<open>The headers of replies\<close>

lemma osum_word4: "osum (word_bytes 4 (w :: u32) @ bs) = fold16 (unat w) + osum bs"
proof -
  have bytes: "word_bytes 2 x = [ucast x, ucast (drop_bit 8 x)]" "word_bytes 4 w = [ucast w, ucast (drop_bit 8 w), ucast (drop_bit 16 w), ucast (drop_bit 24 w)]"
    for x :: u16 by (simp_all add: eval_nat_numeral)
  have "word_bytes 4 w = word_bytes 2 (ucast w :: u16) @ word_bytes 2 (ucast (drop_bit 16 w) :: u16)"
    unfolding bytes by (auto intro!: bit_word_eqI simp: bit_simps)
  moreover have "unat (ucast w :: u16) = unat w mod 65536" by (simp add: unsigned_ucast_eq unsigned_take_bit_eq take_bit_eq_mod)
  moreover have "unat (ucast (drop_bit 16 w) :: u16) = unat w div 65536"
  proof -
    have lt: "unat w < 4294967296" using unsigned_less [of w, where 'a = nat] by simp
    have "unat (ucast (drop_bit 16 w) :: u16) = take_bit 16 (drop_bit 16 (unat w))"
      by (simp only: unsigned_ucast_eq unsigned_take_bit_eq unsigned_drop_bit_eq) (simp add: take_bit_drop_bit)
    then show ?thesis using lt by (simp add: take_bit_eq_mod drop_bit_eq_div div_less_iff_less_mult)
  qed
  ultimately show ?thesis by (simp add: osum_word_bytes fold16_def)
qed

lemma osum_reply:
  "osum (enc_ipv4 (i\<lparr>ip_dest_addr := d, ip_len := w, ip_check := 0\<rparr>))
    = osum (enc_ipv4 (i\<lparr>ip_dest_addr := 0, ip_len := 0, ip_check := 0\<rparr>)) + unat w + fold16 (unat d)"
  using osum_word4 [of d "[]"] osum_word4 [of 0 "[]"]
  by (simp add: enc_ipv4_def osum_word_bytes osum_word4) (simp add: fold16_def)

lemma unat_check_sub:
  "unat (ucast (c :: u16) + (0 - ucast (w :: u16) - d) :: u32) = (unat c + 8589934592 - (unat w + unat d)) mod 4294967296"
proof -
  have lt: "unat w < 65536" "unat d < 4294967296" "unat c < 65536" using unsigned_less [of w] unsigned_less [of d] unsigned_less [of c] by simp_all
  have "ucast c + (0 - ucast w - d) = (of_nat (unat c + 8589934592 - (unat w + unat d)) :: u32)"
    using lt by (simp add: of_nat_diff)
  then show ?thesis by (simp add: unat_of_nat)
qed

definition chk_exact :: "u16 \<Rightarrow> u16 \<Rightarrow> u32 \<Rightarrow> bool" where
  "chk_exact check len dst \<longleftrightarrow> unat len + unat dst \<le> unat check
     \<or> (unat len + unat dst \<le> unat check + 4294967296 \<and> 65536 \<le> fold16 ((unat check + 8589934592 - (unat len + unat dst)) mod 4294967296))"

lemma reply_header_ok:
  assumes "header_ok i" "ip_len i = 0" "ip_dest_addr i = 0"
  shows "header_ok (ip_reply i d w) \<longleftrightarrow> chk_exact (ip_check i) w d"
proof -
  let ?k = "osum (enc_ipv4 (i\<lparr>ip_dest_addr := 0, ip_len := 0, ip_check := 0\<rparr>))"
  have "i\<lparr>ip_check := 0\<rparr> = i\<lparr>ip_dest_addr := 0, ip_len := 0, ip_check := 0\<rparr>" using assms(2,3) by simp
  then have c: "unat (ip_check i) = 65535 - ones ?k" using assms(1) by (simp add: header_ok_def)
  have k: "ones ?k = 65535 - unat (ip_check i)" using c ones_le [of ?k] by simp
  have o: "osum (enc_ipv4 ((ip_reply i d w)\<lparr>ip_check := 0\<rparr>)) = ?k + unat w + fold16 (unat d)"
    using osum_reply [of w d i] by (simp add: ip_reply_def)
  have f: "unat (ip_check (ip_reply i d w)) = fold16 ((unat (ip_check i) + 8589934592 - (unat w + unat d)) mod 4294967296) mod 65536"
    by (simp add: ip_reply_def unat_chk_fold unat_check_sub del: diff_0 add_uminus_conv_diff)
  have "unat d < 4294967296" using unsigned_less [of d] by simp
  from fold_exact [OF unat_u16_le k unat_u16_le this refl refl] show ?thesis
    unfolding header_ok_def o f chk_exact_def .
qed

lemma echo_header_ok:
  assumes "header_ok i" "ip_len i = 0"
  shows "header_ok (ip_echo i w)"
proof -
  let ?C = "unat (ip_check i)" and ?k = "osum (enc_ipv4 (i\<lparr>ip_len := 0, ip_check := 0\<rparr>))"
  have "i\<lparr>ip_check := 0\<rparr> = i\<lparr>ip_len := 0, ip_check := 0\<rparr>" using assms(2) by simp
  then have c: "?C = 65535 - ones ?k" using assms(1) by (simp add: header_ok_def)
  have k: "ones ?k = 65535 - ?C" using c ones_le [of ?k] by simp
  have o: "osum (enc_ipv4 ((ip_echo i w)\<lparr>ip_check := 0\<rparr>)) = ?k + unat w + fold16 0"
    by (simp add: ip_echo_def enc_ipv4_def osum_word_bytes fold16_def)
  have f: "unat (ip_check (ip_echo i w)) = fold16 ((?C + 8589934592 - (unat w + 0)) mod 4294967296) mod 65536"
    using unat_check_sub [of "ip_check i" w 0] by (simp add: ip_echo_def unat_chk_fold)
  have "unat w \<le> ?C \<or> 65536 \<le> fold16 ((?C + 8589934592 - (unat w + 0)) mod 4294967296)"
  proof (rule disjCI)
    assume "\<not> 65536 \<le> fold16 ((?C + 8589934592 - (unat w + 0)) mod 4294967296)"
    show "unat w \<le> ?C"
    proof (rule ccontr)
      assume "\<not> unat w \<le> ?C"
      then have d: "0 < unat w - ?C" "unat w - ?C \<le> 65535" using unat_u16_le [of w] by linarith+
      have "?C + 8589934592 - (unat w + 0) = (65536 - (unat w - ?C) + 65535 * 65536) + 4294967296" using d by linarith
      then have "(?C + 8589934592 - (unat w + 0)) mod 4294967296 = 65536 - (unat w - ?C) + 65535 * 65536"
        using d by (simp only: mod_add_self2) simp
      moreover have "fold16 (65536 - (unat w - ?C) + 65535 * 65536) = 65536 - (unat w - ?C) + 65535"
        using fold16_split [of "65536 - (unat w - ?C)" 65535] d by simp
      ultimately show False using \<open>\<not> 65536 \<le> _\<close> d by simp
    qed
  qed
  then show ?thesis
    using fold_exact [OF unat_u16_le k unat_u16_le [of w], of 0, OF _ refl refl] unat_u16_le [of w]
    unfolding header_ok_def o f by auto
qed

section \<open>Replies on the wire\<close>

lemma frame_take: "length (mac_mac m) = 12 \<Longrightarrow> n = 46 + length chunk \<Longrightarrow> take n (frame_bytes m i c (chunk @ t)) = frame_bytes m i c chunk"
  by (simp add: frame_bytes_def length_enc_mac)

lemma reply_valid:
  assumes "length (mac_mac m) = 12" "36 \<le> unat (ntohs (ip_len i))" "unat (ntohs (bytes_word (take 2 (drop 2 chunk)))) = length chunk" "4 \<le> length chunk"
  shows "frame_valid (frame_bytes m i (cmn_reply c port tag chunk) chunk) \<longleftrightarrow> header_ok i"
proof -
  obtain s where s: "ip_checksum (enc_ipv4 (i\<lparr>ip_check := 0\<rparr>)) 0 20 = Some s" using ip_checksum_20 [of "enc_ipv4 (i\<lparr>ip_check := 0\<rparr>)"] by auto
  let ?c = "c\<lparr>cmn_dstp := port, cmn_tag := tag, cmn_check := 0\<rparr>"
  have "(cmn_reply c port tag chunk)\<lparr>cmn_check := 0\<rparr> = ?c" by (simp add: cmn_reply_def)
  moreover have "cmn_check (cmn_reply c port tag chunk) = NOT (crc_bytes (enc_cmn ?c @ chunk) 0xFFFFFFFF)" by (simp add: cmn_reply_def)
  moreover have "take (12 + length chunk) (enc_cmn ?c @ chunk) = enc_cmn ?c @ chunk" by simp
  ultimately show ?thesis
    using frame_valid_parts [OF assms(1) s assms(2,3,4)] header_ok_checksum [OF s] by simp
qed

lemma chunk_lens:
  "unat (ntohs (bytes_word (take 2 (drop 2 (init_ack_chunk a itag itsn ctag))))) = length (init_ack_chunk a itag itsn ctag)"
  "unat (ntohs (bytes_word (take 2 (drop 2 cookie_ack_chunk)))) = length cookie_ack_chunk"
  "length ck + 4 < 65536 \<Longrightarrow> unat (ntohs (bytes_word (take 2 (drop 2 (cookie_echo_chunk ck))))) = length (cookie_echo_chunk ck)"
  by (simp_all only: length_init_ack_chunk length_cookie_ack_chunk length_cookie_echo_chunk)
    (simp_all add: init_ack_chunk_def cookie_ack_chunk_def cookie_echo_chunk_def enc_fld_def unat_word_ariths unat_of_nat)

lemma reply_lens:
  "ip_len (ip_reply i d w) = w" "ip_len (ip_echo i w) = w"
  by (simp_all add: ip_reply_def ip_echo_def)

lemma bswap16_vals: "bswap16 0 = 0" "bswap16 2 = 0x200" "bswap16 112 = 0x7000"
  by code_simp+

lemma header_ok_prefilled: "header_ok (ip_prefilled indent src dst)"
proof -
  let ?i = "ip_prefilled indent src dst"
  obtain s where s: "ip_checksum (enc_ipv4 (?i\<lparr>ip_check := 0\<rparr>)) 0 20 = Some s" using ip_checksum_20 [of "enc_ipv4 (?i\<lparr>ip_check := 0\<rparr>)"] by auto
  then have "ip_check ?i = NOT (ucast s)" by (simp add: ip_prefilled_def Let_def)
  then show ?thesis using header_ok_checksum [OF s] by simp
qed

text \<open>
  C21. The COOKIE ECHO a client builds on a prefilled frame passes the receiver's check, for every cookie and every
  prefilled header with a right checksum: subtracting the length on 32 bits and folding once is exact. The
  chunk on the wire is the cookie received in the INIT ACK, byte for byte.
\<close>

theorem cookie_echo_reply_valid:
  assumes "prefilled heap p m i c t" "header_ok i" "ip_len i = 0" "rings_ready a p rest"
    "a_retry_ring a = Some (q, off)" "q \<noteq> p" "heap q = Some obj" "mread obj off (unat (a_id a)) = Some ck"
    "4 + unat (a_id a) \<le> length t" "unat (a_id a) + 50 < 65536"
  shows "\<exists>heap' a'. build_prefilled_mac_ip_sctp_cookie_echo_hdr heap a = Some (heap', a', 0)
    \<and> rb_items (a_tx_ring a') = rb_items (a_tx_ring a) @ [(p, of_nat (unat (a_id a) + 50))]
    \<and> frame_valid (take (unat (a_id a) + 50) (the (heap' p)))
    \<and> drop 50 (take (unat (a_id a) + 50) (the (heap' p))) = ck"
proof -
  let ?n = "unat (a_id a)"
  have m: "length (mac_mac m) = 12" using assms(1) by (simp add: prefilled_def)
  have ck: "length ck = ?n" using assms(8) by (auto simp: mread_def split: if_splits)
  let ?i = "ip_echo i (htons (of_nat (?n + 36)))" and ?ch = "cookie_echo_chunk ck" and ?c = "cmn_reply c (cmn_dstp c) (a_ver_tag a) (cookie_echo_chunk ck)"
  obtain tx pr where b: "build_prefilled_mac_ip_sctp_cookie_echo_hdr heap a
      = Some (heap(p \<mapsto> frame_bytes m ?i ?c (?ch @ drop (4 + ?n) t)), a\<lparr>a_tx_ring := tx, a_prefilled_ring := pr\<rparr>, 0)"
      "rings_after a (a\<lparr>a_tx_ring := tx, a_prefilled_ring := pr\<rparr>) p rest (of_nat (?n + 50))"
    using cookie_echo_built [OF assms(1,9,4,5,6,7,8) refl assms(10)] by blast
  have wire: "take (?n + 50) (frame_bytes m ?i ?c (?ch @ drop (4 + ?n) t)) = frame_bytes m ?i ?c ?ch"
    by (rule frame_take [OF m]) (simp add: ck)
  have "36 \<le> unat (ntohs (ip_len ?i))" using assms(10) by (simp add: reply_lens unat_word_ariths unat_of_nat)
  then have "frame_valid (frame_bytes m ?i ?c ?ch)"
    using reply_valid [OF m, of ?i ?ch] chunk_lens(3) [of ck] echo_header_ok [OF assms(2,3)] ck assms(10) by simp
  moreover have "drop 50 (frame_bytes m ?i ?c ?ch) = ck"
    by (simp add: frame_bytes_def length_enc_mac [OF m] cookie_echo_chunk_def)
  ultimately show ?thesis using b wire by (auto simp: rings_after_def)
qed

theorem cookie_echo_reply_valid_witness:
  "\<exists>heap' a'. build_prefilled_mac_ip_sctp_cookie_echo_hdr
      [7 \<mapsto> frame_bytes sample_mac (ip_prefilled 1 2 3) (sample_cmn 4 5) (replicate 80 0), 9 \<mapsto> replicate 56 1]
      (sample_assoc SCTP_INIT_ACK_RECEIVED 2 4 [7]) = Some (heap', a', 0)
    \<and> frame_valid (take 106 (the (heap' 7))) \<and> drop 50 (take 106 (the (heap' 7))) = replicate 56 1"
proof -
  let ?h = "[7 \<mapsto> frame_bytes sample_mac (ip_prefilled 1 2 3) (sample_cmn 4 5) (replicate 80 0), 9 \<mapsto> replicate 56 1] :: pheap"
  let ?a = "sample_assoc SCTP_INIT_ACK_RECEIVED 2 4 [7]"
  have p: "prefilled ?h 7 sample_mac (ip_prefilled 1 2 3) (sample_cmn 4 5) (replicate 80 0)" by (simp add: prefilled_def)
  have i: "ip_len (ip_prefilled 1 2 3) = 0" by (simp add: ip_prefilled_def Let_def bswap16_vals)
  have r: "a_retry_ring ?a = Some (9, 0)" and id: "a_id ?a = 56" by (simp_all add: sample_assoc_def)
  have c: "?h 9 = Some (replicate 56 1)" "mread (replicate 56 1) 0 (unat (a_id ?a)) = Some (replicate 56 1)" by (simp_all add: id mread_def)
  have rings: "rings_ready ?a 7 []" using sample_rings [of "[]"] by simp
  have l: "4 + unat (a_id ?a) \<le> length (replicate 80 (0 :: u8))" "unat (a_id ?a) + 50 < 65536" by (simp_all add: id)
  have n: "unat (a_id ?a) + 50 = 106" by (simp add: id)
  have "(9 :: ptr) \<noteq> 7" by simp
  from cookie_echo_reply_valid [OF p header_ok_prefilled i rings r this c l] show ?thesis unfolding n by blast
qed

text \<open>
  C22. An INIT ACK and a COOKIE ACK, whose builders also fill in the destination address, are queued on every
  prefilled frame, but they pass the receiver's check only when \<open>chk_exact\<close> holds: the 32-bit
  address is subtracted at once, and the borrow out of 32 bits is right only if folding the result loses
  its carry at the same time.
\<close>

theorem replies_checked:
  assumes "prefilled heap p m i c t" "80 \<le> length t" "header_ok i" "ip_len i = 0" "ip_dest_addr i = 0" "rings_ready a p rest" "rnd_inv rnd"
  shows "(\<exists>heap' rnd' a'. build_prefilled_mac_ip_sctp_init_ack_hdr g heap rnd a = Some (heap', rnd', a', 0)
      \<and> rb_items (a_tx_ring a') = rb_items (a_tx_ring a) @ [(p, 126)]
      \<and> (frame_valid (take 126 (the (heap' p))) \<longleftrightarrow> chk_exact (ip_check i) (htons 112) (a_dst_ip a)))
    \<and> (\<exists>heap' a'. build_prefilled_mac_ip_sctp_cookie_ack_hdr heap a = Some (heap', a', 0)
      \<and> rb_items (a_tx_ring a') = rb_items (a_tx_ring a) @ [(p, 50)]
      \<and> (frame_valid (take 50 (the (heap' p))) \<longleftrightarrow> chk_exact (ip_check i) (htons 36) (a_dst_ip a)))"
proof -
  have m: "length (mac_mac m) = 12" using assms(1) by (simp add: prefilled_def)
  have t: "4 \<le> length t" using assms(2) by simp
  have l: "36 \<le> unat (ntohs (ip_len (ip_reply i d (htons 112))))" "36 \<le> unat (ntohs (ip_len (ip_reply i d (htons 36))))" for d
    by (simp_all add: reply_lens)
  have "\<exists>heap' rnd' a'. build_prefilled_mac_ip_sctp_init_ack_hdr g heap rnd a = Some (heap', rnd', a', 0)
      \<and> rb_items (a_tx_ring a') = rb_items (a_tx_ring a) @ [(p, 126)]
      \<and> (frame_valid (take 126 (the (heap' p))) \<longleftrightarrow> chk_exact (ip_check i) (htons 112) (a_dst_ip a))"
    using init_ack_built [OF assms(1,2,6,7), of g] reply_valid [OF m l(1) chunk_lens(1)] reply_header_ok [OF assms(3-5)]
    by (auto simp: rings_after_def frame_take [OF m])
  moreover have "\<exists>heap' a'. build_prefilled_mac_ip_sctp_cookie_ack_hdr heap a = Some (heap', a', 0)
      \<and> rb_items (a_tx_ring a') = rb_items (a_tx_ring a) @ [(p, 50)]
      \<and> (frame_valid (take 50 (the (heap' p))) \<longleftrightarrow> chk_exact (ip_check i) (htons 36) (a_dst_ip a))"
    using cookie_ack_built [OF assms(1) t assms(6)] reply_valid [OF m l(2) chunk_lens(2)] reply_header_ok [OF assms(3-5)]
    by (auto simp: rings_after_def frame_take [OF m])
  ultimately show ?thesis by blast
qed

text \<open>With the destination 10.0.0.200 and this prefilled header the INIT ACK is refused by its receiver.\<close>

theorem replies_checked_witness:
  "\<exists>heap' rnd' a'. build_prefilled_mac_ip_sctp_init_ack_hdr (\<lambda>_. 0)
      [7 \<mapsto> frame_bytes sample_mac (ip_prefilled 1 0x0200000A 0) (sample_cmn 4 5) (replicate 80 0)] (random_start [])
      (sample_assoc SCTP_LISTEN 0x0200000A 4 [7]) = Some (heap', rnd', a', 0) \<and> \<not> frame_valid (take 126 (the (heap' 7)))"
proof -
  let ?i = "ip_prefilled 1 0x0200000A 0"
  let ?h = "[7 \<mapsto> frame_bytes sample_mac ?i (sample_cmn 4 5) (replicate 80 0)] :: pheap" and ?a = "sample_assoc SCTP_LISTEN 0x0200000A 4 [7]"
  have p: "prefilled ?h 7 sample_mac ?i (sample_cmn 4 5) (replicate 80 0)" by (simp add: prefilled_def)
  have "unat (ip_check ?i) = 30923"
    using header_ok_prefilled [of 1 "0x0200000A" 0]
    osum_word4 [of 0 "[]"]
    by (simp add: header_ok_def) (simp add: ip_prefilled_def Let_def enc_ipv4_def osum_word_bytes osum_word4 fold16_def ones_def bswap16_vals)
  then have "\<not> chk_exact (ip_check ?i) (htons 112) (a_dst_ip ?a)"
    by (simp add: chk_exact_def fold16_def sample_assoc_def bswap16_vals)
  moreover have i: "ip_len ?i = 0" "ip_dest_addr ?i = 0" by (simp_all add: ip_prefilled_def Let_def bswap16_vals)
  moreover have "rings_ready ?a 7 []" using sample_rings [of "[]"] by simp
  moreover have "80 \<le> length (replicate 80 (0 :: u8))" by simp
  ultimately show ?thesis using replies_checked [OF p _ header_ok_prefilled i _ rnd_inv_start, of ?a "[]" "\<lambda>_. 0" "[]"] by blast
qed

end
