(* ===== verification/Protocol.thy ===== *)
theory Protocol
  imports Replies
begin

text \<open>
  The association as a state machine driven by received packets, and two associations connected by a
  network: which states can be reached, what a listening server keeps, and how a handshake ends.
\<close>

section \<open>Received packets as steps\<close>

text \<open>A step is the reaction to any packet in any heap, with any random state and any outcome of allocations.\<close>

inductive received :: "sctp_association \<Rightarrow> sctp_association \<Rightarrow> bool" where
  received: "if_ip_sctp g alloc heap rnd r a = Some (heap', rnd', a', ok) \<Longrightarrow> received a a'"

text \<open>The states that can follow a state.\<close>

inductive status_step :: "SCTP_STATUS \<Rightarrow> SCTP_STATUS \<Rightarrow> bool" where
  stay: "status_step s s"
| init_acked: "status_step SCTP_INIT_SENT SCTP_INIT_ACK_RECEIVED"
| cookie_acked: "status_step SCTP_INIT_ACK_RECEIVED SCTP_ESTABLISHED"

inductive_cases status_step_from: "status_step s s'"

definition config :: "sctp_association \<Rightarrow> sctp_ulp_config \<times> frame_data option \<times> u32" where
  "config a = (a_ulp a, a_base a, a_mtu a)"

definition kept :: "sctp_association \<Rightarrow> sctp_association \<Rightarrow> bool" where
  "kept a a' \<longleftrightarrow> a_status a' = a_status a \<and> config a' = config a"

lemma cookie_echo_keeps: "ensures (build_prefilled_mac_ip_sctp_cookie_echo_hdr heap a) (\<lambda>(heap', a', r). kept a a')"
  unfolding build_prefilled_mac_ip_sctp_cookie_echo_hdr_def by (intro ensures_rules) (simp_all add: kept_def config_def)

lemma cookie_ack_keeps: "ensures (build_prefilled_mac_ip_sctp_cookie_ack_hdr heap a) (\<lambda>(heap', a', r). kept a a')"
  unfolding build_prefilled_mac_ip_sctp_cookie_ack_hdr_def by (intro ensures_rules) (simp_all add: kept_def config_def)

lemma threads_keep: "kept a (fst (prepare_sctp_threads alloc a))"
  by (auto simp: prepare_sctp_threads_def Let_def kept_def config_def)

lemma process_init_keeps: "ensures (sctp_process_sctp_init g heap rnd a pkt) (\<lambda>(heap', rnd', a', r). kept a a')"
  unfolding sctp_process_sctp_init_def by (intro ensures_rules) (simp_all add: kept_def config_def)

lemma process_init_ack_keeps:
  "ensures (sctp_process_sctp_init_ack heap a p pkt plen) (\<lambda>(heap', a', r). a_status a' \<in> {a_status a, SCTP_INIT_ACK_RECEIVED} \<and> config a' = config a)"
  unfolding sctp_process_sctp_init_ack_def
  by (intro ensures_rules) (auto simp: kept_def config_def dest!: ensuresD [OF cookie_echo_keeps])

lemma process_cookie_echo_keeps: "ensures (sctp_process_sctp_cookie_echo g alloc heap a pkt plen) (\<lambda>(heap', a', r). kept a a')"
  unfolding sctp_process_sctp_cookie_echo_def
  by (intro ensures_rules) (use threads_keep in \<open>auto simp: kept_def config_def dest!: ensuresD [OF cookie_ack_keeps]\<close>)

lemma process_cookie_ack_keeps:
  "sctp_process_sctp_cookie_ack alloc a plen = (a', r) \<Longrightarrow> a_status a' \<in> {a_status a, SCTP_ESTABLISHED} \<and> config a' = config a"
  using threads_keep [of "a\<lparr>a_status := SCTP_ESTABLISHED\<rparr>" alloc]
  by (auto simp: sctp_process_sctp_cookie_ack_def kept_def config_def split: if_splits)

lemma if_ip_sctp_keeps:
  "ensures (if_ip_sctp g alloc heap rnd r a) (\<lambda>(heap', rnd', a', ok). status_step (a_status a) (a_status a') \<and> config a' = config a
    \<and> (a_status a \<notin> {SCTP_LISTEN, SCTP_INIT_SENT, SCTP_INIT_ACK_RECEIVED} \<longrightarrow> a' = a \<and> heap' = heap \<and> \<not> ok))"
  unfolding if_ip_sctp_def
  by (intro ensures_rules)
    (auto simp: kept_def intro: status_step.intros dest!: process_cookie_ack_keeps ensuresD [OF process_init_keeps] ensuresD [OF process_init_ack_keeps]
      ensuresD [OF process_cookie_echo_keeps])

lemma received_keeps:
  "received a a' \<Longrightarrow> status_step (a_status a) (a_status a') \<and> config a' = config a
    \<and> (a_status a \<notin> {SCTP_LISTEN, SCTP_INIT_SENT, SCTP_INIT_ACK_RECEIVED} \<longrightarrow> a' = a)"
  by (auto elim!: received.cases dest!: ensuresD [OF if_ip_sctp_keeps])

text \<open>All states that packets can lead to.\<close>

fun later :: "SCTP_STATUS \<Rightarrow> SCTP_STATUS list" where
  "later SCTP_INIT_SENT = [SCTP_INIT_SENT, SCTP_INIT_ACK_RECEIVED, SCTP_ESTABLISHED]"
| "later SCTP_INIT_ACK_RECEIVED = [SCTP_INIT_ACK_RECEIVED, SCTP_ESTABLISHED]"
| "later s = [s]"

lemma later_refl: "s \<in> set (later s)"
  by (cases s) simp_all

lemma later_step: "s' \<in> set (later s) \<Longrightarrow> status_step s' s'' \<Longrightarrow> s'' \<in> set (later s)"
  by (cases s) (auto elim: status_step_from)

text \<open>
  C3. Whatever packets an association receives, its state moves only from INIT sent to INIT ACK received to
  established. A listening server keeps listening: it never becomes established, although the
  handshake completed. In every other state, among them COOKIE WAIT, in which the client program puts its
  association, every packet is ignored. The configuration never changes.
\<close>

theorem association_states:
  assumes "received\<^sup>*\<^sup>* a a'"
  shows "a_status a' \<in> set (later (a_status a)) \<and> config a' = config a
    \<and> (a_status a \<notin> {SCTP_LISTEN, SCTP_INIT_SENT, SCTP_INIT_ACK_RECEIVED} \<longrightarrow> a' = a)"
  using assms
proof (induction rule: rtranclp_induct)
  case (step b c)
  then show ?case using later_step [of "a_status b" "a_status a"] received_keeps [OF step.hyps(2)] by auto
qed (simp add: later_refl)

theorem association_states_witness:
  "\<exists>a'. received\<^sup>*\<^sup>* (sample_assoc SCTP_INIT_ACK_RECEIVED 2 4 []) a' \<and> a_status a' = SCTP_ESTABLISHED
    \<and> config a' = config (sample_assoc SCTP_INIT_ACK_RECEIVED 2 4 [])"
proof -
  let ?a = "sample_assoc SCTP_INIT_ACK_RECEIVED 2 4 []"
  let ?f = "\<lparr>fld_type = SCTP_COOKIE_ACK, fld_flags = 0, fld_len = htons 4\<rparr>" and ?i = "(ip_prefilled 1 2 3)\<lparr>ip_dest_addr := 2\<rparr>"
  let ?h = "[9 \<mapsto> frame_bytes sample_mac ?i (sample_cmn 5 4) (enc_fld ?f @ [])] :: pheap"
  let ?b = "fst (prepare_sctp_threads (\<lambda>_. True) (?a\<lparr>a_status := SCTP_ESTABLISHED\<rparr>))"
  have ad: "addressed ?a ?i (sample_cmn 5 4)"
    by (simp add: addressed_def sample_assoc_def sample_cmn_def sample_ulp_def sample_data_def)
  have "if_ip_sctp (\<lambda>_. 0) (\<lambda>_. True) ?h (random_start []) 9 ?a = Some (?h, random_start [], ?b, True)"
    by (rule cookie_ack_handled [of _ _ _ _ _ ?f "[]", OF _ sample_mac_length _ ad]) (simp_all add: sample_assoc_def)
  then have "received\<^sup>*\<^sup>* ?a ?b" by (blast intro: received)
  moreover from association_states [OF this] have "config ?b = config ?a" by blast
  moreover have "a_status ?b = SCTP_ESTABLISHED" using threads_keep [of "?a\<lparr>a_status := SCTP_ESTABLISHED\<rparr>"] by (simp add: kept_def)
  ultimately show ?thesis by blast
qed

section \<open>Hosts on a network\<close>

text \<open>
  A host is its packet heap, its random numbers and one association. A frame arrives at an address \<open>r\<close> of the
  heap; what a host sends is the last packet of its transmit ring, cut to the queued length.
\<close>

type_synonym host = "pheap \<times> random_state \<times> sctp_association"

definition deliver :: "(nat \<Rightarrow> u8) \<Rightarrow> (nat \<Rightarrow> bool) \<Rightarrow> ptr \<Rightarrow> host \<Rightarrow> bytes \<Rightarrow> host option" where
  "deliver g alloc r h frame =
     (case h of (heap, rnd, a) \<Rightarrow>
        do { (heap', rnd', a', ok) \<leftarrow> if_ip_sctp g alloc (heap(r \<mapsto> frame)) rnd r a;
             if ok then Some (heap', rnd', a') else None })"

definition sent :: "host \<Rightarrow> bytes option" where
  "sent h = (case h of (heap, rnd, a) \<Rightarrow>
     (let items = rb_items (a_tx_ring a) in
      if items = [] then None else map_option (take (unat (snd (last items)))) (heap (fst (last items)))))"

definition handshake :: "(nat \<Rightarrow> u8) \<Rightarrow> (nat \<Rightarrow> bool) \<Rightarrow> ptr \<Rightarrow> host \<Rightarrow> host \<Rightarrow> bytes \<Rightarrow> (host \<times> host) option" where
  "handshake g alloc r server client ini =
     do { server \<leftarrow> deliver g alloc r server ini;
          init_ack \<leftarrow> sent server;
          client \<leftarrow> deliver g alloc r client init_ack;
          cookie_echo \<leftarrow> sent client;
          server \<leftarrow> deliver g alloc r server cookie_echo;
          cookie_ack \<leftarrow> sent server;
          client \<leftarrow> deliver g alloc r client cookie_ack;
          Some (server, client) }"

lemma deliver_ok:
  "if_ip_sctp g alloc (heap(r \<mapsto> frame)) rnd r a = Some (heap', rnd', a', True) \<Longrightarrow> deliver g alloc r (heap, rnd, a) frame = Some (heap', rnd', a')"
  by (simp add: deliver_def)

lemma sent_after:
  "rings_after a a' p rest l \<Longrightarrow> heap p = Some mem \<Longrightarrow> sent (heap, rnd, a') = Some (take (unat l) mem)"
  by (simp add: sent_def rings_after_def)

lemma prefilled_other: "prefilled heap p m i c t \<Longrightarrow> r \<noteq> p \<Longrightarrow> prefilled (heap(r \<mapsto> x)) p m i c t"
  by (simp add: prefilled_def)

lemma prefilled_frame: "length (mac_mac m) = 12 \<Longrightarrow> p \<noteq> NULL \<Longrightarrow> prefilled (heap(p \<mapsto> frame_bytes m i c t)) p m i c t"
  by (simp add: prefilled_def)

text \<open>The server's first step.\<close>

lemma server_init:
  assumes "addressed s i0 c0" "a_status s = SCTP_LISTEN" "length (mac_mac m0) = 12" "fld_type f0 = SCTP_INIT" "r \<noteq> NULL" "r \<noteq> p"
    "prefilled hs p m i c t" "80 \<le> length t" "rings_ready s p rest" "rnd_inv rs"
  shows "\<exists>itag itsn ctag rs' tx pr. deliver g alloc r (hs, rs, s) (frame_bytes m0 i0 c0 (enc_fld f0 @ enc_init ini))
      = Some (hs(r \<mapsto> frame_bytes m0 i0 c0 (enc_fld f0 @ enc_init ini), p \<mapsto> init_ack_frame m i c (peer s i0 c0 ini) itag itsn ctag (drop 80 t)), rs',
          s\<lparr>a_tx_ring := tx, a_prefilled_ring := pr\<rparr>)
    \<and> rings_after s (s\<lparr>a_tx_ring := tx, a_prefilled_ring := pr\<rparr>) p rest 126 \<and> rnd_inv rs'
    \<and> init_ack_draws rs = Some (itag, itsn, ctag, rs')"
proof -
  have "(hs(r \<mapsto> frame_bytes m0 i0 c0 (enc_fld f0 @ enc_init ini))) r = Some (frame_bytes m0 i0 c0 (enc_fld f0 @ enc_init ini @ []))" by simp
  from init_handled [OF this assms(3,5,1,4,2) prefilled_other [OF assms(7,6)] assms(8-10), of g alloc] show ?thesis
    by (blast intro: deliver_ok)
qed

lemma init_ack_frame_wire:
  "length (mac_mac m) = 12 \<Longrightarrow> take 126 (init_ack_frame m i c a itag itsn ctag t) = init_ack_frame m i c a itag itsn ctag []"
  unfolding init_ack_frame_def using frame_take [of m 126 "init_ack_chunk a itag itsn ctag"] by simp

text \<open>The cookie with its digest, as the client finds it in the INIT ACK.\<close>

definition sealed :: "cookie \<Rightarrow> bytes" where
  "sealed ck = enc_cookie ck @ hmac_spec cookie_key (enc_cookie ck)"

lemma length_sealed [simp]: "length (sealed ck) = 56"
  by (simp add: sealed_def)

text \<open>The client's step on an INIT ACK.\<close>

lemma client_init_ack:
  assumes "addressed cl (ip_reply i (a_dst_ip a) (htons 112)) (cmn_reply c (ucast (a_dst_port a)) (a_ver_tag a) (init_ack_chunk a itag itsn ctag))"
    "a_status cl = SCTP_INIT_SENT" "length (mac_mac m) = 12" "r \<noteq> NULL" "r \<noteq> q"
    "prefilled hc q m' i' c' t'" "60 \<le> length t'" "rings_ready cl q rest"
  shows "\<exists>tx pr. deliver g alloc r (hc, rc, cl) (init_ack_frame m i c a itag itsn ctag [])
      = Some (hc(r \<mapsto> init_ack_frame m i c a itag itsn ctag [], q \<mapsto> cookie_echo_frame m' i' c' itag (sealed (cookie_for a ctag)) (drop 60 t')), rc,
          (after_init_ack cl \<lparr>init_tag = itag, init_a_rwnd = htonl (u_src_arwnd (a_ulp a)), init_os = htons (u_src_os (a_ulp a)),
                 init_mis = htons (u_src_mis (a_ulp a)), init_tsn = itsn\<rparr> 56 r)\<lparr>a_tx_ring := tx, a_prefilled_ring := pr\<rparr>)
    \<and> rings_after cl (cl\<lparr>a_tx_ring := tx, a_prefilled_ring := pr\<rparr>) q rest 106"
proof -
  let ?ini = "\<lparr>init_tag = itag, init_a_rwnd = htonl (u_src_arwnd (a_ulp a)), init_os = htons (u_src_os (a_ulp a)),
                 init_mis = htons (u_src_mis (a_ulp a)), init_tsn = itsn\<rparr>"
  let ?f = "\<lparr>fld_type = SCTP_INIT_ACK, fld_flags = 0, fld_len = htons 80\<rparr>" and ?par = "enc_par \<lparr>par_type = htons 7, par_len = htons 60\<rparr>"
  let ?i = "ip_reply i (a_dst_ip a) (htons 112)" and ?c = "cmn_reply c (ucast (a_dst_port a)) (a_ver_tag a) (init_ack_chunk a itag itsn ctag)"
  have ch: "init_ack_chunk a itag itsn ctag = enc_fld ?f @ enc_init ?ini @ ?par @ sealed (cookie_for a ctag) @ []"
    by (simp add: init_ack_chunk_def sealed_def)
  have fr: "init_ack_frame m i c a itag itsn ctag [] = frame_bytes m ?i ?c (enc_fld ?f @ enc_init ?ini @ ?par @ sealed (cookie_for a ctag) @ [])"
    unfolding init_ack_frame_def by (rule arg_cong [where f = "frame_bytes m ?i ?c"]) (use ch in simp)
  have h: "(hc(r \<mapsto> init_ack_frame m i c a itag itsn ctag [])) r = Some (frame_bytes m ?i ?c (enc_fld ?f @ enc_init ?ini @ ?par @ sealed (cookie_for a ctag) @ []))"
    by (simp add: fr)
  have t: "4 + 56 \<le> length t'" using assms(7) by simp
  have num: "fld_type ?f = SCTP_INIT_ACK" "unat (ntohs (fld_len ?f)) = 24 + 56" "length ?par = 4" "(0 :: nat) < 56" "(56 :: nat) + 50 < 65536" by simp_all
  obtain tx pr where b: "if_ip_sctp g alloc (hc(r \<mapsto> init_ack_frame m i c a itag itsn ctag [])) rc r cl
      = Some (hc(r \<mapsto> init_ack_frame m i c a itag itsn ctag [], q \<mapsto> cookie_echo_frame m' i' c' (init_tag ?ini) (sealed (cookie_for a ctag)) (drop (4 + 56) t')), rc,
          (after_init_ack cl ?ini 56 r)\<lparr>a_tx_ring := tx, a_prefilled_ring := pr\<rparr>, True)"
      "rings_after cl ((after_init_ack cl ?ini 56 r)\<lparr>a_tx_ring := tx, a_prefilled_ring := pr\<rparr>) q rest (of_nat (56 + 50))"
    using init_ack_handled [OF h assms(3,4,1) num(1) assms(2) num(2,4,3) length_sealed prefilled_other [OF assms(6,5)] t assms(8) num(5) assms(5), of g alloc rc]
    by blast
  then show ?thesis using deliver_ok [OF b(1)] by (intro exI [of _ tx] exI [of _ pr]) (simp add: rings_after_def)
qed

text \<open>The server's step on the COOKIE ECHO, with a cookie it has sealed.\<close>

lemma server_cookie_echo:
  assumes "addressed s (ip_echo i' (htons 92)) (cmn_reply c' (cmn_dstp c') tag (cookie_echo_chunk (sealed ck)))" "a_status s = SCTP_LISTEN"
    "length (mac_mac m') = 12" "r \<noteq> NULL" "r \<noteq> p" "prefilled hs p m i c t" "4 \<le> length t" "rings_ready s p rest"
  shows "\<exists>tx pr. deliver g alloc r (hs, rs, s) (cookie_echo_frame m' i' c' tag (sealed ck) [])
      = Some (hs(r \<mapsto> cookie_echo_frame m' i' c' tag (sealed ck) [], p \<mapsto> cookie_ack_frame m i c ck (drop 4 t)), rs,
          fst (prepare_sctp_threads alloc ((from_cookie s ck)\<lparr>a_tx_ring := tx, a_prefilled_ring := pr\<rparr>)))
    \<and> rings_after s (s\<lparr>a_tx_ring := tx, a_prefilled_ring := pr\<rparr>) p rest 50"
proof -
  let ?f = "\<lparr>fld_type = SCTP_COOKIE_ECHO, fld_flags = 0, fld_len = htons 60\<rparr>"
  let ?i = "ip_echo i' (htons 92)" and ?c = "cmn_reply c' (cmn_dstp c') tag (cookie_echo_chunk (sealed ck))"
  have ch: "cookie_echo_chunk (sealed ck) = enc_fld ?f @ enc_cookie ck @ hmac_spec cookie_key (enc_cookie ck) @ []"
    unfolding cookie_echo_chunk_def length_sealed by (simp add: sealed_def)
  have "cookie_echo_frame m' i' c' tag (sealed ck) [] = frame_bytes m' ?i ?c (cookie_echo_chunk (sealed ck))"
    unfolding cookie_echo_frame_def length_sealed by simp
  then have h: "(hs(r \<mapsto> cookie_echo_frame m' i' c' tag (sealed ck) [])) r
      = Some (frame_bytes m' ?i ?c (enc_fld ?f @ enc_cookie ck @ hmac_spec cookie_key (enc_cookie ck) @ []))"
    using arg_cong [OF ch, of "frame_bytes m' ?i ?c"] by simp
  have num: "fld_type ?f = SCTP_COOKIE_ECHO" "60 \<le> unat (ntohs (fld_len ?f))" "length (enc_cookie ck) = 40"
      "length (hmac_spec cookie_key (enc_cookie ck)) = 16" "dec_cookie (enc_cookie ck) = ck" by (simp_all add: cookie.dec_enc)
  show ?thesis
    using cookie_echo_handled(1) [OF h assms(3,4,1) num(1) assms(2) num(3,4,2) refl prefilled_other [OF assms(6,5)] assms(7,8), of g alloc rs]
    unfolding num(5) by (blast intro: deliver_ok)
qed

lemma cookie_ack_frame_wire:
  "length (mac_mac m) = 12 \<Longrightarrow> take 50 (cookie_ack_frame m i c ck t) = cookie_ack_frame m i c ck []"
  unfolding cookie_ack_frame_def using frame_take [of m 50 cookie_ack_chunk] by simp

lemma cookie_echo_frame_wire:
  "length (mac_mac m) = 12 \<Longrightarrow> take 106 (cookie_echo_frame m i c tag (sealed ck) t) = cookie_echo_frame m i c tag (sealed ck) []"
  unfolding cookie_echo_frame_def using frame_take [of m 106 "cookie_echo_chunk (sealed ck)"] by simp

text \<open>The client's last step.\<close>

lemma client_cookie_ack:
  assumes "addressed cl (ip_reply i (ck_src_ip ck) (htons 36)) (cmn_reply c (ucast (ck_src_port ck)) (ck_ver_tag ck) cookie_ack_chunk)"
    "a_status cl = SCTP_INIT_ACK_RECEIVED" "length (mac_mac m) = 12" "r \<noteq> NULL"
  shows "deliver g alloc r (hc, rc, cl) (cookie_ack_frame m i c ck [])
    = Some (hc(r \<mapsto> cookie_ack_frame m i c ck []), rc, fst (prepare_sctp_threads alloc (cl\<lparr>a_status := SCTP_ESTABLISHED\<rparr>)))"
proof (rule deliver_ok, rule cookie_ack_handled [OF _ assms(3,4,1)])
  let ?f = "\<lparr>fld_type = SCTP_COOKIE_ACK, fld_flags = 0, fld_len = htons 4\<rparr>"
  show "(hc(r \<mapsto> cookie_ack_frame m i c ck [])) r = Some (frame_bytes m (ip_reply i (ck_src_ip ck) (htons 36))
      (cmn_reply c (ucast (ck_src_port ck)) (ck_ver_tag ck) cookie_ack_chunk) (enc_fld ?f @ []))"
    by (simp add: cookie_ack_frame_def cookie_ack_chunk_def)
qed (use assms(2) in simp_all)

lemma reply_addresses:
  "ip_dest_addr (ip_reply i d w) = d" "cmn_dstp (cmn_reply c port tag ch) = port" "ip_dest_addr (ip_echo i w) = ip_dest_addr i"
  by (simp_all add: ip_reply_def cmn_reply_def ip_echo_def)

lemma addressed_cong:
  "ip_dest_addr i = ip_dest_addr i' \<Longrightarrow> cmn_dstp c = cmn_dstp c' \<Longrightarrow> a_base a = a_base a' \<Longrightarrow> a_ulp a = a_ulp a' \<Longrightarrow> addressed a i c = addressed a' i' c'"
  by (simp add: addressed_def)

lemma ready_again:
  "rings_ready s p [] \<Longrightarrow> Suc (rb_count (a_tx_ring s)) < rb_cap (a_tx_ring s)
    \<Longrightarrow> rings_after s s' p [] l \<Longrightarrow> rings_ready s' p []"
  by (simp add: rings_ready_def rings_after_def flip: length_rb_items)

lemma both_steps:
  assumes "deliver g alloc r server ini = Some server1" "sent server1 = Some f1" "deliver g alloc r client f1 = Some client1" "sent client1 = Some f2"
    "deliver g alloc r server1 f2 = Some server2" "sent server2 = Some f3" "deliver g alloc r client1 f3 = Some client2"
  shows "handshake g alloc r server client ini = Some (server2, client2)"
  using assms by (simp add: handshake_def)

lemma tx_of_threads: "a_tx_ring (fst (prepare_sctp_threads alloc a)) = a_tx_ring a"
  by (auto simp: prepare_sctp_threads_def Let_def)

lemma sent_same_tx: "a_tx_ring a = a_tx_ring a' \<Longrightarrow> sent (heap, rnd, a) = sent (heap, rnd', a')"
  by (simp add: sent_def)

text \<open>The first two messages: what the hosts hold and have sent after the INIT ACK was answered.\<close>

definition peer_init :: "sctp_association \<Rightarrow> u32 \<Rightarrow> u32 \<Rightarrow> sctp_init_hdr" where
  "peer_init a itag itsn = \<lparr>init_tag = itag, init_a_rwnd = htonl (u_src_arwnd (a_ulp a)), init_os = htons (u_src_os (a_ulp a)),
     init_mis = htons (u_src_mis (a_ulp a)), init_tsn = itsn\<rparr>"

lemma handshake_opening:
  assumes server: "addressed s i0 c0" "a_status s = SCTP_LISTEN" "prefilled hs p m i c t" "80 \<le> length t" "rings_ready s p []" "rnd_inv rs"
    and ini: "length (mac_mac m0) = 12" "fld_type f0 = SCTP_INIT"
    and client: "a_status cl = SCTP_INIT_SENT" "prefilled hc q m' i' c' t'" "60 \<le> length t'" "rings_ready cl q rest"
      "a_base cl = Some b" "fr_state b \<noteq> None" "u_src_ip (a_ulp cl) = ip_src_addr i0" "u_src_port (a_ulp cl) = ucast (ntohs (cmn_srcp c0))"
    and r: "r \<noteq> NULL" "r \<noteq> p" "r \<noteq> q" and P: "P = peer s i0 c0 ini0"
  obtains itag itsn ctag hs1 rs' s1 tx1 pr1 hc1 c1 tx2 pr2 where
    "deliver g alloc r (hs, rs, s) (frame_bytes m0 i0 c0 (enc_fld f0 @ enc_init ini0)) = Some (hs1, rs', s1)"
    "s1 = s\<lparr>a_tx_ring := tx1, a_prefilled_ring := pr1\<rparr>" "rings_after s s1 p [] 126" "hs1 p = Some (init_ack_frame m i c P itag itsn ctag (drop 80 t))"
    "sent (hs1, rs', s1) = Some (init_ack_frame m i c P itag itsn ctag [])"
    "deliver g alloc r (hc, rc, cl) (init_ack_frame m i c P itag itsn ctag []) = Some (hc1, rc, c1)"
    "c1 = (after_init_ack cl (peer_init P itag itsn) 56 r)\<lparr>a_tx_ring := tx2, a_prefilled_ring := pr2\<rparr>"
    "sent (hc1, rc, c1) = Some (cookie_echo_frame m' i' c' itag (sealed (cookie_for P ctag)) [])"
    "init_ack_draws rs = Some (itag, itsn, ctag, rs')"
proof -
  let ?F0 = "frame_bytes m0 i0 c0 (enc_fld f0 @ enc_init ini0)"
  have m: "length (mac_mac m) = 12" "length (mac_mac m') = 12" using server(3) client(2) by (simp_all add: prefilled_def)
  obtain itag itsn ctag rs' tx1 pr1 where s1: "deliver g alloc r (hs, rs, s) ?F0
        = Some (hs(r \<mapsto> ?F0, p \<mapsto> init_ack_frame m i c P itag itsn ctag (drop 80 t)), rs', s\<lparr>a_tx_ring := tx1, a_prefilled_ring := pr1\<rparr>)"
      "rings_after s (s\<lparr>a_tx_ring := tx1, a_prefilled_ring := pr1\<rparr>) p [] 126"
      "init_ack_draws rs = Some (itag, itsn, ctag, rs')"
    using server_init [OF server(1,2) ini r(1,2) server(3-6), of g alloc ini0] unfolding P by blast
  let ?h1 = "hs(r \<mapsto> ?F0, p \<mapsto> init_ack_frame m i c P itag itsn ctag (drop 80 t))" and ?s1 = "s\<lparr>a_tx_ring := tx1, a_prefilled_ring := pr1\<rparr>"
  have f1: "sent (?h1, rs', ?s1) = Some (init_ack_frame m i c P itag itsn ctag [])"
    using sent_after [OF s1(2), of ?h1] init_ack_frame_wire [OF m(1)] by simp
  have "a_dst_ip P = ip_src_addr i0" "a_dst_port P = ucast (cmn_srcp c0)" by (simp_all add: P peer_def)
  then have "addressed cl (ip_reply i (a_dst_ip P) (htons 112)) (cmn_reply c (ucast (a_dst_port P)) (a_ver_tag P) (init_ack_chunk P itag itsn ctag))"
    using client(5-8) by (simp add: addressed_def reply_addresses)
  note d = client_init_ack [OF this client(1) m(1) r(1,3) client(2-4), of g alloc rc, folded peer_init_def]
  then obtain tx2 pr2 where c1: "deliver g alloc r (hc, rc, cl) (init_ack_frame m i c P itag itsn ctag [])
      = Some (hc(r \<mapsto> init_ack_frame m i c P itag itsn ctag [], q \<mapsto> cookie_echo_frame m' i' c' itag (sealed (cookie_for P ctag)) (drop 60 t')), rc,
          (after_init_ack cl (peer_init P itag itsn) 56 r)\<lparr>a_tx_ring := tx2, a_prefilled_ring := pr2\<rparr>)"
      "rings_after cl (cl\<lparr>a_tx_ring := tx2, a_prefilled_ring := pr2\<rparr>) q rest 106" by blast
  let ?hc1 = "hc(r \<mapsto> init_ack_frame m i c P itag itsn ctag [], q \<mapsto> cookie_echo_frame m' i' c' itag (sealed (cookie_for P ctag)) (drop 60 t'))"
    and ?c1 = "(after_init_ack cl (peer_init P itag itsn) 56 r)\<lparr>a_tx_ring := tx2, a_prefilled_ring := pr2\<rparr>"
  have "sent (?hc1, rc, ?c1) = sent (?hc1, rc, cl\<lparr>a_tx_ring := tx2, a_prefilled_ring := pr2\<rparr>)" by (rule sent_same_tx) simp
  then have f2: "sent (?hc1, rc, ?c1) = Some (cookie_echo_frame m' i' c' itag (sealed (cookie_for P ctag)) [])"
    using sent_after [OF c1(2), of ?hc1] cookie_echo_frame_wire [OF m(2)] by simp
  show thesis by (rule that [OF s1(1) refl s1(2) _ f1 c1(1) refl f2 s1(3)]) simp
qed

text \<open>What an INIT ACK carries, read back from its bytes the way the client and the server read it.\<close>

lemma init_ack_frame_reads:
  assumes "length (mac_mac m) = 12"
  shows "load dec_init 16 (init_ack_frame m i c a itag itsn ctag t) 50 = Some (peer_init a itag itsn)"
    and "load dec_cookie 40 (init_ack_frame m i c a itag itsn ctag t) 70 = Some (cookie_for a ctag)"
proof -
  let ?f = "\<lparr>fld_type = SCTP_INIT_ACK, fld_flags = 0, fld_len = htons 80\<rparr>" and ?par = "enc_par \<lparr>par_type = htons 7, par_len = htons 60\<rparr>"
  let ?rest = "hmac_spec cookie_key (enc_cookie (cookie_for a ctag)) @ t"
  have ch: "init_ack_chunk a itag itsn ctag @ t = enc_fld ?f @ enc_init (peer_init a itag itsn) @ ?par @ enc_cookie (cookie_for a ctag) @ ?rest"
    by (simp add: init_ack_chunk_def peer_init_def)
  show "load dec_init 16 (init_ack_frame m i c a itag itsn ctag t) 50 = Some (peer_init a itag itsn)"
    unfolding init_ack_frame_def ch by (rule frame_load(2) [OF assms])
  have "mread (enc_fld ?f @ enc_init (peer_init a itag itsn) @ ?par @ enc_cookie (cookie_for a ctag) @ ?rest) 24 40 = Some (enc_cookie (cookie_for a ctag))"
    using mread_parts(1) [of 40 "enc_cookie (cookie_for a ctag)" 24 "enc_fld ?f @ enc_init (peer_init a itag itsn) @ ?par" ?rest] by simp
  then show "load dec_cookie 40 (init_ack_frame m i c a itag itsn ctag t) 70 = Some (cookie_for a ctag)"
    unfolding init_ack_frame_def ch load_def using frame_read_chunk [OF assms, of _ _ _ 24 40] by (simp add: cookie.dec_enc)
qed

text \<open>
  C1. The four-way handshake completes. A server that listens, with one prefilled packet, answers the client's
  INIT without storing anything about the client: only its rings change. The INIT ACK \<open>ack\<close> it sends carries, at byte 50, the INIT part \<open>ia\<close>
  with a tag and a TSN drawn one after the other from the buffer of random numbers, and, at byte 70, the cookie \<open>ck\<close> whose tag is a third number,
  drawn from the system. The client, in state INIT sent, ends established with the tag, the TSN, the window and the stream numbers
  it reads in \<open>ack\<close>, which are the server's. Its COOKIE ECHO, built on its own prefilled packet,
  brings all the values of the INIT back to the server, which accepts them. The server itself keeps
  listening, and its own tag is the third number, the tag in the cookie, not the tag announced to the client: the
  client's packets carry a verification tag the server does not hold.
\<close>

theorem four_way_handshake:
  assumes server: "addressed s i0 c0" "a_status s = SCTP_LISTEN" "prefilled hs p m i c t" "80 \<le> length t" "rings_ready s p []"
      "Suc (rb_count (a_tx_ring s)) < rb_cap (a_tx_ring s)" "rnd_inv rs"
    and ini: "length (mac_mac m0) = 12" "fld_type f0 = SCTP_INIT"
    and client: "a_status cl = SCTP_INIT_SENT" "prefilled hc q m' i' c' t'" "60 \<le> length t'" "rings_ready cl q rest" "addressed s i' c'"
      "a_base cl = Some b" "fr_state b \<noteq> None" "u_src_ip (a_ulp cl) = ip_src_addr i0" "u_src_port (a_ulp cl) = ucast (ntohs (cmn_srcp c0))"
    and r: "r \<noteq> NULL" "r \<noteq> p" "r \<noteq> q"
  shows "\<exists>itag itsn ctag hs1 rs' s1 ack ia ck hs' s' hc' cl'.
      deliver g alloc r (hs, rs, s) (frame_bytes m0 i0 c0 (enc_fld f0 @ enc_init ini0)) = Some (hs1, rs', s1)
    \<and> (\<exists>tx pr. s1 = s\<lparr>a_tx_ring := tx, a_prefilled_ring := pr\<rparr>) \<and> sent (hs1, rs', s1) = Some ack
    \<and> init_ack_draws rs = Some (itag, itsn, ctag, rs')
    \<and> load dec_init 16 ack 50 = Some ia \<and> (init_tag ia, init_tsn ia) = (itag, itsn)
    \<and> load dec_cookie 40 ack 70 = Some ck \<and> ck_init_tag ck = ctag
    \<and> handshake g alloc r (hs, rs, s) (hc, rc, cl) (frame_bytes m0 i0 c0 (enc_fld f0 @ enc_init ini0)) = Some ((hs', rs', s'), (hc', rc, cl'))
    \<and> a_status cl' = SCTP_ESTABLISHED \<and> a_ver_tag cl' = init_tag ia \<and> a_tsn cl' = init_tsn ia
    \<and> (a_a_rwnd cl', a_os cl', a_mis cl') = (init_a_rwnd ia, init_os ia, init_mis ia)
    \<and> (a_a_rwnd cl', a_os cl', a_mis cl') = (htonl (u_src_arwnd (a_ulp s)), htons (u_src_os (a_ulp s)), htons (u_src_mis (a_ulp s)))
    \<and> a_status s' = SCTP_LISTEN \<and> a_init_tag s' = ck_init_tag ck
    \<and> (a_ver_tag s', a_a_rwnd s', a_os s', a_mis s', a_dst_tsn s')
      = (init_tag ini0, init_a_rwnd ini0, init_os ini0, init_mis ini0, init_tsn ini0)
    \<and> (a_dst_ip s', a_dst_port s') = (ip_src_addr i0, ucast (cmn_srcp c0))"
proof -
  let ?P = "peer s i0 c0 ini0"
  have m: "length (mac_mac m) = 12" "p \<noteq> NULL" "length (mac_mac m') = 12" using server(3) client(2) by (simp_all add: prefilled_def)
  obtain itag itsn ctag hs1 rs' s1 tx1 pr1 hc1 c1 tx2 pr2 where
    s1: "deliver g alloc r (hs, rs, s) (frame_bytes m0 i0 c0 (enc_fld f0 @ enc_init ini0)) = Some (hs1, rs', s1)"
      "s1 = s\<lparr>a_tx_ring := tx1, a_prefilled_ring := pr1\<rparr>" "rings_after s s1 p [] 126" "hs1 p = Some (init_ack_frame m i c ?P itag itsn ctag (drop 80 t))"
      "sent (hs1, rs', s1) = Some (init_ack_frame m i c ?P itag itsn ctag [])"
    and c1: "deliver g alloc r (hc, rc, cl) (init_ack_frame m i c ?P itag itsn ctag []) = Some (hc1, rc, c1)"
      "c1 = (after_init_ack cl (peer_init ?P itag itsn) 56 r)\<lparr>a_tx_ring := tx2, a_prefilled_ring := pr2\<rparr>"
      "sent (hc1, rc, c1) = Some (cookie_echo_frame m' i' c' itag (sealed (cookie_for ?P ctag)) [])"
    and draws: "init_ack_draws rs = Some (itag, itsn, ctag, rs')"
    by (rule handshake_opening [OF server(1-5,7) ini client(1-4,6-9) r refl, where g = g and alloc = alloc and rc = rc])
  let ?ck = "cookie_for ?P ctag" and ?t = "init_ack_chunk ?P itag itsn ctag @ drop 80 t"
  let ?i = "ip_reply i (a_dst_ip ?P) (htons 112)" and ?c = "cmn_reply c (ucast (a_dst_port ?P)) (a_ver_tag ?P) (init_ack_chunk ?P itag itsn ctag)"
  have pre: "prefilled hs1 p m ?i ?c ?t" using s1(4) m by (simp add: prefilled_def init_ack_frame_def)
  have ad: "addressed s1 (ip_echo i' (htons 92)) (cmn_reply c' (cmn_dstp c') itag (cookie_echo_chunk (sealed ?ck)))"
    using client(5) by (simp add: addressed_def reply_addresses s1(2))
  have ls: "a_status s1 = SCTP_LISTEN" "4 \<le> length ?t" using server(2) by (simp_all add: s1(2))
  let ?e = "cookie_echo_frame m' i' c' itag (sealed ?ck) []"
  obtain tx3 pr3 where s2: "deliver g alloc r (hs1, rs', s1) ?e = Some (hs1(r \<mapsto> ?e, p \<mapsto> cookie_ack_frame m ?i ?c ?ck (drop 4 ?t)), rs',
          fst (prepare_sctp_threads alloc ((from_cookie s1 ?ck)\<lparr>a_tx_ring := tx3, a_prefilled_ring := pr3\<rparr>)))"
      "rings_after s1 (s1\<lparr>a_tx_ring := tx3, a_prefilled_ring := pr3\<rparr>) p [] 50"
    using server_cookie_echo [OF ad ls(1) m(3) r(1,2) pre ls(2) ready_again [OF server(5,6) s1(3)], of g alloc rs'] by blast
  let ?h2 = "hs1(r \<mapsto> ?e, p \<mapsto> cookie_ack_frame m ?i ?c ?ck (drop 4 ?t))"
    and ?s2 = "fst (prepare_sctp_threads alloc ((from_cookie s1 ?ck)\<lparr>a_tx_ring := tx3, a_prefilled_ring := pr3\<rparr>))"
  have "sent (?h2, rs', ?s2) = sent (?h2, rs', s1\<lparr>a_tx_ring := tx3, a_prefilled_ring := pr3\<rparr>)" by (rule sent_same_tx) (simp add: tx_of_threads)
  then have f3: "sent (?h2, rs', ?s2) = Some (cookie_ack_frame m ?i ?c ?ck [])"
    using sent_after [OF s2(2), of ?h2] cookie_ack_frame_wire [OF m(1)] by simp
  have ad2: "addressed c1 (ip_reply ?i (ck_src_ip ?ck) (htons 36)) (cmn_reply ?c (ucast (ck_src_port ?ck)) (ck_ver_tag ?ck) cookie_ack_chunk)"
    using client(6-9) by (simp add: addressed_def reply_addresses peer_def after_init_ack_def cookie_for_def c1(2))
  have "a_status c1 = SCTP_INIT_ACK_RECEIVED" by (simp add: after_init_ack_def c1(2))
  note c2 = client_cookie_ack [OF ad2 this m(1) r(1), of g alloc hc1 rc]
  obtain th k where th: "?s2 = ((from_cookie s1 ?ck)\<lparr>a_tx_ring := tx3, a_prefilled_ring := pr3\<rparr>)\<lparr>a_threads := th, a_os_threads := k\<rparr>"
    using prepare_threads_frame by blast
  obtain th' k' where th': "fst (prepare_sctp_threads alloc (c1\<lparr>a_status := SCTP_ESTABLISHED\<rparr>)) = c1\<lparr>a_status := SCTP_ESTABLISHED, a_threads := th', a_os_threads := k'\<rparr>"
    using prepare_threads_frame by blast
  show ?thesis
    unfolding both_steps [OF s1(1,5) c1(1,3) s2(1) f3 c2] th th'
    by (intro exI [of _ itag] exI [of _ itsn] exI [of _ ctag] exI [of _ hs1] exI [of _ rs'] exI [of _ s1] exI conjI,
        rule s1(1), rule s1(2), rule s1(5), rule draws, rule init_ack_frame_reads(1) [OF m(1)], simp add: peer_init_def,
        rule init_ack_frame_reads(2) [OF m(1)], simp add: cookie_for_def, rule refl)
      (simp_all add: after_init_ack_def from_cookie_def cookie_for_def peer_def peer_init_def server(2) s1(2) c1(2))
qed

definition sample_init :: "u32 \<Rightarrow> u16 \<Rightarrow> u32 \<Rightarrow> bytes" where
  "sample_init src port tag = frame_bytes sample_mac (ip_prefilled 1 src 2) (sample_cmn port 4)
     (enc_fld \<lparr>fld_type = SCTP_INIT, fld_flags = 0, fld_len = htons 20\<rparr>
      @ enc_init \<lparr>init_tag = tag, init_a_rwnd = 1, init_os = 2, init_mis = 3, init_tsn = 4\<rparr>)"

abbreviation sample_server :: sctp_association where
  "sample_server \<equiv> sample_assoc SCTP_LISTEN 2 4 [7]"

lemma sample_addressed: "addressed (sample_assoc st 2 4 ps) (ip_prefilled 1 src 2) (sample_cmn port 4)"
  by (simp add: addressed_def sample_assoc_def sample_cmn_def sample_ulp_def sample_data_def ip_prefilled_def Let_def)

lemma sample_room: "Suc (rb_count (a_tx_ring (sample_assoc st ip port ps))) < rb_cap (a_tx_ring (sample_assoc st ip port ps))"
  using ring_of_ok [of "[]"] by (simp add: sample_assoc_def flip: length_rb_items)

lemma sample_ready: "rings_ready (sample_assoc st ip port [p]) p []"
  using sample_rings [of "[]" st ip port p] by simp

theorem four_way_handshake_witness:
  "\<exists>hs' rs' s' hc' rc' cl'. handshake (\<lambda>_. 0) (\<lambda>_. True) 9
      ([7 \<mapsto> frame_bytes sample_mac (ip_prefilled 1 2 0) (sample_cmn 4 0) (replicate 80 0)], random_start [Some [1, 2, 3, 4]], sample_server)
      ([8 \<mapsto> frame_bytes sample_mac (ip_prefilled 1 3 2) (sample_cmn 5 4) (replicate 60 0)], random_start [], sample_assoc SCTP_INIT_SENT 3 5 [8])
      (sample_init 3 5 77) = Some ((hs', rs', s'), (hc', rc', cl'))
    \<and> a_status cl' = SCTP_ESTABLISHED \<and> a_ver_tag s' = 77 \<and> a_ver_tag cl' = 0 \<and> a_init_tag s' = 0x04030201"
proof -
  let ?hs = "[7 \<mapsto> frame_bytes sample_mac (ip_prefilled 1 2 0) (sample_cmn 4 0) (replicate 80 0)] :: pheap" and ?s = sample_server
  let ?hc = "[8 \<mapsto> frame_bytes sample_mac (ip_prefilled 1 3 2) (sample_cmn 5 4) (replicate 60 0)] :: pheap" and ?c = "sample_assoc SCTP_INIT_SENT 3 5 [8]"
  have p: "prefilled ?hs 7 sample_mac (ip_prefilled 1 2 0) (sample_cmn 4 0) (replicate 80 0)"
    "prefilled ?hc 8 sample_mac (ip_prefilled 1 3 2) (sample_cmn 5 4) (replicate 60 0)" by (simp_all add: prefilled_def)
  have cl: "a_status ?c = SCTP_INIT_SENT" "a_base ?c = Some sample_data" "fr_state sample_data \<noteq> None" "u_src_ip (a_ulp ?c) = ip_src_addr (ip_prefilled 1 3 2)"
    "u_src_port (a_ulp ?c) = ucast (ntohs (cmn_srcp (sample_cmn 5 4)))" "a_status ?s = SCTP_LISTEN"
    by (simp_all add: sample_assoc_def sample_data_def sample_ulp_def sample_cmn_def ip_prefilled_def Let_def)
  have n: "80 \<le> length (replicate 80 (0 :: u8))" "60 \<le> length (replicate 60 (0 :: u8))" "(9 :: ptr) \<noteq> NULL" "(9 :: ptr) \<noteq> 7" "(9 :: ptr) \<noteq> 8"
    "fld_type \<lparr>fld_type = SCTP_INIT, fld_flags = 0, fld_len = htons 20\<rparr> = SCTP_INIT" by simp_all
  have z: "bytes_word (replicate k 0) = (0 :: u32)" for k by (induction k) simp_all
  have draws: "init_ack_draws (random_start [Some [1, 2, 3, 4]]) = Some (0, 0, 0x04030201, (random_start [])\<lparr>rnd_head := 8\<rparr>)"
    by (simp add: init_ack_draws_def from_buffer_eqs from_buffer_def buffer_has_def buffer_take_def random_start_def get_word_in
        get_random_u32_def random_word_def z)
  show ?thesis
    using four_way_handshake [OF sample_addressed cl(6) p(1) n(1) sample_ready sample_room rnd_inv_start [of "[Some [1, 2, 3, 4]]"] sample_mac_length n(6) cl(1) p(2) n(2)
        sample_ready sample_addressed cl(2-5) n(3-5), where g = "\<lambda>_. 0" and alloc = "\<lambda>_. True" and rc = "random_start []"
        and ?ini0.0 = "\<lparr>init_tag = 77, init_a_rwnd = 1, init_os = 2, init_mis = 3, init_tsn = 4\<rparr>"]
    unfolding sample_init_def draws by fastforce
qed

text \<open>
  C2. A COOKIE ECHO is accepted exactly when its chunk is at least 60 bytes long and the 16 bytes after the cookie are
  the HMAC-MD5 of the cookie under the server's key. An accepted cookie sets the peer's values of the association and is
  answered with a COOKIE ACK to the address in the cookie; a refused one changes neither the association
  nor any packet.
\<close>

theorem cookie_echo_authentic:
  assumes "heap r = Some (frame_bytes m' i' c' (enc_fld f @ ckb @ mac @ x))" "length (mac_mac m') = 12" "r \<noteq> NULL"
    "addressed a i' c'" "fld_type f = SCTP_COOKIE_ECHO" "a_status a = SCTP_LISTEN" "length ckb = 40" "length mac = 16"
    "prefilled heap p m i c t" "4 \<le> length t" "rings_ready a p rest"
  shows "\<exists>heap' a' ok. if_ip_sctp g alloc heap rnd r a = Some (heap', rnd, a', ok)
    \<and> (ok \<longleftrightarrow> 60 \<le> unat (ntohs (fld_len f)) \<and> mac = hmac_spec cookie_key ckb)
    \<and> (ok \<longrightarrow> take 50 (the (heap' p)) = cookie_ack_frame m i c (dec_cookie ckb) []
        \<and> (\<exists>tx pr th k. a' = (from_cookie a (dec_cookie ckb))\<lparr>a_tx_ring := tx, a_prefilled_ring := pr, a_threads := th, a_os_threads := k\<rparr>
            \<and> rb_items tx = rb_items (a_tx_ring a) @ [(p, 50)]))
    \<and> (\<not> ok \<longrightarrow> heap' = heap \<and> a' = a)"
proof (cases "60 \<le> unat (ntohs (fld_len f)) \<and> mac = hmac_spec cookie_key ckb")
  case True
  have m: "length (mac_mac m) = 12" using assms(9) by (simp add: prefilled_def)
  from True obtain tx pr where b: "if_ip_sctp g alloc heap rnd r a = Some (heap(p \<mapsto> cookie_ack_frame m i c (dec_cookie ckb) (drop 4 t)), rnd,
        fst (prepare_sctp_threads alloc ((from_cookie a (dec_cookie ckb))\<lparr>a_tx_ring := tx, a_prefilled_ring := pr\<rparr>)), True)"
      "rings_after a (a\<lparr>a_tx_ring := tx, a_prefilled_ring := pr\<rparr>) p rest 50"
    using cookie_echo_handled(1) [OF assms(1-8) _ _ assms(9-11), of g alloc rnd] by blast
  obtain th k where th: "fst (prepare_sctp_threads alloc ((from_cookie a (dec_cookie ckb))\<lparr>a_tx_ring := tx, a_prefilled_ring := pr\<rparr>))
      = (from_cookie a (dec_cookie ckb))\<lparr>a_tx_ring := tx, a_prefilled_ring := pr, a_threads := th, a_os_threads := k\<rparr>"
    using prepare_threads_frame by blast
  have tx: "rb_items tx = rb_items (a_tx_ring a) @ [(p, 50)]" using b(2) by (simp add: rings_after_def)
  have wire: "take 50 (the ((heap(p \<mapsto> cookie_ack_frame m i c (dec_cookie ckb) (drop 4 t))) p)) = cookie_ack_frame m i c (dec_cookie ckb) []"
    using cookie_ack_frame_wire [OF m] by simp
  show ?thesis unfolding b(1) th using True wire tx by blast
next
  case False
  then have "if_ip_sctp g alloc heap rnd r a = Some (heap, rnd, a, False)" using cookie_echo_handled(2) [of heap r m' i' c' f ckb mac x a, OF assms(1-8)] by auto
  then show ?thesis using False by blast
qed

theorem cookie_echo_authentic_witness:
  "\<exists>heap' a'. if_ip_sctp (\<lambda>_. 0) (\<lambda>_. True)
      [7 \<mapsto> frame_bytes sample_mac (ip_prefilled 1 2 0) (sample_cmn 4 0) (replicate 80 0),
       9 \<mapsto> frame_bytes sample_mac (ip_prefilled 1 3 2) (sample_cmn 5 4) (enc_fld \<lparr>fld_type = SCTP_COOKIE_ECHO, fld_flags = 0, fld_len = htons 60\<rparr>
         @ replicate 40 1 @ hmac_spec cookie_key (replicate 40 1) @ [])]
      (random_start []) 9 sample_server = Some (heap', random_start [], a', True) \<and> a_dst_tsn a' = ck_dst_tsn (dec_cookie (replicate 40 1))"
proof -
  let ?f = "\<lparr>fld_type = SCTP_COOKIE_ECHO, fld_flags = 0, fld_len = htons 60\<rparr>"
  let ?h = "[7 \<mapsto> frame_bytes sample_mac (ip_prefilled 1 2 0) (sample_cmn 4 0) (replicate 80 0),
       9 \<mapsto> frame_bytes sample_mac (ip_prefilled 1 3 2) (sample_cmn 5 4) (enc_fld ?f @ replicate 40 1 @ hmac_spec cookie_key (replicate 40 1) @ [])] :: pheap"
  have p: "prefilled ?h 7 sample_mac (ip_prefilled 1 2 0) (sample_cmn 4 0) (replicate 80 0)" by (simp add: prefilled_def)
  have h: "?h 9 = Some (frame_bytes sample_mac (ip_prefilled 1 3 2) (sample_cmn 5 4) (enc_fld ?f @ replicate 40 1 @ hmac_spec cookie_key (replicate 40 1) @ []))" by simp
  have n: "(9 :: ptr) \<noteq> NULL" "fld_type ?f = SCTP_COOKIE_ECHO" "a_status sample_server = SCTP_LISTEN" "length (replicate 40 (1 :: u8)) = 40"
    "length (hmac_spec cookie_key (replicate 40 1)) = 16" "4 \<le> length (replicate 80 (0 :: u8))" "60 \<le> unat (ntohs (fld_len ?f))"
    by (simp_all add: sample_assoc_def)
  obtain heap' a' ok where w: "if_ip_sctp (\<lambda>_. 0) (\<lambda>_. True) ?h (random_start []) 9 sample_server = Some (heap', random_start [], a', ok)" "ok"
      "\<exists>tx pr th k. a' = (from_cookie sample_server (dec_cookie (replicate 40 1)))\<lparr>a_tx_ring := tx, a_prefilled_ring := pr, a_threads := th, a_os_threads := k\<rparr>"
    using cookie_echo_authentic [OF h sample_mac_length n(1) sample_addressed n(2-5) p n(6) sample_ready, of "\<lambda>_. 0" "\<lambda>_. True" "random_start []"] n(7) by blast
  then have "a_dst_tsn a' = ck_dst_tsn (dec_cookie (replicate 40 1))" by (auto simp: from_cookie_def)
  moreover have "ok = True" using w(2) by simp
  ultimately show ?thesis using w(1) by auto
qed

text \<open>
  C39. A reply is put back into the prefilled ring while it still waits for transmission. With one prefilled packet two
  INITs in a row are answered in the same memory: the transmit ring then holds the packet twice, both
  times addressed to the second peer, and the first peer's INIT ACK is lost.
\<close>

theorem recycled_packet:
  assumes "addressed s i1 c1" "addressed s i2 c2" "a_status s = SCTP_LISTEN" "length (mac_mac m1) = 12" "length (mac_mac m2) = 12"
    "fld_type f1 = SCTP_INIT" "fld_type f2 = SCTP_INIT" "r \<noteq> NULL" "r \<noteq> p" "prefilled hs p m i c t" "80 \<le> length t" "rings_ready s p []"
    "Suc (rb_count (a_tx_ring s)) < rb_cap (a_tx_ring s)" "rnd_inv rs"
  shows "\<exists>host1 hs2 rs2 s2. deliver g alloc r (hs, rs, s) (frame_bytes m1 i1 c1 (enc_fld f1 @ enc_init ia)) = Some host1
    \<and> deliver g alloc r host1 (frame_bytes m2 i2 c2 (enc_fld f2 @ enc_init ib)) = Some (hs2, rs2, s2)
    \<and> rb_items (a_tx_ring s2) = rb_items (a_tx_ring s) @ [(p, 126), (p, 126)]
    \<and> get_u32 (the (hs2 p)) 30 = Some (ip_src_addr i2) \<and> get_u16 (the (hs2 p)) 36 = Some (cmn_srcp c2)"
proof -
  have m: "length (mac_mac m) = 12" "p \<noteq> NULL" using assms(10) by (simp_all add: prefilled_def)
  let ?F1 = "frame_bytes m1 i1 c1 (enc_fld f1 @ enc_init ia)" and ?P1 = "peer s i1 c1 ia"
  obtain itag itsn ctag rs1 tx pr where d1: "deliver g alloc r (hs, rs, s) ?F1
        = Some (hs(r \<mapsto> ?F1, p \<mapsto> init_ack_frame m i c ?P1 itag itsn ctag (drop 80 t)), rs1, s\<lparr>a_tx_ring := tx, a_prefilled_ring := pr\<rparr>)"
      "rings_after s (s\<lparr>a_tx_ring := tx, a_prefilled_ring := pr\<rparr>) p [] 126" "rnd_inv rs1"
    using server_init [OF assms(1,3,4,6,8-12,14), of g alloc ia] by blast
  let ?s1 = "s\<lparr>a_tx_ring := tx, a_prefilled_ring := pr\<rparr>" and ?h1 = "hs(r \<mapsto> ?F1, p \<mapsto> init_ack_frame m i c ?P1 itag itsn ctag (drop 80 t))"
  let ?i = "ip_reply i (a_dst_ip ?P1) (htons 112)" and ?c = "cmn_reply c (ucast (a_dst_port ?P1)) (a_ver_tag ?P1) (init_ack_chunk ?P1 itag itsn ctag)"
    and ?t = "init_ack_chunk ?P1 itag itsn ctag @ drop 80 t" and ?P2 = "peer ?s1 i2 c2 ib"
  have pre: "prefilled ?h1 p m ?i ?c ?t" unfolding init_ack_frame_def by (rule prefilled_frame [OF m])
  have a: "addressed ?s1 i2 c2" "a_status ?s1 = SCTP_LISTEN" "80 \<le> length ?t" using assms(2,3) by (simp_all add: addressed_def)
  obtain itag2 itsn2 ctag2 rs2 tx2 pr2 where d2: "deliver g alloc r (?h1, rs1, ?s1) (frame_bytes m2 i2 c2 (enc_fld f2 @ enc_init ib))
        = Some (?h1(r \<mapsto> frame_bytes m2 i2 c2 (enc_fld f2 @ enc_init ib), p \<mapsto> init_ack_frame m ?i ?c ?P2 itag2 itsn2 ctag2 (drop 80 ?t)), rs2,
            ?s1\<lparr>a_tx_ring := tx2, a_prefilled_ring := pr2\<rparr>)"
      "rings_after ?s1 (?s1\<lparr>a_tx_ring := tx2, a_prefilled_ring := pr2\<rparr>) p [] 126"
    using server_init [OF a(1,2) assms(5,7,8,9) pre a(3) ready_again [OF assms(12,13) d1(2)] d1(3), of g alloc ib] by blast
  have items: "rb_items tx2 = rb_items (a_tx_ring s) @ [(p, 126), (p, 126)]" using d1(2) d2(2) by (simp add: rings_after_def)
  have gets: "get_u32 (init_ack_frame m ?i ?c ?P2 itag2 itsn2 ctag2 x) 30 = Some (ip_src_addr i2)"
    "get_u16 (init_ack_frame m ?i ?c ?P2 itag2 itsn2 ctag2 x) 36 = Some (cmn_srcp c2)" for x
    unfolding init_ack_frame_def frame_reads [OF m(1)] by (simp_all add: reply_addresses) (simp_all add: peer_def)
  show ?thesis by (intro exI conjI, rule d1(1), rule d2(1)) (simp_all add: items gets)
qed

theorem recycled_packet_witness:
  "\<exists>host1 hs2 rs2 s2. deliver (\<lambda>_. 0) (\<lambda>_. True) 9
      ([7 \<mapsto> frame_bytes sample_mac (ip_prefilled 1 2 0) (sample_cmn 4 0) (replicate 80 0)], random_start [], sample_server) (sample_init 3 5 77) = Some host1
    \<and> deliver (\<lambda>_. 0) (\<lambda>_. True) 9 host1 (sample_init 11 6 88) = Some (hs2, rs2, s2)
    \<and> rb_items (a_tx_ring s2) = [(7, 126), (7, 126)] \<and> get_u32 (the (hs2 7)) 30 = Some 11"
proof -
  let ?hs = "[7 \<mapsto> frame_bytes sample_mac (ip_prefilled 1 2 0) (sample_cmn 4 0) (replicate 80 0)] :: pheap"
  let ?f = "\<lparr>fld_type = SCTP_INIT, fld_flags = 0, fld_len = htons 20\<rparr>"
  have p: "prefilled ?hs 7 sample_mac (ip_prefilled 1 2 0) (sample_cmn 4 0) (replicate 80 0)" by (simp add: prefilled_def)
  have n: "a_status sample_server = SCTP_LISTEN" "fld_type ?f = SCTP_INIT" "(9 :: ptr) \<noteq> NULL" "(9 :: ptr) \<noteq> 7" "80 \<le> length (replicate 80 (0 :: u8))"
    by (simp_all add: sample_assoc_def)
  have tx: "rb_items (a_tx_ring sample_server) = []" using ring_of_ok [of "[]"] by (simp add: sample_assoc_def)
  have i: "ip_src_addr (ip_prefilled 1 11 2) = 11" by (simp add: ip_prefilled_def Let_def)
  show ?thesis
    using recycled_packet [OF sample_addressed [of _ _ 3 5] sample_addressed [of _ _ 11 6] n(1) sample_mac_length sample_mac_length n(2,2-4) p n(5) sample_ready sample_room rnd_inv_start [of "[]"],
        where g = "\<lambda>_. 0" and alloc = "\<lambda>_. True"
        and ia = "\<lparr>init_tag = 77, init_a_rwnd = 1, init_os = 2, init_mis = 3, init_tsn = 4\<rparr>" and ib = "\<lparr>init_tag = 88, init_a_rwnd = 1, init_os = 2, init_mis = 3, init_tsn = 4\<rparr>"]
    unfolding sample_init_def tx i append_Nil by blast
qed

end
