(* ===== verification/Transmit.thy ===== *)
theory Transmit
  imports Assoc Xdp
begin

unbundle bit_operations_syntax

text \<open>
  The transmit path of an association over AF\_XDP: the environment (\<^verbatim>\<open>src/kpnet_env_init.c\<close>), the creation of an
  association (\<^verbatim>\<open>src/sctp_assoc_create.c\<close>) and the frame it sends, scattered over blocks of the shared memory
  (\<^verbatim>\<open>src/prefill_sctp_mac_ip.c\<close>, \<^verbatim>\<open>src/sctp_prepare_packet.c\<close>, \<^verbatim>\<open>src/sctp_push_to_xdp_segs.c\<close>,
  \<^verbatim>\<open>src/build_prefilled_mac_ip_sctp_init_hdr.c\<close>, \<^verbatim>\<open>src/eth_send_sctp.c\<close>).

  Pointers into the shared memory are addresses; the memory is a list of bytes that starts at the address
  \<open>env_umem_base\<close>. The blocks in which \<^verbatim>\<open>sctp_assoc_create\<close> places the structures \<open>ulp\<close>, \<open>meta\<close> and \<open>frame\<close> are taken
  from the slab, but the structures themselves are values of the association: nothing reads them as bytes.
\<close>

section \<open>State\<close>

record kpnet_env =
  env_xdp :: xdp
  env_umem_base :: ptr
  env_umem :: bytes
  env_stack :: umem_stack
  env_state_alloc :: umem_slab_allocator

text \<open>The fields of \<^verbatim>\<open>sctp_association_t\<close> that belong to the transmit path.\<close>

record xdp_association = sctp_association +
  x_umem_hdrs_cursor :: ptr
  x_allocator_64 :: "ringbuf option"
  x_prefilled_umem_packet :: ptr
  x_prefilled_umem_packet_len :: u32
  x_xdp_segs :: "u64 list"
  x_xdp_seg_lens :: "u32 list"
  x_xdp_seg_count :: u32

text \<open>A store of bytes at an address of the shared memory, and the pointer found at an address.\<close>

definition umem_put :: "kpnet_env \<Rightarrow> ptr \<Rightarrow> bytes \<Rightarrow> kpnet_env option" where
  "umem_put env p d =
     (if env_umem_base env \<le> p
      then map_option (\<lambda>m. env\<lparr>env_umem := m\<rparr>) (mwrite (env_umem env) (unat (p - env_umem_base env)) d)
      else None)"

definition umem_ptr :: "kpnet_env \<Rightarrow> ptr \<Rightarrow> ptr" where
  "umem_ptr env p = bytes_word (take 8 (drop (unat (p - env_umem_base env)) (env_umem env)))"

section \<open>The environment\<close>

text \<open>
  The flags say whether \<^verbatim>\<open>malloc\<close> succeeds (for the environment and, inside \<^verbatim>\<open>create_umem_stack\<close>, twice) and whether
  \<^verbatim>\<open>eth_open\<close> does; \<open>opened\<close> is what \<^verbatim>\<open>xdp_open\<close> returns: the socket's rings and the mapped memory.
\<close>

definition kpnet_env_init :: "bool \<Rightarrow> bool \<Rightarrow> bool \<Rightarrow> (xdp \<times> ptr \<times> bytes) option \<Rightarrow> bool \<Rightarrow> kpnet_env option" where
  "kpnet_env_init a1 a2 a3 opened eth =
     (if \<not> a1 then None
      else do { stack \<leftarrow> create_umem_stack a2 a3 UMEM_CHUNK_COUNT (ucast UMEM_CHUNK_SIZE);
                (xsk, base, umem) \<leftarrow> opened;
                if \<not> eth then None
                else Some \<lparr>env_xdp = xsk, env_umem_base = base, env_umem = umem, env_stack = stack,
                           env_state_alloc = \<lparr>sl_free_list = NULL, sl_cur_pos = NULL, sl_cur_end = NULL\<rparr>\<rparr> })"

definition env_slab_alloc :: "kpnet_env \<Rightarrow> (kpnet_env \<times> ptr) option" where
  "env_slab_alloc env =
     do { (st, al, p) \<leftarrow> slab_alloc_64b (umem_ptr env) (env_stack env) (env_state_alloc env) (env_umem_base env);
          Some (env\<lparr>env_stack := st, env_state_alloc := al\<rparr>, p) }"

section \<open>Frames in the shared memory\<close>

text \<open>\<open>mac_gateway\<close> and \<open>mac_dev\<close> are 64-bit integers of which six bytes are used.\<close>

definition prefill_sctp_mac_ip ::
  "random_state \<Rightarrow> kpnet_env \<Rightarrow> xdp_association \<Rightarrow> u64 \<Rightarrow> u64 \<Rightarrow> (random_state \<times> kpnet_env \<times> xdp_association \<times> i64) option" where
  "prefill_sctp_mac_ip rnd env a mac_gateway mac_dev =
     do { let ulp = a_ulp a;
          let cmn = \<lparr>cmn_srcp = bswap16 (ucast (u_src_port ulp)), cmn_dstp = bswap16 (ucast (u_dst_port ulp)), cmn_tag = 0, cmn_check = 0\<rparr>;
          (indent, rnd) \<leftarrow> get_random_from_buffer_u32 rnd;
          let ip = \<lparr>ip_ihl = 5, ip_ver = 4, ip_tos = 2, ip_len = 0, ip_indent = ucast indent, ip_offset = 0, ip_ttl = 141, ip_proto = PROTO_SCTP,
                    ip_check = 0, ip_src_addr = u_src_ip ulp, ip_dest_addr = u_dst_ip ulp\<rparr>;
          let mac = \<lparr>mac_mac = take 6 (word_bytes 8 mac_gateway) @ take 6 (word_bytes 8 mac_dev), mac_type = bswap16 ETHERTYPE_IP\<rparr>;
          env \<leftarrow> umem_put env (x_prefilled_umem_packet a) ([0, 0] @ enc_mac mac @ enc_ipv4 ip @ enc_cmn cmn);
          Some (rnd, env, a\<lparr>x_prefilled_umem_packet_len := 46, x_prefilled_umem_packet := x_prefilled_umem_packet a + 2\<rparr>, 0) }"

definition sctp_prepare_packet :: "kpnet_env \<Rightarrow> xdp_association \<Rightarrow> xdp_association" where
  "sctp_prepare_packet env a =
     a\<lparr>x_xdp_segs := (x_xdp_segs a)[0 := x_prefilled_umem_packet a - env_umem_base env],
       x_xdp_seg_lens := (x_xdp_seg_lens a)[0 := x_prefilled_umem_packet_len a],
       x_xdp_seg_count := 1, a_remain_plen := a_mtu a\<rparr>"

definition sctp_push_to_xdp_segs :: "kpnet_env \<Rightarrow> xdp_association \<Rightarrow> u64 \<Rightarrow> xdp_association \<times> u64" where
  "sctp_push_to_xdp_segs env a len =
     (if x_xdp_seg_count a \<ge> XDP_MAX_SEGS then (a, -1)
      else let offset = x_umem_hdrs_cursor a - env_umem_base env; n = unat (x_xdp_seg_count a) in
        (a\<lparr>x_xdp_segs := (x_xdp_segs a)[n := offset], x_xdp_seg_lens := (x_xdp_seg_lens a)[n := ucast len],
           x_xdp_seg_count := x_xdp_seg_count a + 1\<rparr>, 0))"

text \<open>
  The loop that retries until \<^verbatim>\<open>xdp_tx\<close> takes the segments. \<open>ks\<close> tells how many descriptors the kernel consumes
  between the attempts; when it stops consuming the loop does not end.
\<close>

fun eth_retry :: "u32 list \<Rightarrow> xdp \<Rightarrow> u64 list \<Rightarrow> u32 list \<Rightarrow> u32 \<Rightarrow> xdp option" where
  "eth_retry ks xsk segs lens n =
     do { (xsk, r) \<leftarrow> xdp_tx xsk segs lens n;
          if r = 0
          then (case ks of [] \<Rightarrow> None | k # ks \<Rightarrow> eth_retry ks (xsk\<lparr>tx_ring_consumer := tx_ring_consumer xsk + k\<rparr>) segs lens n)
          else Some xsk }"

definition eth_send_sctp :: "u32 list \<Rightarrow> kpnet_env \<Rightarrow> xdp_association \<Rightarrow> (kpnet_env \<times> i64) option" where
  "eth_send_sctp ks env a =
     do { env \<leftarrow> umem_put env (x_prefilled_umem_packet a + 16) (word_bytes 2 (htons (ucast (a_mtu a - a_remain_plen a + 32))));
          xsk \<leftarrow> eth_retry ks (env_xdp env) (x_xdp_segs a) (x_xdp_seg_lens a) (x_xdp_seg_count a);
          Some (env\<lparr>env_xdp := xsk\<rparr>, 0) }"

definition build_prefilled_mac_ip_sctp_init_hdr ::
  "u32 list \<Rightarrow> random_state \<Rightarrow> kpnet_env \<Rightarrow> xdp_association \<Rightarrow> (random_state \<times> kpnet_env \<times> xdp_association \<times> i32) option" where
  "build_prefilled_mac_ip_sctp_init_hdr ks rnd env a =
     do { let ulp = a_ulp a;
          (tag, rnd) \<leftarrow> get_random_from_buffer_u32 rnd;
          (tsn, rnd) \<leftarrow> get_random_from_buffer_u32 rnd;
          let ini = \<lparr>init_tag = tag, init_a_rwnd = htonl (u_src_arwnd ulp), init_os = htons (u_src_os ulp),
                     init_mis = htons (u_src_mis ulp), init_tsn = tsn\<rparr>;
          let fld = \<lparr>fld_type = SCTP_INIT, fld_flags = 0, fld_len = htons 20\<rparr>;
          env \<leftarrow> umem_put env (x_umem_hdrs_cursor a) (enc_fld fld @ enc_init ini);
          let a = a\<lparr>a_remain_plen := a_remain_plen a - 20\<rparr>;
          let a = fst (sctp_push_to_xdp_segs env a 20);
          (env, _) \<leftarrow> eth_send_sctp ks env a;
          Some (rnd, env, a, 0) }"

section \<open>Creating an association\<close>

text \<open>
  What the C library and the system give to the program: whether the \<open>n\<close>-th call of \<^verbatim>\<open>malloc\<close> succeeds, what fresh memory holds,
  the blocks of \<^verbatim>\<open>aligned_alloc\<close> (for the \<open>n\<close>-th allocator), the size of a cache line, what \<^verbatim>\<open>get_ifmac\<close> finds for an interface
  (\<open>None\<close>: an error), and the contents the blocks of the slab had before.
\<close>

record libc =
  lc_malloc :: "nat \<Rightarrow> bool"
  lc_fresh :: "nat \<Rightarrow> u64 \<times> ptr"
  lc_aligned :: "nat \<Rightarrow> nat \<Rightarrow> ptr"
  lc_line :: u64
  lc_ifmac :: "string \<Rightarrow> bytes option"
  lc_ulp :: sctp_ulp_config
  lc_meta :: if_ip_sctp_meta
  lc_frame :: frame_data

text \<open>A ring pointer that is NULL: a ring without cells, on which no access returns.\<close>

definition null_ring :: ringbuf where
  "null_ring = \<lparr>rb_size = 0, rb_mask = 0, rb_head = 0, rb_tail = 0, rb_cells = []\<rparr>"

definition assoc_zero :: "sctp_ulp_config \<Rightarrow> xdp_association" where
  "assoc_zero ulp = \<lparr>a_id = 0, a_status = SCTP_LISTEN, a_ver_tag = 0, a_init_tag = 0, a_a_rwnd = 0, a_dst_port = 0, a_dst_ip = 0, a_os = 0, a_mis = 0,
     a_tsn = 0, a_dst_tsn = 0, a_srtt = 0, a_rttvar = 0, a_rto = 0, a_mtu = 0, a_threads = None, a_os_threads = 0, a_tx_ring = null_ring,
     a_retry_ring = None, a_prefilled_ring = null_ring, a_bundling = null_ring, a_base = None, a_ulp = ulp, a_current_packet = NULL,
     a_cursor = (NULL, 0), a_remain_plen = 0,
     a_rtx = replicate 1024 \<lparr>sl_in_use = 0, sl_acked = 0, sl_tsn = 0, sl_stream_id = 0, sl_retry_count = 0, sl_sent_at = 0, sl_buffer = None, sl_len = 0\<rparr>,
     x_umem_hdrs_cursor = NULL, x_allocator_64 = None, x_prefilled_umem_packet = NULL, x_prefilled_umem_packet_len = 0,
     x_xdp_segs = replicate 16 0, x_xdp_seg_lens = replicate 16 0, x_xdp_seg_count = 0\<rparr>"

fun status_code :: "SCTP_STATUS \<Rightarrow> nat" where
  "status_code SCTP_LISTEN = 0"
| "status_code SCTP_COOKIE_WAIT = 1"
| "status_code SCTP_INIT_SENT = 2"
| "status_code SCTP_INIT_RECEIVED = 3"
| "status_code SCTP_INIT_ACK_SENT = 4"
| "status_code SCTP_INIT_ACK_RECEIVED = 5"
| "status_code SCTP_COOKIE_RECEIVED = 6"
| "status_code SCTP_COOKIE_ECHO_SENT = 7"
| "status_code SCTP_COOKIE_ECHO_RECEIVED = 8"
| "status_code SCTP_ESTABLISHED = 9"

definition ifmac_into :: "(string \<Rightarrow> bytes option) \<Rightarrow> string option \<Rightarrow> bytes \<Rightarrow> bytes option" where
  "ifmac_into ifmac name old = (case name of None \<Rightarrow> Some old | Some n \<Rightarrow> ifmac n)"

text \<open>
  The three structures of an association lie in blocks of the slab. \<^verbatim>\<open>if_ip_sctp_meta_t\<close> takes 80 bytes and its block has 64, so that its fields
  \<open>add\<close> and \<open>add_len\<close>, which this path never uses, overlap the next block; the structures are separate values here.
\<close>

definition sctp_assoc_create ::
  "libc \<Rightarrow> random_state \<Rightarrow> kpnet_env \<Rightarrow> u32 \<Rightarrow> u16 \<Rightarrow> u32 \<Rightarrow> u16 \<Rightarrow> SCTP_STATUS \<Rightarrow> string option \<Rightarrow> string option
   \<Rightarrow> (random_state \<times> kpnet_env \<times> xdp_association option) option" where
  "sctp_assoc_create lc rnd env src_ip src_port dst_ip dst_port initial_state gw_ifname dev_ifname =
     (if \<not> lc_malloc lc 0 then Some (rnd, env, None)
      else do {
        (env, ulp_p) \<leftarrow> env_slab_alloc env;
        (env, meta_p) \<leftarrow> env_slab_alloc env;
        (env, frame_p) \<leftarrow> env_slab_alloc env;
        if ulp_p = NULL \<or> meta_p = NULL \<or> frame_p = NULL then Some (rnd, env, None)
        else (case (ifmac_into (lc_ifmac lc) gw_ifname (m_gateway (lc_meta lc)), ifmac_into (lc_ifmac lc) dev_ifname (m_dev (lc_meta lc))) of
          (Some gateway, Some dev) \<Rightarrow>
            do { let meta = (lc_meta lc)\<lparr>m_state := of_nat (status_code initial_state), m_src_ip := src_ip, m_dst_ip := dst_ip, m_src_port := ucast src_port,
                              m_dst_port := ucast dst_port, m_src_arwnd := 65535, m_src_os := 32, m_src_mis := 32, m_gateway := gateway, m_dev := dev\<rparr>;
                 let ulp = (lc_ulp lc)\<lparr>u_src_ip := src_ip, u_dst_ip := dst_ip, u_src_port := ucast src_port, u_dst_port := ucast dst_port,
                              u_src_arwnd := 65535, u_src_os := 32, u_src_mis := 32\<rparr>;
                 let frame = (lc_frame lc)\<lparr>fr_state := Some meta, fr_sync := None, fr_plen := 0\<rparr>;
                 al64 \<leftarrow> create_allocator (lc_malloc lc 1) (lc_malloc lc 2) (lc_fresh lc) (lc_aligned lc 0) (lc_line lc) 64 256;
                 let bundling = create_ringbuf (lc_malloc lc 3) (lc_malloc lc 4) (fst \<circ> lc_fresh lc) 256;
                 let (id, rnd) = get_random_u16 rnd;
                 let a = (assoc_zero ulp)\<lparr>x_allocator_64 := al64, a_bundling := (case bundling of None \<Rightarrow> null_ring | Some rb \<Rightarrow> rb), a_id := id,
                            a_base := Some frame, a_status := initial_state, a_os := htons 16, a_mis := htons 16, a_mtu := 1500 - 14 - 20 - 12\<rparr>;
                 (env, packet) \<leftarrow> env_slab_alloc env;
                 let a = a\<lparr>x_prefilled_umem_packet := packet\<rparr>;
                 if gw_ifname \<noteq> None \<and> dev_ifname \<noteq> None
                 then do { (rnd, env, a, _) \<leftarrow> prefill_sctp_mac_ip rnd env a (bytes_word gateway) (bytes_word dev);
                           Some (rnd, env, Some a) }
                 else Some (rnd, env, Some a) }
        | _ \<Rightarrow> Some (rnd, env, None)) })"

section \<open>Stores and allocations\<close>

definition umem_ok :: "kpnet_env \<Rightarrow> bool" where
  "umem_ok env \<longleftrightarrow> 0 < unat (env_umem_base env) \<and> unat (env_umem_base env) + length (env_umem env) < 2 ^ 64"

lemma umem_offset:
  assumes "umem_ok env" "off \<le> length (env_umem env)" "p = env_umem_base env + of_nat off"
  shows "env_umem_base env \<le> p" "unat (p - env_umem_base env) = off" "p - env_umem_base env = of_nat off"
proof -
  have "off < 2 ^ 64" using assms(1,2) by (simp add: umem_ok_def)
  then have o: "unat (of_nat off :: ptr) = off" by (simp add: unat_of_nat)
  have "unat p = unat (env_umem_base env) + off"
    unfolding assms(3) unat_word_ariths o using assms(1,2) by (simp add: umem_ok_def)
  then show "env_umem_base env \<le> p" by (simp add: word_le_nat_alt)
  show "unat (p - env_umem_base env) = off" "p - env_umem_base env = of_nat off" unfolding assms(3) using o by simp_all
qed

lemma umem_put_at:
  assumes "umem_ok env" "p = env_umem_base env + of_nat off" "off + length d \<le> length (env_umem env)"
  shows "umem_put env p d = Some (env\<lparr>env_umem := splice (env_umem env) off d\<rparr>)"
  using umem_offset [OF assms(1) _ assms(2)] assms(3) by (simp add: umem_put_def mwrite_def)

text \<open>
  The slab after \<open>k\<close> allocations from the first chunk taken, the last one of the memory.
\<close>

definition slab_at :: "kpnet_env \<Rightarrow> nat \<Rightarrow> bool" where
  "slab_at env k \<longleftrightarrow> env_state_alloc env = \<lparr>sl_free_list = NULL, sl_cur_pos = env_umem_base env + of_nat (16773120 + 64 * k),
     sl_cur_end = env_umem_base env + 16777216\<rparr>"

lemma slab_first:
  assumes "kpnet_env_init True True True (Some (xsk, base, umem)) True = Some env"
  shows "\<exists>env'. env_slab_alloc env = Some (env', base + of_nat 16773120) \<and> slab_at env' 1
    \<and> env_umem_base env' = base \<and> env_umem env' = umem \<and> env_xdp env' = xsk"
proof -
  let ?al = "\<lparr>sl_free_list = NULL, sl_cur_pos = NULL, sl_cur_end = NULL\<rparr>"
  obtain st where st: "create_umem_stack True True 4096 4096 = Some st" by (simp add: create_umem_stack_def)
  have env: "env = \<lparr>env_xdp = xsk, env_umem_base = base, env_umem = umem, env_stack = st, env_state_alloc = ?al\<rparr>"
    using assms st by (simp add: kpnet_env_init_def)
  have "[0..<4096] = [0..<4095] @ [4095 :: nat]" using upt_Suc_append [of 0 4095] by simp
  then have "us_list st = map (\<lambda>i. of_nat i * 4096) [0..<4095] @ [16773120]"
    using create_umem_stack_list(2) [OF st] by simp
  then obtain st' where "umem_stack_pop st = Some (st', 16773120)"
    using umem_stack_pop_snoc [OF create_umem_stack_list(1) [OF st]] by blast
  moreover have "(16773120 :: u64) \<noteq> - 1" by code_simp
  ultimately show ?thesis by (simp add: env env_slab_alloc_def slab_alloc_64b_def slab_at_def Let_def)
qed

lemma slab_next:
  assumes "slab_at env k" "k < 64" "unat (env_umem_base env) + 16777216 < 2 ^ 64"
  shows "\<exists>env'. env_slab_alloc env = Some (env', env_umem_base env + of_nat (16773120 + 64 * k)) \<and> slab_at env' (Suc k)
    \<and> env_umem_base env' = env_umem_base env \<and> env_umem env' = env_umem env \<and> env_xdp env' = env_xdp env"
proof -
  let ?b = "env_umem_base env" and ?o = "16773120 + 64 * k"
  have o: "?o < 16777216" using assms(2) by simp
  have "unat (?b + of_nat ?o) = unat ?b + ?o" "unat (?b + 16777216) = unat ?b + 16777216"
    using o assms(3) by (simp_all add: unat_word_ariths unat_of_nat del: of_nat_add)
  then have lt: "\<not> ?b + of_nat ?o \<ge> ?b + 16777216" using o by (simp add: word_le_nat_alt del: of_nat_add)
  have nx: "?b + of_nat ?o + 64 = ?b + of_nat (16773120 + 64 * Suc k)" by simp
  have al: "env_state_alloc env = \<lparr>sl_free_list = NULL, sl_cur_pos = ?b + of_nat ?o, sl_cur_end = ?b + 16777216\<rparr>"
    using assms(1) by (simp add: slab_at_def)
  show ?thesis
    unfolding env_slab_alloc_def slab_alloc_64b_def al slab_at_def using lt nx
    by (simp del: of_nat_add of_nat_Suc of_nat_mult not_le)
qed

section \<open>The scattered frame\<close>

text \<open>What the network card sends for a list of descriptors.\<close>

definition gather :: "bytes \<Rightarrow> xdp_desc list \<Rightarrow> bytes" where
  "gather umem ds = concat (map (\<lambda>d. take (unat (xd_len d)) (drop (unat (xd_addr d)) umem)) ds)"

text \<open>An association whose headers lie at the offset \<open>h\<close> of the memory and whose cursor points to the offset \<open>k\<close>.\<close>

definition x_placed :: "kpnet_env \<Rightarrow> xdp_association \<Rightarrow> nat \<Rightarrow> nat \<Rightarrow> bool" where
  "x_placed env a h k \<longleftrightarrow> umem_ok env \<and> x_prefilled_umem_packet a = env_umem_base env + of_nat h \<and> x_umem_hdrs_cursor a = env_umem_base env + of_nat k
     \<and> h + 46 \<le> length (env_umem env) \<and> k + 20 \<le> length (env_umem env) \<and> (h + 46 \<le> k \<or> k + 20 \<le> h)
     \<and> length (x_xdp_segs a) = 16 \<and> length (x_xdp_seg_lens a) = 16"

definition hdrs_at :: "kpnet_env \<Rightarrow> nat \<Rightarrow> mac_hdr \<Rightarrow> ipv4_hdr \<Rightarrow> sctp_common_hdr \<Rightarrow> bool" where
  "hdrs_at env h m i c \<longleftrightarrow> length (mac_mac m) = 12 \<and> take 46 (drop h (env_umem env)) = frame_bytes m i c []"

definition tx_ready :: "kpnet_env \<Rightarrow> nat \<Rightarrow> bool" where
  "tx_ready env n \<longleftrightarrow> chan_inv (tx_chan (env_xdp env)) \<and> length (chan_items (tx_chan (env_xdp env))) + n \<le> 4096"

lemma splice_window:
  assumes "n + length d \<le> m" "h + m \<le> length mem"
  shows "take m (drop h (splice mem (h + n) d)) = splice (take m (drop h mem)) n d"
proof (rule nth_equalityI)
  show "length (take m (drop h (splice mem (h + n) d))) = length (splice (take m (drop h mem)) n d)" using assms by simp
next
  fix j assume "j < length (take m (drop h (splice mem (h + n) d)))"
  then have "j < m" using assms by simp
  then show "take m (drop h (splice mem (h + n) d)) ! j = splice (take m (drop h mem)) n d ! j"
    using assms by (auto simp: splice_def nth_append)
qed

lemma eth_send_at:
  assumes "x_placed env a h k" "hdrs_at env h m i c" "tx_ready env (unat (x_xdp_seg_count a))" "0 < x_xdp_seg_count a" "x_xdp_seg_count a \<le> 16"
    and L: "L = htons (ucast (a_mtu a - a_remain_plen a + 32))"
  shows "\<exists>env'. eth_send_sctp ks env a = Some (env', 0) \<and> env_umem_base env' = env_umem_base env
    \<and> env_umem env' = splice (env_umem env) (h + 16) (word_bytes 2 L) \<and> hdrs_at env' h m (i\<lparr>ip_len := L\<rparr>) c
    \<and> env_stack env' = env_stack env \<and> env_state_alloc env' = env_state_alloc env \<and> chan_inv (tx_chan (env_xdp env'))
    \<and> chan_items (tx_chan (env_xdp env')) = chan_items (tx_chan (env_xdp env)) @ tx_descs (x_xdp_segs a) (x_xdp_seg_lens a) (x_xdp_seg_count a)"
proof -
  let ?n = "x_xdp_seg_count a" and ?ds = "tx_descs (x_xdp_segs a) (x_xdp_seg_lens a) (x_xdp_seg_count a)" and ?x = "env_xdp env"
  have pl: "umem_ok env" "x_prefilled_umem_packet a = env_umem_base env + of_nat h" "h + 46 \<le> length (env_umem env)"
      "length (x_xdp_segs a) = 16" "length (x_xdp_seg_lens a) = 16" using assms(1) by (simp_all add: x_placed_def)
  have p: "x_prefilled_umem_packet a + 16 = env_umem_base env + of_nat (h + 16)" using pl(2) by simp
  have put: "umem_put env (x_prefilled_umem_packet a + 16) (word_bytes 2 L) = Some (env\<lparr>env_umem := splice (env_umem env) (h + 16) (word_bytes 2 L)\<rparr>)"
    using umem_put_at [OF pl(1) p, of "word_bytes 2 L"] pl(3) by simp
  have nz: "?n \<noteq> 0" using assms(4) by auto
  have n: "unat ?n \<le> 16" using assms(5) by (simp add: word_le_nat_alt)
  have tx: "xdp_tx ?x (x_xdp_segs a) (x_xdp_seg_lens a) ?n = Some (?x\<lparr>tx_ring := ring_put (tx_ring ?x) (tx_ring_producer ?x) ?ds,
        tx_ring_producer := tx_ring_producer ?x + ?n\<rparr>, ?n)"
    using xdp_tx_step [of ?x ?n "x_xdp_segs a" "x_xdp_seg_lens a"] assms(3-5) n pl(4,5) by (auto simp: tx_ready_def not_less)
  have "eth_send_sctp ks env a = Some (env\<lparr>env_umem := splice (env_umem env) (h + 16) (word_bytes 2 L),
      env_xdp := ?x\<lparr>tx_ring := ring_put (tx_ring ?x) (tx_ring_producer ?x) ?ds, tx_ring_producer := tx_ring_producer ?x + ?n\<rparr>\<rparr>, 0)"
    unfolding eth_send_sctp_def L [symmetric] put using tx nz by (simp add: eth_retry.simps [of ks])
  moreover have "take 46 (drop h (splice (env_umem env) (h + 16) (word_bytes 2 L))) = frame_bytes m (i\<lparr>ip_len := L\<rparr>) c []"
    using splice_window [of 16 "word_bytes 2 L" 46 h "env_umem env"] frame_splice_len [of m i c "[]" L] assms(2) pl(3) by (simp add: hdrs_at_def)
  ultimately show ?thesis
    using tx_put_items [of ?x ?ds] assms(2,3) by (simp add: hdrs_at_def tx_ready_def)
qed

text \<open>The INIT of an association whose packet was prepared: two descriptors, the headers and the chunk.\<close>

definition init_chunk :: "sctp_ulp_config \<Rightarrow> u32 \<Rightarrow> u32 \<Rightarrow> bytes" where
  "init_chunk ulp tag tsn = enc_fld \<lparr>fld_type = SCTP_INIT, fld_flags = 0, fld_len = htons 20\<rparr>
     @ enc_init \<lparr>init_tag = tag, init_a_rwnd = htonl (u_src_arwnd ulp), init_os = htons (u_src_os ulp),
                 init_mis = htons (u_src_mis ulp), init_tsn = tsn\<rparr>"

lemma length_init_chunk [simp]: "length (init_chunk ulp tag tsn) = 20"
  by (simp add: init_chunk_def)

definition two_descs :: "nat \<Rightarrow> nat \<Rightarrow> xdp_desc list" where
  "two_descs h k = [\<lparr>xd_addr = of_nat h, xd_len = 46, xd_options = XDP_PKT_CONTD\<rparr>, \<lparr>xd_addr = of_nat k, xd_len = 20, xd_options = 0\<rparr>]"

lemma tx_two_descs:
  "length segs = 16 \<Longrightarrow> length lens = 16 \<Longrightarrow> tx_descs (segs[0 := of_nat h, Suc 0 := of_nat k]) (lens[0 := 46, Suc 0 := 20]) 2 = two_descs h k"
proof -
  have "[0..<unat (2 :: u32)] = [0, 1]" by (simp add: upt_conv_Cons)
  then show "length segs = 16 \<Longrightarrow> length lens = 16 \<Longrightarrow> ?thesis" unfolding tx_descs_def by (simp add: two_descs_def)
qed

lemma gather_two:
  assumes "h + 46 \<le> length umem" "k + 20 \<le> length umem" "length umem < 2 ^ 64"
    "take 46 (drop h umem) = frame_bytes m i c []" "take 20 (drop k umem) = chunk"
  shows "gather umem (two_descs h k) = frame_bytes m i c chunk"
proof -
  have "unat (of_nat h :: u64) = h" "unat (of_nat k :: u64) = k" using assms(1-3) by (simp_all add: unat_of_nat)
  then show ?thesis using assms(4,5) by (simp add: gather_def two_descs_def frame_bytes_def)
qed

definition prepared :: "kpnet_env \<Rightarrow> xdp_association \<Rightarrow> nat \<Rightarrow> bool" where
  "prepared env a h \<longleftrightarrow> x_xdp_segs a ! 0 = of_nat h \<and> x_xdp_seg_lens a ! 0 = 46 \<and> x_xdp_seg_count a = 1 \<and> a_remain_plen a = a_mtu a"

lemma init_hdr_sent:
  assumes "x_placed env a h k" "hdrs_at env h m i c" "tx_ready env 2" "prepared env a h" "rnd_inv rnd"
  shows "\<exists>tag tsn rnd' env' a'. build_prefilled_mac_ip_sctp_init_hdr ks rnd env a = Some (rnd', env', a', 0)
    \<and> a' = a\<lparr>a_remain_plen := a_mtu a - 20, x_xdp_segs := (x_xdp_segs a)[1 := of_nat k], x_xdp_seg_lens := (x_xdp_seg_lens a)[1 := 20], x_xdp_seg_count := 2\<rparr>
    \<and> chan_inv (tx_chan (env_xdp env')) \<and> chan_items (tx_chan (env_xdp env')) = chan_items (tx_chan (env_xdp env)) @ two_descs h k
    \<and> x_placed env' a' h k \<and> hdrs_at env' h m (i\<lparr>ip_len := htons 52\<rparr>) c \<and> tx_descs (x_xdp_segs a') (x_xdp_seg_lens a') 2 = two_descs h k
    \<and> gather (env_umem env') (two_descs h k) = frame_bytes m (i\<lparr>ip_len := htons 52\<rparr>) c (init_chunk (a_ulp a) tag tsn) \<and> rnd_inv rnd'"
proof -
  obtain tag rnd1 where r1: "get_random_from_buffer_u32 rnd = Some (tag, rnd1)" "rnd_inv rnd1"
    using from_buffer_ok [OF assms(5), of 4, where 'a = 32] by (auto simp: from_buffer_eqs)
  obtain tsn rnd2 where r2: "get_random_from_buffer_u32 rnd1 = Some (tsn, rnd2)" "rnd_inv rnd2"
    using from_buffer_ok [OF r1(2), of 4, where 'a = 32] by (auto simp: from_buffer_eqs)
  let ?ch = "init_chunk (a_ulp a) tag tsn" and ?b = "env_umem_base env"
  let ?env = "env\<lparr>env_umem := splice (env_umem env) k ?ch\<rparr>"
  let ?a = "a\<lparr>a_remain_plen := a_mtu a - 20, x_xdp_segs := (x_xdp_segs a)[1 := of_nat k], x_xdp_seg_lens := (x_xdp_seg_lens a)[1 := 20], x_xdp_seg_count := 2\<rparr>"
  have pl: "umem_ok env" "x_umem_hdrs_cursor a = ?b + of_nat k" "h + 46 \<le> length (env_umem env)" "k + 20 \<le> length (env_umem env)" "h + 46 \<le> k \<or> k + 20 \<le> h"
      "length (x_xdp_segs a) = 16" "length (x_xdp_seg_lens a) = 16" using assms(1) by (simp_all add: x_placed_def)
  have put: "umem_put env (x_umem_hdrs_cursor a) ?ch = Some ?env" using umem_put_at [OF pl(1,2)] pl(4) by simp
  have sixteen: "\<not> (16 :: u32) \<le> 1" by code_simp
  have push: "fst (sctp_push_to_xdp_segs ?env (a\<lparr>a_remain_plen := a_remain_plen a - 20\<rparr>) 20) = ?a"
    using assms(4) pl(2) sixteen by (simp add: sctp_push_to_xdp_segs_def prepared_def Let_def)
  have "x_placed ?env ?a h k" using assms(1) by (simp add: x_placed_def umem_ok_def)
  moreover have "hdrs_at ?env h m i c"
    using assms(2) pl(3-5) take_drop_splice_before [of h 46 k ?ch "env_umem env"] take_drop_splice_after [of k ?ch h "env_umem env" 46] by (auto simp: hdrs_at_def)
  moreover have "tx_ready ?env (unat (x_xdp_seg_count ?a))" using assms(3) by (simp add: tx_ready_def)
  ultimately obtain env' where e: "eth_send_sctp ks ?env ?a = Some (env', 0)" "env_umem_base env' = ?b"
      "env_umem env' = splice (env_umem ?env) (h + 16) (word_bytes 2 (htons 52))" "hdrs_at env' h m (i\<lparr>ip_len := htons 52\<rparr>) c" "chan_inv (tx_chan (env_xdp env'))"
      "chan_items (tx_chan (env_xdp env')) = chan_items (tx_chan (env_xdp env)) @ tx_descs (x_xdp_segs ?a) (x_xdp_seg_lens ?a) 2"
    using eth_send_at [of ?env ?a h k m i c "htons 52" ks] by auto
  have "(x_xdp_segs a)[0 := of_nat h] = x_xdp_segs a" "(x_xdp_seg_lens a)[0 := 46] = x_xdp_seg_lens a"
    using assms(4) unfolding prepared_def by (metis list_update_id)+
  then have ds: "tx_descs (x_xdp_segs ?a) (x_xdp_seg_lens ?a) 2 = two_descs h k" using tx_two_descs [OF pl(6,7), of h k] by simp
  have "take 20 (drop k (env_umem env')) = ?ch"
    using pl(3-5) take_drop_splice_same [of k ?ch "env_umem env"] take_drop_splice_before [of k 20 "h + 16" "word_bytes 2 (htons 52)" "env_umem ?env"]
      take_drop_splice_after [of "h + 16" "word_bytes 2 (htons 52)" k "env_umem ?env" 20] by (auto simp: e(3))
  then have g: "gather (env_umem env') (two_descs h k) = frame_bytes m (i\<lparr>ip_len := htons 52\<rparr>) c ?ch"
    using gather_two [of h "env_umem env'" k m "i\<lparr>ip_len := htons 52\<rparr>" c ?ch] e(4) pl(1,3,4) by (simp add: hdrs_at_def e(3) umem_ok_def)
  have "x_placed env' ?a h k" using assms(1) pl(3,4) by (simp add: x_placed_def umem_ok_def e(2,3))
  moreover have "build_prefilled_mac_ip_sctp_init_hdr ks rnd env a = Some (rnd2, env', ?a, 0)"
    unfolding build_prefilled_mac_ip_sctp_init_hdr_def using r1(1) r2(1) put push e(1) by (simp add: init_chunk_def)
  moreover note e(4,5) e(6) [unfolded ds] g r2(2)
  ultimately show ?thesis using ds by blast
qed

section \<open>A new association\<close>

definition xdp_ip :: "u16 \<Rightarrow> u32 \<Rightarrow> u32 \<Rightarrow> ipv4_hdr" where
  "xdp_ip indent src dst = \<lparr>ip_ihl = 5, ip_ver = 4, ip_tos = 2, ip_len = 0, ip_indent = indent, ip_offset = 0, ip_ttl = 141, ip_proto = PROTO_SCTP,
     ip_check = 0, ip_src_addr = src, ip_dest_addr = dst\<rparr>"

definition xdp_cmn :: "u16 \<Rightarrow> u16 \<Rightarrow> sctp_common_hdr" where
  "xdp_cmn src dst = \<lparr>cmn_srcp = htons src, cmn_dstp = htons dst, cmn_tag = 0, cmn_check = 0\<rparr>"

lemma take_word_bytes: "m \<le> n \<Longrightarrow> take m (word_bytes n w) = word_bytes m w"
proof (induction n arbitrary: m w)
  case (Suc n)
  then show ?case by (cases m) simp_all
qed simp

lemma word_bytes_prefix: "length bs = 6 \<Longrightarrow> take 6 (word_bytes 8 (bytes_word bs :: u64)) = bs"
  using word_bytes_bytes_word [of bs, where 'a = 64] by (simp add: take_word_bytes)

lemma prefill_at:
  assumes "umem_ok env" "x_prefilled_umem_packet a = env_umem_base env + of_nat off" "off + 48 \<le> length (env_umem env)" "rnd_inv rnd"
    "length gw = 6" "length dev = 6"
  shows "\<exists>indent rnd' env'. prefill_sctp_mac_ip rnd env a (bytes_word gw) (bytes_word dev)
      = Some (rnd', env', a\<lparr>x_prefilled_umem_packet_len := 46, x_prefilled_umem_packet := env_umem_base env + of_nat (off + 2)\<rparr>, 0)
    \<and> rnd_inv rnd' \<and> env' = env\<lparr>env_umem := env_umem env'\<rparr> \<and> length (env_umem env') = length (env_umem env)
    \<and> hdrs_at env' (off + 2) \<lparr>mac_mac = gw @ dev, mac_type = htons ETHERTYPE_IP\<rparr>
        (xdp_ip indent (u_src_ip (a_ulp a)) (u_dst_ip (a_ulp a))) (xdp_cmn (ucast (u_src_port (a_ulp a))) (ucast (u_dst_port (a_ulp a))))"
proof -
  obtain ind rnd1 where r: "get_random_from_buffer_u32 rnd = Some (ind, rnd1)" "rnd_inv rnd1"
    using from_buffer_ok [OF assms(4), of 4, where 'a = 32] by (auto simp: from_buffer_eqs)
  have six: "take 6 (word_bytes 8 (bytes_word bs :: u64)) = bs" if "length bs = 6" for bs
    using that by (rule word_bytes_prefix)
  let ?m = "\<lparr>mac_mac = gw @ dev, mac_type = htons ETHERTYPE_IP\<rparr>" and ?i = "xdp_ip (ucast ind) (u_src_ip (a_ulp a)) (u_dst_ip (a_ulp a))"
    and ?c = "xdp_cmn (ucast (u_src_port (a_ulp a))) (ucast (u_dst_port (a_ulp a)))"
  let ?d = "[0, 0] @ enc_mac ?m @ enc_ipv4 ?i @ enc_cmn ?c"
  have m: "length (mac_mac ?m) = 12" using assms(5,6) by simp
  have d: "length ?d = 48" using length_enc_mac [OF m] by simp
  have put: "umem_put env (x_prefilled_umem_packet a) ?d = Some (env\<lparr>env_umem := splice (env_umem env) off ?d\<rparr>)"
    using umem_put_at [OF assms(1,2), of ?d] assms(3) d by simp
  have "take 48 (drop off (splice (env_umem env) off ?d)) = ?d" using take_drop_splice_same [of off ?d "env_umem env"] assms(3) d by simp
  then have "take 46 (drop 2 (take 48 (drop off (splice (env_umem env) off ?d)))) = take 46 (drop 2 ?d)" by simp
  then have h: "take 46 (drop (off + 2) (splice (env_umem env) off ?d)) = frame_bytes ?m ?i ?c []"
    using length_enc_mac [OF m] by (simp add: drop_take frame_bytes_def add.commute)
  have "prefill_sctp_mac_ip rnd env a (bytes_word gw) (bytes_word dev)
      = Some (rnd1, env\<lparr>env_umem := splice (env_umem env) off ?d\<rparr>,
          a\<lparr>x_prefilled_umem_packet_len := 46, x_prefilled_umem_packet := env_umem_base env + of_nat (off + 2)\<rparr>, 0)"
    unfolding prefill_sctp_mac_ip_def using r(1) put assms(2)
    by (simp add: six assms(5,6) xdp_ip_def [symmetric] xdp_cmn_def [symmetric] Let_def add.assoc add.commute [of 2])
  moreover have "length (splice (env_umem env) off ?d) = length (env_umem env)" using d assms(3) by simp
  ultimately show ?thesis using r(2) h m by (fastforce simp: hdrs_at_def)
qed

text \<open>The place of the headers and of the cursor of the first association of an environment.\<close>

abbreviation (input) first_hdrs :: nat where "first_hdrs \<equiv> 16773314"
abbreviation (input) first_cursor :: nat where "first_cursor \<equiv> 16773376"

text \<open>The allocations succeed and the interfaces have the addresses \<open>gw\<close> and \<open>dv\<close>.\<close>

definition libc_ok :: "libc \<Rightarrow> string \<Rightarrow> string \<Rightarrow> bytes \<Rightarrow> bytes \<Rightarrow> bool" where
  "libc_ok lc g d gw dv \<longleftrightarrow> (\<forall>n < 9. lc_malloc lc n) \<and> (\<forall>n < 2. inj_on (lc_aligned lc n) {..<256} \<and> NULL \<notin> lc_aligned lc n ` {..<256})
     \<and> lc_ifmac lc g = Some gw \<and> lc_ifmac lc d = Some dv \<and> length gw = 6 \<and> length dv = 6"

lemma libc_allocator:
  assumes "libc_ok lc g d gw dv" "n < 2"
  shows "\<exists>rb. create_allocator True True (lc_fresh lc) (lc_aligned lc n) (lc_line lc) 64 256 = Some (Some rb) \<and> rb_inv rb \<and> rb_cap rb = 256
    \<and> rb_items rb = map (\<lambda>i. (lc_aligned lc n i, cacheline_round (lc_line lc) 64)) [0..<256]"
  using create_allocator_items [of 8 "lc_aligned lc n" "lc_fresh lc" "lc_line lc" 64] assms by (force simp: libc_ok_def)

lemma assoc_created:
  assumes "kpnet_env_init True True True (Some (xsk, base, umem)) True = Some env" "0 < unat base" "unat base + 16777216 < 2 ^ 64"
    "length umem = 16777216" and lc: "libc_ok lc g d gw dv" and "rnd_inv rnd"
  shows "\<exists>rnd' env' a indent. sctp_assoc_create lc rnd env sip sport dip dport st (Some g) (Some d)
      = Some (rnd', env', Some a) \<and> rnd_inv rnd' \<and> slab_at env' 4 \<and> env_umem_base env' = base \<and> length (env_umem env') = 16777216 \<and> env_xdp env' = xsk
    \<and> x_prefilled_umem_packet a = base + of_nat first_hdrs \<and> x_prefilled_umem_packet_len a = 46
    \<and> hdrs_at env' first_hdrs \<lparr>mac_mac = gw @ dv, mac_type = htons ETHERTYPE_IP\<rparr> (xdp_ip indent sip dip) (xdp_cmn sport dport)
    \<and> length (x_xdp_segs a) = 16 \<and> length (x_xdp_seg_lens a) = 16 \<and> a_mtu a = 1454 \<and> a_status a = st
    \<and> a_prefilled_ring a = null_ring \<and> a_tx_ring a = null_ring
    \<and> a_ulp a = (lc_ulp lc)\<lparr>u_src_ip := sip, u_dst_ip := dip, u_src_port := ucast sport, u_dst_port := ucast dport,
                              u_src_arwnd := 65535, u_src_os := 32, u_src_mis := 32\<rparr>"
proof -
  have mac: "lc_ifmac lc g = Some gw" "lc_ifmac lc d = Some dv" "length gw = 6" "length dv = 6"
    and ml: "lc_malloc lc 0" "lc_malloc lc 1" "lc_malloc lc 2"
    using lc by (simp_all add: libc_ok_def)
  obtain rb where al: "create_allocator True True (lc_fresh lc) (lc_aligned lc 0) (lc_line lc) 64 256 = Some (Some rb)"
    using libc_allocator [OF lc, of 0] by auto
  obtain e1 where e1: "env_slab_alloc env = Some (e1, base + of_nat 16773120)" "slab_at e1 1" "env_umem_base e1 = base" "env_umem e1 = umem" "env_xdp e1 = xsk"
    using slab_first [OF assms(1)] by blast
  obtain e2 where e2: "env_slab_alloc e1 = Some (e2, base + of_nat 16773184)" "slab_at e2 2" "env_umem_base e2 = base" "env_umem e2 = umem" "env_xdp e2 = xsk"
    using slab_next [OF e1(2)] e1(3-5) assms(3) by (auto simp: numeral_2_eq_2)
  obtain e3 where e3: "env_slab_alloc e2 = Some (e3, base + of_nat 16773248)" "slab_at e3 3" "env_umem_base e3 = base" "env_umem e3 = umem" "env_xdp e3 = xsk"
    using slab_next [OF e2(2)] e2(3-5) assms(3) by auto
  obtain e4 where e4: "env_slab_alloc e3 = Some (e4, base + of_nat 16773312)" "slab_at e4 4" "env_umem_base e4 = base" "env_umem e4 = umem" "env_xdp e4 = xsk"
    using slab_next [OF e3(2)] e3(3-5) assms(3) by auto
  have nz: "base + of_nat k \<noteq> 0" if "k \<le> 16777216" for k
  proof -
    have "unat (base + of_nat k) = unat base + k" using that assms(3) by (simp add: unat_word_ariths unat_of_nat)
    then show ?thesis using assms(2) by (metis add_is_0 less_not_refl unat_0)
  qed
  define ulp where "ulp = (lc_ulp lc)\<lparr>u_src_ip := sip, u_dst_ip := dip, u_src_port := ucast sport, u_dst_port := ucast dport,
                              u_src_arwnd := 65535, u_src_os := 32, u_src_mis := 32\<rparr>"
  define fr where "fr = (lc_frame lc)\<lparr>fr_state := Some ((lc_meta lc)\<lparr>m_state := of_nat (status_code st), m_src_ip := sip, m_dst_ip := dip, m_src_port := ucast sport,
      m_dst_port := ucast dport, m_src_arwnd := 65535, m_src_os := 32, m_src_mis := 32, m_gateway := gw, m_dev := dv\<rparr>), fr_sync := None, fr_plen := 0\<rparr>"
  obtain id rnd0 where rid: "get_random_u16 rnd = (id, rnd0)" by fastforce
  have rnd0: "rnd_inv rnd0" using random_word_inv [OF assms(6), of 2, where 'a = 16] rid by (simp add: get_random_u16_def)
  define a0 where "a0 = (assoc_zero ulp)\<lparr>x_allocator_64 := Some rb,
      a_bundling := (case create_ringbuf (lc_malloc lc 3) (lc_malloc lc 4) (fst \<circ> lc_fresh lc) 256 of None \<Rightarrow> null_ring | Some rb \<Rightarrow> rb), a_id := id,
      a_base := Some fr, a_status := st, a_os := htons 16, a_mis := htons 16, a_mtu := 1454, x_prefilled_umem_packet := base + 16773312\<rparr>"
  have "umem_ok e4" "x_prefilled_umem_packet a0 = env_umem_base e4 + of_nat 16773312" "16773312 + 48 \<le> length (env_umem e4)"
    using assms(2-4) by (simp_all add: umem_ok_def a0_def e4)
  from prefill_at [OF this rnd0 mac(3,4)] obtain indent rnd' env' where p: "prefill_sctp_mac_ip rnd0 e4 a0 (bytes_word gw) (bytes_word dv)
      = Some (rnd', env', a0\<lparr>x_prefilled_umem_packet_len := 46, x_prefilled_umem_packet := env_umem_base e4 + of_nat (16773312 + 2)\<rparr>, 0)"
      "rnd_inv rnd'" "env' = e4\<lparr>env_umem := env_umem env'\<rparr>" "length (env_umem env') = length (env_umem e4)"
      "hdrs_at env' (16773312 + 2) \<lparr>mac_mac = gw @ dv, mac_type = htons ETHERTYPE_IP\<rparr>
        (xdp_ip indent (u_src_ip (a_ulp a0)) (u_dst_ip (a_ulp a0))) (xdp_cmn (ucast (u_src_port (a_ulp a0))) (ucast (u_dst_port (a_ulp a0))))" by blast
  have cr: "sctp_assoc_create lc rnd env sip sport dip dport st (Some g) (Some d)
      = Some (rnd', env', Some (a0\<lparr>x_prefilled_umem_packet_len := 46, x_prefilled_umem_packet := env_umem_base e4 + of_nat (16773312 + 2)\<rparr>))"
    unfolding sctp_assoc_create_def ifmac_into_def using e1(1) e2(1) e3(1) e4(1) mac(1,2) ml al nz [of 16773120] nz [of 16773184] nz [of 16773248] p(1) rid
    by (simp add: ulp_def [symmetric] fr_def [symmetric] a0_def [symmetric])
  have "slab_at env' 4" "env_umem_base env' = base" "env_xdp env' = xsk"
    using e4(2,3,5) by (subst p(3), simp add: slab_at_def)+
  note facts = this p(2,4,5) assms(4) e4(3,4)
  show ?thesis
    unfolding cr
    by (intro exI [of _ rnd'] exI [of _ env'] exI [of _ indent] exI conjI, rule refl) (use facts in \<open>simp_all add: a0_def assoc_zero_def ulp_def\<close>)
qed

end
