(* ===== verification/Client.thy ===== *)
theory Client
  imports Transmit Ringtimer Handshake
begin

text \<open>
  The client program \<^verbatim>\<open>src/create_client.c\<close>: it opens the environment, creates an association, sends an INIT and waits on the
  T1 timer, which sends the INIT again with growing pauses until it gives up. What follows the loop in the file is
  commented out, but for a clean-up that releases pointers never set.
\<close>

section \<open>State\<close>

record client =
  cl_env :: kpnet_env
  cl_assoc :: xdp_association
  cl_heap :: cb_heap
  cl_timer :: ringtimer
  cl_retrans :: u64
  cl_t1 :: u64

abbreviation (input) SCTP_T1_INIT_EXPIRE :: u64 where "SCTP_T1_INIT_EXPIRE \<equiv> 1"
abbreviation (input) SCTP_TIMER_STEP :: u64 where "SCTP_TIMER_STEP \<equiv> 1000"
abbreviation (input) SCTP_ASSOC_MAX_RETRANS :: u64 where "SCTP_ASSOC_MAX_RETRANS \<equiv> 10"

section \<open>Start\<close>

text \<open>
  \<open>envo\<close> is the environment that \<^verbatim>\<open>kpnet_env_init\<close> returned (\<open>None\<close>: NULL), and the result \<open>Some None\<close> its failure. A failed
  creation of the association leads to the clean-up, which closes and frees uninitialised pointers; a timer
  or an allocator that is NULL is dereferenced. \<open>client_if\<close> and \<open>server_if\<close> are the names of the interfaces. The length
  of an event, which the code stores with each block and asks the system for (\<^verbatim>\<open>CACHELINE_SIZE\<close>), is taken as 64.
\<close>

definition client_open ::
  "u32 list \<Rightarrow> libc \<Rightarrow> string \<Rightarrow> string \<Rightarrow> random_state \<Rightarrow> kpnet_env option \<Rightarrow> (random_state \<times> client option) option" where
  "client_open ks lc client_if server_if rnd envo =
     (case envo of
        None \<Rightarrow> Some (rnd, None)
      | Some env \<Rightarrow>
          do { let (src_port, rnd) = get_random_u16 rnd;
               (rnd, env, ao) \<leftarrow> sctp_assoc_create lc rnd env 0x0201A8C0 src_port 0x0301A8C0 80 SCTP_INIT_SENT (Some client_if) (Some server_if);
               a \<leftarrow> ao;
               let a = sctp_prepare_packet env a;
               (env, cursor) \<leftarrow> env_slab_alloc env;
               let a = a\<lparr>x_umem_hdrs_cursor := cursor, a_status := SCTP_COOKIE_WAIT\<rparr>;
               events \<leftarrow> create_allocator (lc_malloc lc 5) (lc_malloc lc 6) (lc_fresh lc) (lc_aligned lc 1) (lc_line lc) 64 256;
               allocator \<leftarrow> events;
               timer \<leftarrow> create_ringtimer (lc_malloc lc 7) (lc_malloc lc 8) (5 * 60) allocator;
               (rnd, env, a, _) \<leftarrow> build_prefilled_mac_ip_sctp_init_hdr ks rnd env a;
               (h, timer, _) \<leftarrow> insert_ringtimer SCTP_T1_INIT_EXPIRE 1 Map.empty timer;
               Some (rnd, Some \<lparr>cl_env = env, cl_assoc = a, cl_heap = h, cl_timer = timer, cl_retrans = 0, cl_t1 = 1\<rparr>) })"

section \<open>The retransmission loop\<close>

definition client_signal :: "u32 list \<Rightarrow> i32 \<Rightarrow> client \<Rightarrow> client option" where
  "client_signal ks s c =
     (if s = 1
      then do { let t1 = (if cl_t1 c * 2 < 60 then cl_t1 c * 2 else 60);
                (h, timer, _) \<leftarrow> insert_ringtimer SCTP_T1_INIT_EXPIRE t1 (cl_heap c) (cl_timer c);
                (env, _) \<leftarrow> eth_send_sctp ks (cl_env c) (cl_assoc c);
                Some (c\<lparr>cl_t1 := t1, cl_heap := h, cl_timer := timer, cl_env := env, cl_retrans := cl_retrans c + 1\<rparr>) }
      else Some c)"

text \<open>The signals of a tick are handled from the last to the first.\<close>

fun client_signals :: "u32 list \<Rightarrow> i32 list \<Rightarrow> client \<Rightarrow> client option" where
  "client_signals ks [] c = Some c"
| "client_signals ks (s # ss) c = do { c \<leftarrow> client_signal ks s c; client_signals ks ss c }"

definition client_tick :: "u32 list \<Rightarrow> client \<Rightarrow> client option" where
  "client_tick ks c =
     do { (h, timer, signals) \<leftarrow> tick_ringtimer (cl_heap c) (cl_timer c);
          client_signals ks (rev signals) (c\<lparr>cl_heap := h, cl_timer := timer\<rparr>) }"

lemma catch_up_less: "(1000 :: u64) \<le> d \<Longrightarrow> unat (d - 1000) < unat d" "(1000 :: u64) \<le> d \<Longrightarrow> unat (d - 1000) = unat d - 1000"
  by (simp_all add: unat_sub word_le_nat_alt)

text \<open>The ticks that are due at the time \<open>now\<close>; \<open>global\<close> is the time up to which the wheel was turned.\<close>

function client_catch_up :: "u32 list \<Rightarrow> u64 \<Rightarrow> u64 \<Rightarrow> client \<Rightarrow> (u64 \<times> client) option" where
  "client_catch_up ks now global c =
     (if now - global \<ge> SCTP_TIMER_STEP
      then do { c \<leftarrow> client_tick ks c; client_catch_up ks now (global + SCTP_TIMER_STEP) c }
      else Some (global, c))"
  by pat_completeness auto

termination
proof (relation "measure (\<lambda>(ks, now, global, c). unat (now - global))", goal_cases)
  case (2 ks now global c c')
  then show ?case using catch_up_less(1) [of "now - global"] by (simp add: algebra_simps)
qed simp

text \<open>The outer loop over the readings of the clock; the flag says whether the client gave up.\<close>

fun client_loop :: "u32 list \<Rightarrow> u64 list \<Rightarrow> u64 \<Rightarrow> client \<Rightarrow> (client \<times> bool) option" where
  "client_loop ks readings global c =
     (if cl_retrans c > SCTP_ASSOC_MAX_RETRANS then Some (c, True)
      else case readings of
        [] \<Rightarrow> Some (c, False)
      | now # readings \<Rightarrow> do { (global, c) \<leftarrow> client_catch_up ks now global c; client_loop ks readings global c })"

section \<open>The frame is sent again\<close>

text \<open>
  \<open>sends c h k fr\<close>: the packet of the client lies at the offsets \<open>h\<close> and \<open>k\<close> of the shared memory, and what the network card
  makes of its two descriptors is \<open>fr\<close>.
\<close>

abbreviation tx_items :: "client \<Rightarrow> xdp_desc list" where
  "tx_items c \<equiv> chan_items (tx_chan (env_xdp (cl_env c)))"

definition sends :: "kpnet_env \<Rightarrow> xdp_association \<Rightarrow> nat \<Rightarrow> nat \<Rightarrow> bytes \<Rightarrow> bool" where
  "sends env a h k fr \<longleftrightarrow> (\<exists>m i c. x_placed env a h k \<and> hdrs_at env h m i c \<and> ip_len i = htons 52 \<and> a_remain_plen a = a_mtu a - 20
     \<and> x_xdp_seg_count a = 2 \<and> tx_descs (x_xdp_segs a) (x_xdp_seg_lens a) 2 = two_descs h k \<and> chan_inv (tx_chan (env_xdp env))
     \<and> fr = frame_bytes m i c (take 20 (drop k (env_umem env))))"

lemma sends_gather:
  assumes "sends env a h k fr"
  shows "gather (env_umem env) (two_descs h k) = fr"
proof -
  obtain m i c where s: "x_placed env a h k" "hdrs_at env h m i c" "fr = frame_bytes m i c (take 20 (drop k (env_umem env)))"
    using assms by (auto simp: sends_def)
  then show ?thesis using gather_two [of h "env_umem env" k m i c "take 20 (drop k (env_umem env))"] by (simp add: x_placed_def hdrs_at_def umem_ok_def)
qed

lemma sends_again:
  assumes "sends env a h k fr" "length (chan_items (tx_chan (env_xdp env))) + 2 \<le> 4096"
  shows "\<exists>env'. eth_send_sctp ks env a = Some (env', 0) \<and> sends env' a h k fr
    \<and> chan_items (tx_chan (env_xdp env')) = chan_items (tx_chan (env_xdp env)) @ two_descs h k"
proof -
  obtain m i c where s: "x_placed env a h k" "hdrs_at env h m i c" "ip_len i = htons 52" "a_remain_plen a = a_mtu a - 20"
      "x_xdp_seg_count a = 2" "tx_descs (x_xdp_segs a) (x_xdp_seg_lens a) 2 = two_descs h k" "chan_inv (tx_chan (env_xdp env))"
      "fr = frame_bytes m i c (take 20 (drop k (env_umem env)))"
    using assms(1) by (auto simp: sends_def)
  have L: "htons 52 = htons (ucast (a_mtu a - a_remain_plen a + 32))" using s(4) by simp
  have n: "tx_ready env (unat (x_xdp_seg_count a))" "0 < x_xdp_seg_count a" "x_xdp_seg_count a \<le> 16"
    using s(5,7) assms(2) by (simp_all add: tx_ready_def)
  obtain env' where e: "eth_send_sctp ks env a = Some (env', 0)" "env_umem_base env' = env_umem_base env"
      "env_umem env' = splice (env_umem env) (h + 16) (word_bytes 2 (htons 52))" "hdrs_at env' h m (i\<lparr>ip_len := htons 52\<rparr>) c"
      "chan_inv (tx_chan (env_xdp env'))" "chan_items (tx_chan (env_xdp env')) = chan_items (tx_chan (env_xdp env)) @ two_descs h k"
    using eth_send_at [OF s(1,2) n L, of ks] s(5,6) by auto
  have i: "i\<lparr>ip_len := htons 52\<rparr> = i" using s(3) by simp
  have pl: "h + 46 \<le> length (env_umem env)" "k + 20 \<le> length (env_umem env)" "h + 46 \<le> k \<or> k + 20 \<le> h" using s(1) by (simp_all add: x_placed_def)
  have "take 20 (drop k (env_umem env')) = take 20 (drop k (env_umem env))"
    using pl take_drop_splice_before [of k 20 "h + 16" "word_bytes 2 (htons 52)" "env_umem env"]
      take_drop_splice_after [of "h + 16" "word_bytes 2 (htons 52)" k "env_umem env" 20] by (auto simp: e(3))
  moreover have "x_placed env' a h k" using s(1) pl by (simp add: x_placed_def umem_ok_def e(2,3))
  ultimately have "sends env' a h k fr"
    unfolding sends_def using s(3-6,8) e(4,5) i by (intro exI [of _ m] exI [of _ i] exI [of _ c]) simp
  then show ?thesis using e(1,6) by blast
qed

section \<open>The schedule of T1\<close>

fun client_ticks :: "u32 list \<Rightarrow> nat \<Rightarrow> client \<Rightarrow> client option" where
  "client_ticks ks 0 c = Some c"
| "client_ticks ks (Suc n) c = do { c \<leftarrow> client_tick ks c; client_ticks ks n c }"

lemma client_ticks_add: "client_ticks ks (m + n) c = do { c \<leftarrow> client_ticks ks m c; client_ticks ks n c }"
  by (induction m arbitrary: c) (auto split: Option.bind_splits)

text \<open>\<open>armed c now n\<close>: the wheel was turned \<open>now\<close> times, and its only timer fires at the \<open>n\<close>-th tick from now.\<close>

definition armed :: "client \<Rightarrow> nat \<Rightarrow> nat \<Rightarrow> bool" where
  "armed c now n \<longleftrightarrow> 0 < n \<and> (\<exists>h ring. wheel_ticks n (cl_heap c) (cl_timer c) = Some (h, ring, replicate (n - 1) [] @ [[1]])
     \<and> wheel_idle h ring \<and> rt_max ring = 300 \<and> unat (rt_current ring) = (now + n) mod 300 \<and> rb_items (rt_allocator ring) \<noteq> [])"

lemma armed_quiet:
  assumes "armed c now (Suc n)" "0 < n"
  shows "\<exists>c'. client_tick ks c = Some c' \<and> armed c' (Suc now) n \<and> c' = c\<lparr>cl_heap := cl_heap c', cl_timer := cl_timer c'\<rparr>"
proof -
  obtain h ring where w: "wheel_ticks (Suc n) (cl_heap c) (cl_timer c) = Some (h, ring, [] # replicate (n - 1) [] @ [[1]])"
      "wheel_idle h ring" "rt_max ring = 300" "unat (rt_current ring) = (Suc now + n) mod 300" "rb_items (rt_allocator ring) \<noteq> []"
    using assms by (cases n) (auto simp: armed_def simp del: wheel_ticks.simps)
  from w(1) obtain h' ring' where t: "tick_ringtimer (cl_heap c) (cl_timer c) = Some (h', ring', [])"
      "wheel_ticks n h' ring' = Some (h, ring, replicate (n - 1) [] @ [[1]])"
    by (auto split: Option.bind_splits)
  let ?c = "c\<lparr>cl_heap := h', cl_timer := ring'\<rparr>"
  have "client_tick ks c = Some ?c" using t(1) by (simp add: client_tick_def)
  moreover have "armed ?c (Suc now) n" using w(2-5) t(2) assms(2) by (auto simp: armed_def)
  ultimately show ?thesis by fastforce
qed

lemma armed_before:
  assumes "armed c now n" "k < n"
  shows "\<exists>c'. client_ticks ks k c = Some c' \<and> armed c' (now + k) (n - k) \<and> c' = c\<lparr>cl_heap := cl_heap c', cl_timer := cl_timer c'\<rparr>"
  using assms
proof (induction k arbitrary: c now n)
  case (Suc k)
  obtain n' where n: "n = Suc n'" "0 < n'" using Suc.prems(2) by (cases n) auto
  obtain c1 where c1: "client_tick ks c = Some c1" "armed c1 (Suc now) n'" "c1 = c\<lparr>cl_heap := cl_heap c1, cl_timer := cl_timer c1\<rparr>"
    using armed_quiet n Suc.prems(1) by blast
  obtain c2 where c2: "client_ticks ks k c1 = Some c2" "armed c2 (Suc now + k) (n' - k)" "c2 = c1\<lparr>cl_heap := cl_heap c2, cl_timer := cl_timer c2\<rparr>"
    using Suc.IH [OF c1(2)] Suc.prems(2) n by auto
  have "c2 = c\<lparr>cl_heap := cl_heap c2, cl_timer := cl_timer c2\<rparr>" by (subst c2(3), subst c1(3)) simp
  then show ?case using c1(1) c2(1,2) n by auto
qed (auto simp: armed_def)

text \<open>The expiry: the timer is set again for twice the time, at most a minute, and the frame is sent again.\<close>

definition next_t1 :: "nat \<Rightarrow> nat" where
  "next_t1 t = min (2 * t) 60"

lemma next_t1_word:
  assumes "t \<le> 60"
  shows "(if of_nat t * 2 < (60 :: u64) then of_nat t * 2 else 60 :: u64) = of_nat (next_t1 t)" "unat (of_nat (next_t1 t) :: u64) = next_t1 t"
proof -
  have "unat (of_nat t * 2 :: u64) = 2 * t" using assms by (simp add: unat_word_ariths unat_of_nat)
  then show "(if of_nat t * 2 < (60 :: u64) then of_nat t * 2 else 60 :: u64) = of_nat (next_t1 t)"
    by (auto simp: word_less_nat_alt next_t1_def min_def mult.commute)
  show "unat (of_nat (next_t1 t) :: u64) = next_t1 t" by (simp add: unat_of_nat next_t1_def)
qed

lemma wheel_delay_pos: "0 < t \<Longrightarrow> 0 < wheel_delay m c t"
  by (simp add: wheel_delay_def)

lemma armed_fires:
  assumes "armed c now 1" "sends (cl_env c) (cl_assoc c) h k fr" "length (tx_items c) + 2 \<le> 4096" "cl_t1 c = of_nat t" "0 < t" "t \<le> 60"
  shows "\<exists>c'. client_tick ks c = Some c' \<and> armed c' (Suc now) (wheel_delay 300 (Suc now mod 300) (next_t1 t)) \<and> cl_t1 c' = of_nat (next_t1 t)
    \<and> cl_retrans c' = cl_retrans c + 1 \<and> sends (cl_env c') (cl_assoc c') h k fr \<and> tx_items c' = tx_items c @ two_descs h k"
proof -
  obtain h1 r1 where w: "tick_ringtimer (cl_heap c) (cl_timer c) = Some (h1, r1, [1])" "wheel_idle h1 r1" "rt_max r1 = 300"
      "unat (rt_current r1) = Suc now mod 300" "rb_items (rt_allocator r1) \<noteq> []"
    using assms(1) by (auto simp: armed_def split: Option.bind_splits)
  note t = next_t1_word [OF assms(6)]
  let ?n = "wheel_delay 300 (Suc now mod 300) (next_t1 t)"
  have "1 \<le> unat (of_nat (next_t1 t) :: u64)" "unat (rt_current r1) + unat (of_nat (next_t1 t) :: u64) - 1 < 2 ^ 32"
      "?n = wheel_delay (unat (rt_max r1)) (unat (rt_current r1)) (unat (of_nat (next_t1 t) :: u64))" and pos: "0 < ?n"
    using assms(5) mod_less_divisor [of 300 "Suc now"] unfolding t(2) w(3,4) by (simp_all add: next_t1_def wheel_delay_pos)
  from insert_idle [OF w(2,5) _ this(1-3), of 1] obtain h2 r2 h3 r3
    where i: "insert_ringtimer 1 (of_nat (next_t1 t)) h1 r1 = Some (h2, r2, True)" "wheel_ticks ?n h2 r2 = Some (h3, r3, replicate (?n - 1) [] @ [[1]])"
      "wheel_idle h3 r3" "rt_max r3 = 300" "unat (rt_current r3) = (Suc now + ?n) mod 300"
      "mset (map fst (rb_items (rt_allocator r3))) = mset (map fst (rb_items (rt_allocator r1)))"
    by (auto simp: w(3,4) mod_simps)
  have free: "rb_items (rt_allocator r3) \<noteq> []" using i(6) w(5) by auto
  obtain env' where e: "eth_send_sctp ks (cl_env c) (cl_assoc c) = Some (env', 0)" "sends env' (cl_assoc c) h k fr"
      "chan_items (tx_chan (env_xdp env')) = tx_items c @ two_descs h k"
    using sends_again [OF assms(2,3)] by blast
  let ?c = "c\<lparr>cl_heap := h2, cl_timer := r2, cl_t1 := of_nat (next_t1 t), cl_env := env', cl_retrans := cl_retrans c + 1\<rparr>"
  have "client_tick ks c = Some ?c"
    using w(1) i(1) e(1) t(1) by (simp add: client_tick_def client_signal_def assms(4) Let_def split del: if_split cong: if_cong)
  moreover have "armed ?c (Suc now) ?n" using i(2-5) free pos by (simp add: armed_def)
  ultimately show ?thesis using e(2,3) by fastforce
qed

text \<open>
  The numbers of the ticks at which T1 expires, when \<open>now\<close> ticks have passed and the timer is set to \<open>t\<close>: \<open>wheel_delay\<close>
  is what the wheel makes of the time.
\<close>

fun t1_expiries :: "nat \<Rightarrow> nat \<Rightarrow> nat \<Rightarrow> nat list" where
  "t1_expiries 0 now t = []"
| "t1_expiries (Suc j) now t = (let e = now + wheel_delay 300 (now mod 300) t in e # t1_expiries j e (next_t1 t))"

lemma t1_expiries_numeral:
  "t1_expiries (numeral j) now t
     = (now + wheel_delay 300 (now mod 300) t) # t1_expiries (pred_numeral j) (now + wheel_delay 300 (now mod 300) t) (next_t1 t)"
  by (subst numeral_eq_Suc [of j]) (simp only: t1_expiries.simps Let_def)

lemma t1_expiries_ge: "x \<in> set (t1_expiries j now t) \<Longrightarrow> now \<le> x"
  by (induction j now t rule: t1_expiries.induct) (fastforce simp: Let_def)+

definition expired :: "nat list \<Rightarrow> nat \<Rightarrow> nat" where
  "expired es n = length (filter (\<lambda>e. e \<le> n) es)"

lemma expired_before: "n < now \<Longrightarrow> expired (t1_expiries j now t) n = 0"
  using t1_expiries_ge [of _ j now t] by (fastforce simp: expired_def filter_empty_conv)

lemma client_schedule:
  assumes "armed c now (wheel_delay 300 (now mod 300) t)" "sends (cl_env c) (cl_assoc c) h k fr" "length (tx_items c) + 2 * j \<le> 4096"
    "cl_t1 c = of_nat t" "0 < t" "t \<le> 60" "now + N \<le> last (now # t1_expiries j now t)"
  shows "\<exists>c'. client_ticks ks N c = Some c' \<and> cl_retrans c' = cl_retrans c + of_nat (expired (t1_expiries j now t) (now + N))
    \<and> sends (cl_env c') (cl_assoc c') h k fr
    \<and> tx_items c' = tx_items c @ concat (replicate (expired (t1_expiries j now t) (now + N)) (two_descs h k))"
  using assms
proof (induction j arbitrary: c now t N)
  case 0
  then show ?case by (simp add: expired_def)
next
  case (Suc j)
  let ?d = "wheel_delay 300 (now mod 300) t"
  let ?e = "now + ?d"
  have d: "0 < ?d" using Suc.prems(5) by (rule wheel_delay_pos)
  show ?case
  proof (cases "N < ?d")
    case True
    obtain c' where c': "client_ticks ks N c = Some c'" "c' = c\<lparr>cl_heap := cl_heap c', cl_timer := cl_timer c'\<rparr>"
      using armed_before [OF Suc.prems(1) True] by blast
    have same: "cl_env c' = cl_env c" "cl_assoc c' = cl_assoc c" "cl_retrans c' = cl_retrans c" by (subst c'(2), simp)+
    have "expired (t1_expiries (Suc j) now t) (now + N) = 0"
      using True expired_before [of "now + N" ?e j] by (simp add: Let_def expired_def)
    then show ?thesis using c'(1) same Suc.prems(2) by simp
  next
    case False
    obtain c1 where c1: "client_ticks ks (?d - 1) c = Some c1" "armed c1 (now + (?d - 1)) (?d - (?d - 1))" "c1 = c\<lparr>cl_heap := cl_heap c1, cl_timer := cl_timer c1\<rparr>"
      using armed_before [OF Suc.prems(1), of "?d - 1"] d by auto
    have same: "cl_env c1 = cl_env c" "cl_assoc c1 = cl_assoc c" "cl_retrans c1 = cl_retrans c" "cl_t1 c1 = cl_t1 c" by (subst c1(3), simp)+
    have one: "?d - (?d - 1) = 1" "Suc (now + (?d - 1)) = ?e" using d by simp_all
    obtain c2 where c2: "client_tick ks c1 = Some c2" "armed c2 ?e (wheel_delay 300 (?e mod 300) (next_t1 t))" "cl_t1 c2 = of_nat (next_t1 t)"
        "cl_retrans c2 = cl_retrans c + 1" "sends (cl_env c2) (cl_assoc c2) h k fr" "tx_items c2 = tx_items c @ two_descs h k"
      using armed_fires [OF c1(2) [unfolded one(1)], of h k fr t ks] Suc.prems(2-6) unfolding same one(2) by fastforce
    have "0 < next_t1 t" "next_t1 t \<le> 60" using Suc.prems(5) by (simp_all add: next_t1_def)
    moreover have "length (tx_items c2) + 2 * j \<le> 4096" using Suc.prems(3) c2(6) by (simp add: two_descs_def)
    moreover have "?e + (N - ?d) \<le> last (?e # t1_expiries j ?e (next_t1 t))" using Suc.prems(7) False by (simp add: Let_def)
    ultimately obtain c' where c': "client_ticks ks (N - ?d) c2 = Some c'"
        "cl_retrans c' = cl_retrans c2 + of_nat (expired (t1_expiries j ?e (next_t1 t)) (?e + (N - ?d)))" "sends (cl_env c') (cl_assoc c') h k fr"
        "tx_items c' = tx_items c2 @ concat (replicate (expired (t1_expiries j ?e (next_t1 t)) (?e + (N - ?d))) (two_descs h k))"
      using Suc.IH [OF c2(2,5) _ c2(3)] by blast
    have N: "N = (?d - 1) + Suc (N - ?d)" "?e + (N - ?d) = now + N" using False d by simp_all
    have "client_ticks ks N c = Some c'" by (subst N(1), subst client_ticks_add) (use c1(1) c2(1) c'(1) in simp)
    moreover have "expired (t1_expiries (Suc j) now t) (now + N) = Suc (expired (t1_expiries j ?e (next_t1 t)) (?e + (N - ?d)))"
      using False unfolding N(2) by (simp add: Let_def expired_def)
    ultimately show ?thesis using c'(2-4) c2(4,6) by simp
  qed
qed

section \<open>The start\<close>

text \<open>What the surroundings of the client provide: memory for the packets, room in the transmit ring, free timer nodes.\<close>

definition events_ready :: "ringbuf \<Rightarrow> bool" where
  "events_ready al \<longleftrightarrow> rb_inv al \<and> rb_items al \<noteq> [] \<and> rb_count al \<le> rb_cap al
     \<and> distinct (map fst (rb_items al)) \<and> NULL \<notin> set (map fst (rb_items al))"

lemma libc_events:
  assumes "libc_ok lc g d gw dv"
  shows "\<exists>al. create_allocator True True (lc_fresh lc) (lc_aligned lc 1) (lc_line lc) 64 256 = Some (Some al) \<and> events_ready al"
proof -
  obtain al where al: "create_allocator True True (lc_fresh lc) (lc_aligned lc 1) (lc_line lc) 64 256 = Some (Some al)" "rb_inv al" "rb_cap al = 256"
      "rb_items al = map (\<lambda>i. (lc_aligned lc 1 i, cacheline_round (lc_line lc) 64)) [0..<256]"
    using libc_allocator [OF assms, of 1] by auto
  have "rb_count al = 256" using length_rb_items [of al] by (simp add: al(4))
  then have "events_ready al"
    unfolding events_ready_def al(4) using assms al(2,3) by (simp add: libc_ok_def o_def distinct_map atLeast0LessThan)
  then show ?thesis using al(1) by blast
qed

lemma events_armed:
  assumes "events_ready al"
  shows "\<exists>timer h ring. create_ringtimer True True (5 * 60) al = Some timer \<and> insert_ringtimer 1 1 Map.empty timer = Some (h, ring, True)
    \<and> (\<forall>c. cl_heap c = h \<longrightarrow> cl_timer c = ring \<longrightarrow> armed c 0 1)"
proof -
  let ?w = "\<lparr>rt_timers = replicate 300 NULL, rt_current = 0, rt_max = 300, rt_allocator = al\<rparr>"
  have "wheel_rep Map.empty ?w (replicate 300 [])"
    using assms by (simp add: events_ready_def wheel_rep_def links_def slot_head_def slots_disjoint_def alloc_room_def sum_list_replicate)
  then have idle: "wheel_idle Map.empty ?w" unfolding wheel_idle_def by fastforce
  have items: "rb_items (rt_allocator ?w) \<noteq> []" using assms by (simp add: events_ready_def)
  obtain h1 r1 h2 r2 where i: "insert_ringtimer 1 1 Map.empty ?w = Some (h1, r1, True)" "wheel_ticks 1 h1 r1 = Some (h2, r2, [[1]])"
      "wheel_idle h2 r2" "rt_max r2 = 300" "unat (rt_current r2) = 1"
      "mset (map fst (rb_items (rt_allocator r2))) = mset (map fst (rb_items (rt_allocator ?w)))"
    using insert_idle [OF idle items, of 1 1 1] by (auto simp: wheel_delay_def)
  have "rb_items (rt_allocator r2) \<noteq> []" using i(6) items by auto
  then have "armed c 0 1" if "cl_heap c = h1" "cl_timer c = r1" for c
    using i(2-5) that by (simp add: armed_def)
  moreover have "create_ringtimer True True (5 * 60) al = Some ?w" by (simp add: create_ringtimer_def)
  ultimately show ?thesis using i(1) by blast
qed

definition client_ulp :: "libc \<Rightarrow> u16 \<Rightarrow> sctp_ulp_config" where
  "client_ulp lc sport = (lc_ulp lc)\<lparr>u_src_ip := 0x0201A8C0, u_dst_ip := 0x0301A8C0, u_src_port := ucast sport, u_dst_port := ucast (80 :: u16),
     u_src_arwnd := 65535, u_src_os := 32, u_src_mis := 32\<rparr>"

text \<open>The first frame of the client: the headers in one block of the shared memory, the INIT chunk in another.\<close>

definition client_frame :: "bytes \<Rightarrow> bytes \<Rightarrow> libc \<Rightarrow> u16 \<Rightarrow> u16 \<Rightarrow> u32 \<Rightarrow> u32 \<Rightarrow> bytes" where
  "client_frame gw dv lc sport indent tag tsn = frame_bytes \<lparr>mac_mac = gw @ dv, mac_type = htons ETHERTYPE_IP\<rparr>
     ((xdp_ip indent 0x0201A8C0 0x0301A8C0)\<lparr>ip_len := htons 52\<rparr>) (xdp_cmn sport 80) (init_chunk (client_ulp lc sport) tag tsn)"

definition client_start ::
  "client \<Rightarrow> xdp_desc list \<Rightarrow> bytes \<Rightarrow> bool" where
  "client_start c queued fr \<longleftrightarrow> armed c 0 1 \<and> sends (cl_env c) (cl_assoc c) first_hdrs first_cursor fr
     \<and> tx_items c = queued @ two_descs first_hdrs first_cursor \<and> cl_t1 c = 1 \<and> cl_retrans c = 0 \<and> a_status (cl_assoc c) = SCTP_COOKIE_WAIT
     \<and> a_prefilled_ring (cl_assoc c) = null_ring"

lemma client_opened:
  assumes env: "kpnet_env_init True True True (Some (xsk, base, umem)) True = Some env" and mem: "0 < unat base" "unat base + 16777216 < 2 ^ 64"
    "length umem = 16777216" and lc: "libc_ok lc g d gw dv" and rnd: "rnd_inv rnd"
    and tx: "chan_inv (tx_chan xsk)" "length (chan_items (tx_chan xsk)) + 2 \<le> 4096"
  shows "\<exists>rnd' c sport indent tag tsn. client_open ks lc g d rnd (Some env) = Some (rnd', Some c)
    \<and> rnd_inv rnd' \<and> client_start c (chan_items (tx_chan xsk)) (client_frame gw dv lc sport indent tag tsn)"
proof -
  obtain sport rnd0 where r0: "get_random_u16 rnd = (sport, rnd0)" by fastforce
  have r0i: "rnd_inv rnd0" using random_word_inv [OF rnd, of 2, where 'a = 16] r0 by (simp add: get_random_u16_def)
  obtain rnd1 e1 a indent where cr: "sctp_assoc_create lc rnd0 env 0x0201A8C0 sport 0x0301A8C0 80 SCTP_INIT_SENT (Some g) (Some d)
        = Some (rnd1, e1, Some a)" "rnd_inv rnd1" "slab_at e1 4" "env_umem_base e1 = base" "length (env_umem e1) = 16777216" "env_xdp e1 = xsk"
      "x_prefilled_umem_packet a = base + of_nat first_hdrs" "x_prefilled_umem_packet_len a = 46"
      "hdrs_at e1 first_hdrs \<lparr>mac_mac = gw @ dv, mac_type = htons ETHERTYPE_IP\<rparr> (xdp_ip indent 0x0201A8C0 0x0301A8C0) (xdp_cmn sport 80)"
      "length (x_xdp_segs a) = 16" "length (x_xdp_seg_lens a) = 16" "a_prefilled_ring a = null_ring" "a_ulp a = client_ulp lc sport"
    using assoc_created [OF env mem lc r0i, of "0x0201A8C0" sport "0x0301A8C0" 80 SCTP_INIT_SENT]
    unfolding client_ulp_def by blast
  obtain e2 where e2: "env_slab_alloc e1 = Some (e2, base + of_nat first_cursor)" "env_umem_base e2 = base" "env_umem e2 = env_umem e1" "env_xdp e2 = xsk"
    using slab_next [OF cr(3)] cr(4,6) mem(2) by auto
  define a2 where "a2 = (sctp_prepare_packet e1 a)\<lparr>x_umem_hdrs_cursor := base + 16773376, a_status := SCTP_COOKIE_WAIT\<rparr>"
  have placed: "x_placed e2 a2 first_hdrs first_cursor"
    using mem e2 cr(5,7,10,11) by (simp add: x_placed_def umem_ok_def a2_def sctp_prepare_packet_def)
  have prep: "prepared e2 a2 first_hdrs"
    using cr(4,7,8,10,11) by (simp add: prepared_def a2_def sctp_prepare_packet_def nth_list_update)
  have hd: "hdrs_at e2 first_hdrs \<lparr>mac_mac = gw @ dv, mac_type = htons ETHERTYPE_IP\<rparr> (xdp_ip indent 0x0201A8C0 0x0301A8C0) (xdp_cmn sport 80)"
    using cr(9) e2(3) by (simp add: hdrs_at_def)
  have rdy: "tx_ready e2 2" using tx e2(4) by (simp add: tx_ready_def)
  have a2: "a_ulp a2 = client_ulp lc sport" "a_prefilled_ring a2 = null_ring" "a_status a2 = SCTP_COOKIE_WAIT" "a_mtu a2 = a_mtu a"
    using cr(12,13) by (simp_all add: a2_def sctp_prepare_packet_def)
  let ?i = "(xdp_ip indent 0x0201A8C0 0x0301A8C0)\<lparr>ip_len := htons 52\<rparr>"
  obtain tag tsn rnd' e3 a3 where b: "build_prefilled_mac_ip_sctp_init_hdr ks rnd1 e2 a2 = Some (rnd', e3, a3, 0)"
      "a3 = a2\<lparr>a_remain_plen := a_mtu a2 - 20, x_xdp_segs := (x_xdp_segs a2)[1 := of_nat first_cursor], x_xdp_seg_lens := (x_xdp_seg_lens a2)[1 := 20], x_xdp_seg_count := 2\<rparr>"
      "chan_inv (tx_chan (env_xdp e3))" "chan_items (tx_chan (env_xdp e3)) = chan_items (tx_chan xsk) @ two_descs first_hdrs first_cursor"
      "x_placed e3 a3 first_hdrs first_cursor" "hdrs_at e3 first_hdrs \<lparr>mac_mac = gw @ dv, mac_type = htons ETHERTYPE_IP\<rparr> ?i (xdp_cmn sport 80)"
      "tx_descs (x_xdp_segs a3) (x_xdp_seg_lens a3) 2 = two_descs first_hdrs first_cursor"
      "gather (env_umem e3) (two_descs first_hdrs first_cursor) = client_frame gw dv lc sport indent tag tsn" "rnd_inv rnd'"
    using init_hdr_sent [OF placed hd rdy prep cr(2), of ks] unfolding e2(4) a2(1) client_frame_def by blast
  have sends: "sends e3 a3 first_hdrs first_cursor (client_frame gw dv lc sport indent tag tsn)"
  proof -
    have "gather (env_umem e3) (two_descs first_hdrs first_cursor)
        = frame_bytes \<lparr>mac_mac = gw @ dv, mac_type = htons ETHERTYPE_IP\<rparr> ?i (xdp_cmn sport 80) (take 20 (drop first_cursor (env_umem e3)))"
      using gather_two [of first_hdrs "env_umem e3" first_cursor _ _ _ "take 20 (drop first_cursor (env_umem e3))"] b(5,6)
      by (simp add: hdrs_at_def x_placed_def umem_ok_def)
    then show ?thesis unfolding sends_def b(8) [symmetric] using b(3,5,6,7) b(2) by fastforce
  qed
  obtain al where al: "create_allocator True True (lc_fresh lc) (lc_aligned lc 1) (lc_line lc) 64 256 = Some (Some al)" "events_ready al"
    using libc_events [OF lc] by blast
  have ml: "lc_malloc lc 5" "lc_malloc lc 6" "lc_malloc lc 7" "lc_malloc lc 8" using lc by (simp_all add: libc_ok_def)
  obtain timer h ring where t: "create_ringtimer True True (5 * 60) al = Some timer" "insert_ringtimer 1 1 Map.empty timer = Some (h, ring, True)"
      "\<forall>c. cl_heap c = h \<longrightarrow> cl_timer c = ring \<longrightarrow> armed c 0 1"
    using events_armed [OF al(2)] by blast
  let ?c = "\<lparr>cl_env = e3, cl_assoc = a3, cl_heap = h, cl_timer = ring, cl_retrans = 0, cl_t1 = 1\<rparr>"
  have "client_open ks lc g d rnd (Some env) = Some (rnd', Some ?c)"
    unfolding client_open_def using r0 cr(1) e2(1) t(1,2) b(1) al(1) ml by (simp add: a2_def [symmetric])
  moreover have "client_start ?c (chan_items (tx_chan xsk)) (client_frame gw dv lc sport indent tag tsn)"
    unfolding client_start_def using t(3) sends b(4) a2(2,3) by (simp add: b(2))
  ultimately show ?thesis using b(9) by blast
qed

section \<open>The loop\<close>

lemma client_catch_up_ticks:
  "client_catch_up ks now global c
     = map_option (Pair (global + of_nat (1000 * (unat (now - global) div 1000)))) (client_ticks ks (unat (now - global) div 1000) c)"
proof (induction "unat (now - global) div 1000" arbitrary: global c)
  case 0
  then have "\<not> (1000 :: u64) \<le> now - global" by (simp add: word_le_nat_alt div_eq_0_iff)
  then show ?case by (subst client_catch_up.simps) (use 0 in simp)
next
  case (Suc n)
  have le: "(1000 :: u64) \<le> now - global" using Suc.hyps(2) div_less [of "unat (now - global)" 1000] by (auto simp: word_le_nat_alt not_less)
  have sub: "now - (global + 1000) = now - global - 1000" by simp
  have n: "n = unat (now - (global + 1000)) div 1000" using Suc.hyps(2) catch_up_less(2) [OF le] unfolding sub by linarith
  show ?case
    using Suc.hyps(1) [OF n] le unfolding Suc.hyps(2) [symmetric] n [symmetric]
    by (subst client_catch_up.simps) (auto split: Option.bind_splits simp: option.map_comp o_def algebra_simps)
qed

text \<open>
  A client that has made \<open>m\<close> ticks since \<open>g\<close>, the readings of the clock in their order. \<open>limit\<close> is the tick at which the
  number of retransmissions passes ten.
\<close>

lemma client_loop_gives_up:
  assumes "\<And>n. n \<le> limit \<Longrightarrow> \<exists>c'. client_ticks ks n c0 = Some c' \<and> (cl_retrans c' > 10 \<longleftrightarrow> n = limit)"
    and "client_ticks ks m c0 = Some c" "m \<le> limit" "sorted readings" "unat g + 1000 * Suc limit < 2 ^ 64"
    and "\<forall>r \<in> set readings. unat g + 1000 * m \<le> unat r \<and> unat r < unat g + 1000 * Suc limit"
  shows "\<exists>c'. client_loop ks readings (g + of_nat (1000 * m)) c = Some (c', m = limit \<or> (\<exists>r \<in> set readings. unat g + 1000 * limit \<le> unat r))"
  using assms(2-4,6)
proof (induction readings arbitrary: m c)
  case Nil
  then show ?case using assms(1) [of m] by auto
next
  case (Cons r rs)
  show ?case
  proof (cases "m = limit")
    case True
    then show ?thesis using assms(1) [of m] Cons.prems(1) by auto
  next
    case False
    have nr: "\<not> cl_retrans c > 10" using assms(1) [of m] Cons.prems(1,2) False by auto
    let ?g = "g + of_nat (1000 * m)"
    have g: "unat ?g = unat g + 1000 * m" using assms(5) Cons.prems(2) by (simp add: unat_word_ariths unat_of_nat del: of_nat_mult)
    have r: "unat g + 1000 * m \<le> unat r" "unat r < unat g + 1000 * Suc limit" using Cons.prems(4) by auto
    have "unat (r - ?g) = unat r - (unat g + 1000 * m)" using r(1) g by (subst unat_sub) (simp_all add: word_le_nat_alt)
    define k where "k = unat (r - ?g) div 1000"
    define m' where "m' = m + k"
    have "unat r = unat g + 1000 * m + unat (r - ?g)" using r(1) \<open>unat (r - ?g) = _\<close> by simp
    then have m': "unat g + 1000 * m' \<le> unat r" "unat r < unat g + 1000 * Suc m'"
      using div_mult_mod_eq [of "unat (r - ?g)" 1000] mod_less_divisor [of 1000 "unat (r - ?g)"] by (simp_all add: m'_def k_def)
    have le: "m' \<le> limit" using m'(1) r(2) by simp
    obtain c' where c': "client_ticks ks m' c0 = Some c'" using assms(1) [OF le] by blast
    then have "client_ticks ks k c = Some c'" using client_ticks_add [of ks m k c0] Cons.prems(1) by (simp add: m'_def)
    then have cu: "client_catch_up ks r ?g c = Some (g + of_nat (1000 * m'), c')"
      unfolding client_catch_up_ticks k_def [symmetric] by (simp add: m'_def algebra_simps)
    have "\<forall>x \<in> set rs. unat g + 1000 * m' \<le> unat x \<and> unat x < unat g + 1000 * Suc limit"
      using Cons.prems(3,4) m'(1) by (fastforce simp: word_le_nat_alt)
    then obtain c'' where "client_loop ks rs (g + of_nat (1000 * m')) c' = Some (c'', m' = limit \<or> (\<exists>r \<in> set rs. unat g + 1000 * limit \<le> unat r))"
      using Cons.IH [OF c' le] Cons.prems(3) by auto
    moreover have "m' = limit \<longleftrightarrow> unat g + 1000 * limit \<le> unat r"
    proof
      assume "unat g + 1000 * limit \<le> unat r"
      then have "limit \<le> m'" using m'(2) by simp
      then show "m' = limit" using le by simp
    qed (use m'(1) in simp)
    ultimately show ?thesis using nr cu False by (subst client_loop.simps) auto
  qed
qed

section \<open>The header of the first frame\<close>

lemma client_frame_ip:
  assumes "length gw = 6" "length dv = 6" "frame_valid (client_frame gw dv lc sport indent tag tsn)"
  shows "indent = 61097"
proof -
  let ?i = "(xdp_ip indent 0x0201A8C0 0x0301A8C0)\<lparr>ip_len := htons 52\<rparr>"
  have "osum (enc_ipv4 ?i) = unat indent + 135508"
    using osum_word_bytes [of indent "[]"] by (simp add: enc_ipv4_def xdp_ip_def osum_word_bytes osum_append2 word_bytes_numeral bswap16_def)
  moreover have "ip_header_ok (client_frame gw dv lc sport indent tag tsn)" using assms(3) by (simp add: frame_valid_def)
  then have "ones (osum (enc_ipv4 ?i)) = 65535"
    unfolding client_frame_def ip_header_ok_def using frame_fields(1) assms(1,2) by simp
  ultimately have "(4437 + unat indent + 2 * 65535) mod 65535 = 65534" by (simp add: ones_def)
  then have "(4437 + unat indent) mod 65535 = 65534" by (simp only: mod_mult_self1)
  moreover have "unat indent < 65536" using unsigned_less [of indent, where ?'a = nat] by simp
  ultimately have "unat indent = 61097" by (cases "4437 + unat indent < 65535") (simp_all add: le_mod_geq)
  then show ?thesis by (simp add: word_unat_eq_iff)
qed

section \<open>Properties\<close>

text \<open>The state in which the client starts: the memory of the packets is mapped and the transmit ring has room for all its frames.\<close>

definition client_world :: "libc \<Rightarrow> string \<Rightarrow> string \<Rightarrow> bytes \<Rightarrow> bytes \<Rightarrow> xdp \<Rightarrow> ptr \<Rightarrow> bytes \<Rightarrow> random_state \<Rightarrow> bool" where
  "client_world lc g d gw dv xsk base umem rnd \<longleftrightarrow> libc_ok lc g d gw dv \<and> 0 < unat base \<and> unat base + 16777216 < 2 ^ 64 \<and> length umem = 16777216
     \<and> rnd_inv rnd \<and> chan_inv (tx_chan xsk) \<and> length (chan_items (tx_chan xsk)) + 24 \<le> 4096"

lemma client_world_start:
  assumes "client_world lc g d gw dv xsk base umem rnd" "kpnet_env_init True True True (Some (xsk, base, umem)) True = Some env"
  shows "\<exists>rnd' c sport indent tag tsn. client_open ks lc g d rnd (Some env) = Some (rnd', Some c)
    \<and> client_start c (chan_items (tx_chan xsk)) (client_frame gw dv lc sport indent tag tsn)"
proof -
  have w: "0 < unat base" "unat base + 16777216 < 2 ^ 64" "length umem = 16777216" "libc_ok lc g d gw dv" "rnd_inv rnd" "chan_inv (tx_chan xsk)"
      "length (chan_items (tx_chan xsk)) + 2 \<le> 4096"
    using assms(1) by (simp_all add: client_world_def)
  show ?thesis using client_opened [OF assms(2) w, of ks] by blast
qed

lemma client_start_schedule:
  assumes "client_start c queued fr" "length queued + 24 \<le> 4096" "n \<le> 663"
  shows "\<exists>c'. client_ticks ks n c = Some c' \<and> cl_retrans c' = of_nat (expired [1, 3, 7, 15, 31, 63, 123, 183, 243, 603, 663] n)
    \<and> gather (env_umem (cl_env c')) (two_descs first_hdrs first_cursor) = fr
    \<and> tx_items c' = queued @ concat (replicate (Suc (expired [1, 3, 7, 15, 31, 63, 123, 183, 243, 603, 663] n)) (two_descs first_hdrs first_cursor))"
proof -
  have st: "armed c 0 1" "sends (cl_env c) (cl_assoc c) first_hdrs first_cursor fr" "tx_items c = queued @ two_descs first_hdrs first_cursor"
      "cl_t1 c = 1" "cl_retrans c = 0" using assms(1) by (simp_all add: client_start_def)
  have es: "t1_expiries 11 0 1 = [1, 3, 7, 15, 31, 63, 123, 183, 243, 603, 663]"
    by (simp add: t1_expiries_numeral next_t1_def wheel_delay_def)
  have "wheel_delay 300 (0 mod 300) 1 = 1" by (simp add: wheel_delay_def)
  moreover have "length (tx_items c) + 2 * 11 \<le> 4096" using assms(2) st(3) by (simp add: two_descs_def)
  ultimately obtain c' where c': "client_ticks ks n c = Some c'" "cl_retrans c' = of_nat (expired (t1_expiries 11 0 1) n)"
      "sends (cl_env c') (cl_assoc c') first_hdrs first_cursor fr"
      "tx_items c' = tx_items c @ concat (replicate (expired (t1_expiries 11 0 1) n) (two_descs first_hdrs first_cursor))"
    using client_schedule [of c 0 1 first_hdrs first_cursor fr 11 n ks] st assms(3) es by auto
  then show ?thesis using sends_gather [OF c'(3)] st(3) unfolding es by simp
qed

lemma client_limit:
  assumes "n \<le> 663"
  shows "(of_nat (expired [1, 3, 7, 15, 31, 63, 123, 183, 243, 603, 663] n) :: u64) > 10 \<longleftrightarrow> n = 663"
  using assms by (auto simp: expired_def)

text \<open>A concrete start: the blocks of the two allocators lie behind each other.\<close>

definition libc0 :: libc where
  "libc0 = \<lparr>lc_malloc = \<lambda>_. True, lc_fresh = \<lambda>_. (0, 0), lc_aligned = \<lambda>n i. of_nat (65536 * Suc n + 64 * i), lc_line = 64,
     lc_ifmac = \<lambda>_. Some [2, 0, 0, 0, 0, 1], lc_ulp = sample_ulp 0 0, lc_meta = sample_meta, lc_frame = sample_data\<rparr>"

abbreviation env0 :: kpnet_env where
  "env0 \<equiv> the (kpnet_env_init True True True (Some (xdp0, 4096, replicate 16777216 0)) True)"

lemma client_world0:
  "client_world libc0 ''veth0'' ''veth1'' [2, 0, 0, 0, 0, 1] [2, 0, 0, 0, 0, 1] xdp0 4096 (replicate 16777216 0) (random_start [])"
  "kpnet_env_init True True True (Some (xdp0, 4096, replicate 16777216 0)) True = Some env0" "chan_items (tx_chan xdp0) = []"
proof -
  have u: "unat (of_nat (65536 * Suc n + 64 * i) :: ptr) = 65536 * Suc n + 64 * i" if "n < 2" "i < 256" for n i
    using that by (simp add: unat_of_nat del: of_nat_add of_nat_mult)
  have "inj_on (lc_aligned libc0 n) {..<256}" "NULL \<notin> lc_aligned libc0 n ` {..<256}" if "n < 2" for n
  proof -
    show "inj_on (lc_aligned libc0 n) {..<256}"
    proof (rule inj_onI)
      fix i j assume "i \<in> {..<256}" "j \<in> {..<256}" "lc_aligned libc0 n i = lc_aligned libc0 n j"
      then show "i = j" using u [OF that, of i] u [OF that, of j] by (simp add: libc0_def del: of_nat_add of_nat_mult)
    qed
    show "NULL \<notin> lc_aligned libc0 n ` {..<256}"
    proof
      assume "NULL \<in> lc_aligned libc0 n ` {..<256}"
      then obtain i where "i < 256" "(of_nat (65536 * Suc n + 64 * i) :: ptr) = 0" by (auto simp: libc0_def simp del: of_nat_add of_nat_mult)
      then show False using u [OF that, of i] by (simp del: of_nat_add of_nat_mult)
    qed
  qed
  then have "libc_ok libc0 ''veth0'' ''veth1'' [2, 0, 0, 0, 0, 1] [2, 0, 0, 0, 0, 1]"
    unfolding libc_ok_def by (simp add: libc0_def)
  moreover show items: "chan_items (tx_chan xdp0) = []" by (simp add: xdp0_def Let_def chan_defs chan_content_def)
  ultimately show "client_world libc0 ''veth0'' ''veth1'' [2, 0, 0, 0, 0, 1] [2, 0, 0, 0, 0, 1] xdp0 4096 (replicate 16777216 0) (random_start [])"
    using xdp0_chans(1) rnd_inv_start by (simp add: client_world_def)
  show "kpnet_env_init True True True (Some (xdp0, 4096, replicate 16777216 0)) True = Some env0"
    by (simp add: kpnet_env_init_def create_umem_stack_def)
qed

text \<open>
  C11. The client, when every allocation succeeds, creates its association and queues exactly one frame for transmission: two
  chained descriptors, one for the headers and one for the INIT chunk, which the network card reads as the Ethernet, IP and
  SCTP headers of the two addresses followed by the chunk. The checksums of both headers are left zero: the frame
  passes the receiver's check for at most one value of the random IP identification, 61097.
\<close>

theorem client_sends_init:
  assumes "client_world lc g d gw dv xsk base umem rnd" "kpnet_env_init True True True (Some (xsk, base, umem)) True = Some env"
  shows "\<exists>rnd' c sport indent tag tsn fr. client_open ks lc g d rnd (Some env) = Some (rnd', Some c)
    \<and> fr = client_frame gw dv lc sport indent tag tsn \<and> length fr = 66
    \<and> tx_items c = chan_items (tx_chan xsk) @ two_descs first_hdrs first_cursor
    \<and> gather (env_umem (cl_env c)) (two_descs first_hdrs first_cursor) = fr \<and> (frame_valid fr \<longrightarrow> indent = 61097)"
proof -
  obtain rnd' c sport indent tag tsn where c: "client_open ks lc g d rnd (Some env) = Some (rnd', Some c)"
      "client_start c (chan_items (tx_chan xsk)) (client_frame gw dv lc sport indent tag tsn)"
    using client_world_start [OF assms] by blast
  have "length gw = 6" "length dv = 6" using assms(1) by (simp_all add: client_world_def libc_ok_def)
  then have "length (client_frame gw dv lc sport indent tag tsn) = 66" "frame_valid (client_frame gw dv lc sport indent tag tsn) \<longrightarrow> indent = 61097"
    using client_frame_ip by (simp add: client_frame_def length_frame_bytes, blast)
  then show ?thesis using c sends_gather unfolding client_start_def by blast
qed

theorem client_sends_init_witness:
  "\<exists>rnd' c sport indent tag tsn fr. client_open [] libc0 ''veth0'' ''veth1'' (random_start []) (Some env0) = Some (rnd', Some c)
    \<and> fr = client_frame [2, 0, 0, 0, 0, 1] [2, 0, 0, 0, 0, 1] libc0 sport indent tag tsn \<and> length fr = 66
    \<and> tx_items c = [] @ two_descs first_hdrs first_cursor
    \<and> gather (env_umem (cl_env c)) (two_descs first_hdrs first_cursor) = fr \<and> (frame_valid fr \<longrightarrow> indent = 61097)"
  using client_sends_init [OF client_world0(1,2), of "[]"] unfolding client_world0(3) .

text \<open>
  C10. The INIT is sent again at the ticks 1, 3, 7, 15, 31, 63, 123, 183, 243, 603 and 663 after the start, each time the same frame, and
  at no other tick; whenever the clock is read, the client gives up exactly when 663 seconds have passed. The pauses double up to a minute, but
  the one from 243 to 603 is the minute for which the slot wraps around the wheel of 300 slots.
\<close>

theorem client_t1_schedule:
  assumes "client_world lc g d gw dv xsk base umem rnd" "kpnet_env_init True True True (Some (xsk, base, umem)) True = Some env"
  shows "\<exists>rnd' c fr. client_open ks lc g d rnd (Some env) = Some (rnd', Some c)
    \<and> (\<forall>n \<le> 663. \<exists>c'. client_ticks ks n c = Some c' \<and> gather (env_umem (cl_env c')) (two_descs first_hdrs first_cursor) = fr
         \<and> tx_items c' = chan_items (tx_chan xsk)
             @ concat (replicate (Suc (expired [1, 3, 7, 15, 31, 63, 123, 183, 243, 603, 663] n)) (two_descs first_hdrs first_cursor)))
    \<and> (\<forall>readings t. sorted readings \<longrightarrow> unat t + 664000 < 2 ^ 64 \<longrightarrow> (\<forall>r \<in> set readings. unat t \<le> unat r \<and> unat r < unat t + 664000)
         \<longrightarrow> (\<exists>c'. client_loop ks readings t c = Some (c', \<exists>r \<in> set readings. unat t + 663000 \<le> unat r)))"
proof -
  obtain rnd' c sport indent tag tsn where c: "client_open ks lc g d rnd (Some env) = Some (rnd', Some c)"
      "client_start c (chan_items (tx_chan xsk)) (client_frame gw dv lc sport indent tag tsn)"
    using client_world_start [OF assms] by blast
  have room: "length (chan_items (tx_chan xsk)) + 24 \<le> 4096" using assms(1) by (simp add: client_world_def)
  note sch = client_start_schedule [OF c(2) room]
  have lim: "\<exists>c'. client_ticks ks n c = Some c' \<and> (cl_retrans c' > 10 \<longleftrightarrow> n = 663)" if "n \<le> 663" for n
    using sch [OF that] client_limit [OF that] by metis
  have "\<exists>c'. client_loop ks readings t c = Some (c', \<exists>r \<in> set readings. unat t + 663000 \<le> unat r)"
    if "sorted readings" "unat t + 664000 < 2 ^ 64" "\<forall>r \<in> set readings. unat t \<le> unat r \<and> unat r < unat t + 664000" for readings t
    using client_loop_gives_up [of 663 ks c 0 c readings t, OF lim] that by simp
  then show ?thesis using c(1) sch by blast
qed

theorem client_t1_schedule_witness:
  "\<exists>rnd' c c1 c2. client_open [] libc0 ''veth0'' ''veth1'' (random_start []) (Some env0) = Some (rnd', Some c)
    \<and> client_loop [] [1000, 244500, 362999] 1000 c = Some (c1, False) \<and> client_loop [] [1000, 364000, 664000] 1000 c = Some (c2, True)"
proof -
  obtain rnd' c where c: "client_open [] libc0 ''veth0'' ''veth1'' (random_start []) (Some env0) = Some (rnd', Some c)"
      "\<forall>readings t. sorted readings \<longrightarrow> unat t + 664000 < 2 ^ 64 \<longrightarrow> (\<forall>r \<in> set readings. unat t \<le> unat r \<and> unat r < unat t + 664000)
         \<longrightarrow> (\<exists>c'. client_loop [] readings t c = Some (c', \<exists>r \<in> set readings. unat t + 663000 \<le> unat r))"
    using client_t1_schedule [OF client_world0(1,2), of "[]"] by blast
  have "\<exists>c1. client_loop [] [1000, 244500, 362999] 1000 c = Some (c1, False)" "\<exists>c2. client_loop [] [1000, 364000, 664000] 1000 c = Some (c2, True)"
    using c(2) [THEN spec, THEN spec, of "[1000, 244500, 362999]" 1000] c(2) [THEN spec, THEN spec, of "[1000, 364000, 664000]" 1000]
    by (simp_all del: client_loop.simps)
  then show ?thesis using c(1) by blast
qed

text \<open>
  C38. The client waits in the state \<^verbatim>\<open>SCTP_COOKIE_WAIT\<close>, for which the dispatcher has no case: whatever frame of at least 50 bytes arrives,
  also the INIT ACK that answers its INIT, \<^verbatim>\<open>if_ip_sctp\<close> returns NULL and changes nothing.
\<close>

theorem client_ignores_replies:
  assumes "client_world lc g d gw dv xsk base umem rnd" "kpnet_env_init True True True (Some (xsk, base, umem)) True = Some env"
    and "heap p = Some pkt" "50 \<le> length pkt"
  shows "\<exists>rnd' c a. client_open ks lc g d rnd (Some env) = Some (rnd', Some c) \<and> a = sctp_association.truncate (cl_assoc c)
    \<and> if_ip_sctp j alloc heap rnd' p a = Some (heap, rnd', a, False)"
proof -
  obtain rnd' c sport indent tag tsn where c: "client_open ks lc g d rnd (Some env) = Some (rnd', Some c)"
      "client_start c (chan_items (tx_chan xsk)) (client_frame gw dv lc sport indent tag tsn)"
    using client_world_start [OF assms(1,2)] by blast
  have st: "a_status (sctp_association.truncate (cl_assoc c)) = SCTP_COOKIE_WAIT"
    using c(2) by (simp add: client_start_def sctp_association.defs)
  have "\<exists>w. get_u32 pkt 30 = Some w" "\<exists>w. get_u16 pkt 36 = Some w" "\<exists>f. load dec_fld 4 pkt 46 = Some f"
    using assms(4) by (simp_all add: get_word_in load_def mread_def)
  then show ?thesis using c(1) st assms(3) by (auto simp: if_ip_sctp_def)
qed

theorem client_ignores_replies_witness:
  "\<exists>rnd' c a. client_open [] libc0 ''veth0'' ''veth1'' (random_start []) (Some env0) = Some (rnd', Some c) \<and> a = sctp_association.truncate (cl_assoc c)
    \<and> if_ip_sctp (\<lambda>_. 0) (\<lambda>_. True) [9 \<mapsto> sample_frame] rnd' 9 a = Some ([9 \<mapsto> sample_frame], rnd', a, False)"
  by (rule client_ignores_replies [OF client_world0(1,2), of _ _ sample_frame]) (simp_all add: sample_frame_parts)

end
