(* ===== verification/Data.thy ===== *)
theory Data
  imports Handshake
begin

unbundle bit_operations_syntax

text \<open>
  DATA chunks: \<^verbatim>\<open>src/sctp_build_data_hdr.c\<close>, which packs chunks behind each other into the current packet of the association, and the
  older \<^verbatim>\<open>src/build_prefilled_mac_ip_sctp_data_hdr.c\<close>, which puts one chunk, or two bundled ones, into a prefilled packet. A stream
  sends the part of its message from \<open>pos_current\<close> to \<open>pos_high\<close>.
\<close>

section \<open>Operations\<close>

abbreviation (input) RTX_MASK :: u32 where "RTX_MASK \<equiv> 1023"

definition data_flags :: "sctp_thread \<Rightarrow> u32 \<Rightarrow> u8" where
  "data_flags th pplen =
     (if th_pos_high th - th_pos_low th \<le> pplen then th_flags th OR SCTP_UNFRAGMENTED
      else if th_pos_low th = th_pos_current th then th_flags th OR SCTP_BBIT
      else if th_pos_current th + min pplen (th_pos_high th - th_pos_current th) = th_pos_high th then th_flags th OR SCTP_EBIT
      else th_flags th)"

definition os_thread :: "sctp_association \<Rightarrow> u16 \<Rightarrow> sctp_thread option" where
  "os_thread a stream_id =
     do { ths \<leftarrow> a_threads a;
          if a_os_threads a + unat stream_id < length ths then Some (ths ! (a_os_threads a + unat stream_id)) else None }"

definition set_os_thread :: "sctp_association \<Rightarrow> u16 \<Rightarrow> sctp_thread \<Rightarrow> sctp_association" where
  "set_os_thread a stream_id th = a\<lparr>a_threads := map_option (\<lambda>ths. ths[a_os_threads a + unat stream_id := th]) (a_threads a)\<rparr>"

text \<open>The code after the label \<^verbatim>\<open>flush\<close>: queue the current packet and take the next one. An empty ring yields NULL, which is dereferenced.\<close>

definition data_flush :: "sctp_association \<Rightarrow> sctp_association option" where
  "data_flush a =
     do { tx \<leftarrow> push_item (a_tx_ring a) (a_current_packet a) (ucast (a_mtu a - a_remain_plen a) + 46);
          (ring, cell) \<leftarrow> rb_pop [] (a_prefilled_ring a);
          (packet, _) \<leftarrow> cell;
          Some (a\<lparr>a_tx_ring := tx, a_remain_plen := a_mtu a, a_prefilled_ring := ring, a_current_packet := packet, a_cursor := (packet, 46)\<rparr>) }"

text \<open>\<^verbatim>\<open>MIN\<close> of a 64-bit and a 32-bit number, kept in 32 bits.\<close>

definition data_room :: "sctp_association \<Rightarrow> sctp_thread \<Rightarrow> u32" where
  "data_room a th = ucast (min (ucast (a_remain_plen a) - 16 :: u64) (ucast (th_pos_high th - th_pos_current th)))"

text \<open>The jump back to \<^verbatim>\<open>flush\<close> while there is nothing to place.\<close>

partial_function (option) data_space :: "bool \<Rightarrow> sctp_association \<Rightarrow> sctp_thread \<Rightarrow> (sctp_association \<times> u32) option" where
  "data_space flush a th =
     do { a \<leftarrow> (if flush then data_flush a else Some a);
          if data_room a th = 0 then data_space True a th else Some (a, data_room a th) }"

text \<open>The length of the chunk and the length it takes in the packet.\<close>

definition data_align :: "sctp_association \<Rightarrow> u32 \<Rightarrow> u32 \<times> u32" where
  "data_align a pplen =
     (let alligned = (pplen + 3) AND NOT 3 in
      if (ucast alligned :: u64) > ucast (a_remain_plen a) - 16 then (pplen AND NOT 3, pplen AND NOT 3) else (pplen, alligned))"

definition sctp_build_data_hdr :: "pheap \<Rightarrow> sctp_association \<Rightarrow> u16 \<Rightarrow> (pheap \<times> sctp_association \<times> u64) option" where
  "sctp_build_data_hdr heap a stream_id =
     (if a_current_packet a = NULL then Some (heap, a, 0)
      else
        do { th \<leftarrow> os_thread a stream_id;
             (a, pplen) \<leftarrow> data_space (a_remain_plen a < 20) a th;
             let (pplen, alligned) = data_align a pplen;
             let fld = \<lparr>fld_type = SCTP_DATA, fld_flags = data_flags th pplen, fld_len = htons (ucast pplen)\<rparr>;
             let dat = \<lparr>data_tsn = a_tsn a, data_so = htons stream_id, data_sn = th_ssn th, data_proto_def = th_proto th\<rparr>;
             let a = a\<lparr>a_tsn := a_tsn a + htonl 1\<rparr>;
             buf \<leftarrow> th_buffer th;
             payload \<leftarrow> mread buf (unat (th_pos_current th)) (unat pplen);
             mem \<leftarrow> heap (fst (a_cursor a));
             mem \<leftarrow> mwrite mem (snd (a_cursor a)) (enc_fld fld @ enc_data dat @ payload @ replicate (unat (alligned - pplen)) 0);
             let heap = heap(fst (a_cursor a) \<mapsto> mem);
             let a = a\<lparr>a_cursor := (fst (a_cursor a), snd (a_cursor a) + unat alligned), a_remain_plen := a_remain_plen a - alligned\<rparr>;
             let i = unat (ntohl (a_tsn a) AND RTX_MASK);
             let slot = (a_rtx a ! i)\<lparr>sl_tsn := ntohl (a_tsn a), sl_buffer := Some (unat stream_id, th_pos_current th), sl_len := pplen,
                          sl_stream_id := ucast stream_id, sl_acked := 0, sl_in_use := 1, sl_retry_count := 0\<rparr>;
             let a = set_os_thread (a\<lparr>a_rtx := (a_rtx a)[i := slot]\<rparr>) stream_id (th\<lparr>th_pos_current := th_pos_current th + (pplen - 16)\<rparr>);
             mem \<leftarrow> heap (a_current_packet a);
             mem \<leftarrow> put_u32 mem (34 + 4) (a_ver_tag a);
             Some (heap(a_current_packet a \<mapsto> mem), a, 0) })"

text \<open>
  The older builder. \<^verbatim>\<open>MAX_PACKET_LEN\<close> less the headers and 16 bytes leaves 1438 bytes for the payload. The entries of \<open>os_threads\<close> that
  \<^verbatim>\<open>prepare_sctp_threads\<close> makes are never NULL, so the early return does not occur.
\<close>

definition build_prefilled_mac_ip_sctp_data_hdr :: "pheap \<Rightarrow> sctp_association \<Rightarrow> u16 \<Rightarrow> (pheap \<times> sctp_association \<times> i32) option" where
  "build_prefilled_mac_ip_sctp_data_hdr heap a stream_id =
     do { th \<leftarrow> os_thread a stream_id;
          let dat = \<lparr>data_tsn = a_tsn a, data_so = htons stream_id, data_sn = th_ssn th, data_proto_def = th_proto th\<rparr>;
          let a = a\<lparr>a_tsn := a_tsn a + htonl 1\<rparr>;
          (ring, cell) \<leftarrow> rb_pop [] (a_bundling a);
          let a = a\<lparr>a_bundling := ring\<rparr>;
          (bundled, a, cell) \<leftarrow> (case cell of
              Some c \<Rightarrow> Some (True, a, c)
            | None \<Rightarrow> do { (ring, cell) \<leftarrow> rb_pop [] (a_prefilled_ring a); c \<leftarrow> cell; Some (False, a\<lparr>a_prefilled_ring := ring\<rparr>, c) });
          let (packet, cplen) = cell;
          let pplen = (1516 - (14 + 20 + 12 + 16 + 16) :: u32);
          let plen = (ucast cplen :: u32);
          let flags = data_flags th pplen;
          mem \<leftarrow> heap packet;
          bundle_plen \<leftarrow> (if bundled then do { w \<leftarrow> get_u16 mem (46 + 2); Some (ucast (ntohs w)) } else Some (0 :: u32));
          let bundle = (if bundled then bundle_plen + ((- bundle_plen) AND 3) else 0);
          let n = min pplen (th_pos_high th - th_pos_current th);
          let fld = \<lparr>fld_type = SCTP_DATA, fld_flags = flags, fld_len = htons (16 + ucast n)\<rparr>;
          let pad = (if plen < 1500 then (- (16 + n)) AND 3 else 0);
          mem \<leftarrow> (if plen < 1500 \<and> \<not> bundled then mwrite mem (46 + 16 + unat n) (replicate (unat pad) 0) else Some mem);
          let plen = plen + pad;
          buf \<leftarrow> th_buffer th;
          payload \<leftarrow> mread buf (unat (th_pos_current th)) (unat n);
          mem \<leftarrow> mwrite mem (46 + unat bundle) (enc_fld fld @ enc_data dat @ payload);
          let plen = plen + (16 + n);
          let a = set_os_thread a stream_id (th\<lparr>th_pos_current := th_pos_current th + n\<rparr>);
          mem \<leftarrow> put_u16 mem (14 + 10) 0;
          chk \<leftarrow> tcp_checksum mem 14 20;
          mem \<leftarrow> put_u16 mem (14 + 10) chk;
          mem \<leftarrow> put_u32 mem (34 + 4) (a_ver_tag a);
          mem \<leftarrow> put_u32 mem (34 + 8) 0;
          crc \<leftarrow> generate_crc32c_on_crc32c (drop 34 mem) (12 + ucast (ntohs (fld_len fld)) + pad + bundle) 0xFFFFFFFF;
          mem \<leftarrow> put_u32 mem (34 + 8) (NOT (ucast crc));
          a \<leftarrow> (if plen < 1500 \<and> \<not> bundled
                then do { r \<leftarrow> push_item (a_bundling a) packet (ucast plen); Some (a\<lparr>a_bundling := r\<rparr>) }
                else do { r \<leftarrow> push_item (a_tx_ring a) packet (ucast plen); Some (a\<lparr>a_tx_ring := r\<rparr>) });
          r \<leftarrow> push_item (a_prefilled_ring a) packet cplen;
          Some (heap(packet \<mapsto> mem), a\<lparr>a_prefilled_ring := r\<rparr>, 0) }"

section \<open>Lengths\<close>

lemma and_not_3: "unat (x AND NOT (3 :: u32)) = unat x div 4 * 4"
  using and_not_mask_unat [of 2 x] by (simp add: mask_eq_exp_minus_1)

lemma data_room_unat: "16 \<le> unat (a_remain_plen a) \<Longrightarrow>
  unat (data_room a th) = min (unat (a_remain_plen a) - 16) (unat (th_pos_high th - th_pos_current th))"
proof -
  assume le: "16 \<le> unat (a_remain_plen a)"
  let ?x = "ucast (a_remain_plen a) - 16 :: u64" and ?y = "ucast (th_pos_high th - th_pos_current th) :: u64"
  have x: "unat ?x = unat (a_remain_plen a) - 16" using le by (subst unat_sub) (simp_all add: word_le_nat_alt)
  have y: "unat ?y = unat (th_pos_high th - th_pos_current th)" by simp
  have m: "unat (min ?x ?y) = min (unat ?x) (unat ?y)" by (simp add: min_def word_le_nat_alt)
  have "unat (th_pos_high th - th_pos_current th) < 2 ^ 32" using unsigned_less [of "th_pos_high th - th_pos_current th", where ?'a = nat] by simp
  then have "unat (min ?x ?y) < 2 ^ 32" unfolding m y by simp
  then have "unat (data_room a th) = unat (min ?x ?y)"
    unfolding data_room_def by (simp add: unsigned_ucast_eq take_bit_nat_eq_self)
  then show ?thesis unfolding m x y .
qed

lemma data_room_le: "unat (data_room a th) \<le> unat (th_pos_high th - th_pos_current th)"
proof -
  let ?m = "min (ucast (a_remain_plen a) - 16 :: u64) (ucast (th_pos_high th - th_pos_current th))"
  have "unat (data_room a th) \<le> unat ?m"
    unfolding data_room_def by (simp add: unsigned_ucast_eq take_bit_nat_less_eq_self)
  also have "\<dots> \<le> unat (ucast (th_pos_high th - th_pos_current th) :: u64)" by (simp add: min_def word_le_nat_alt)
  finally show ?thesis by simp
qed

lemma data_align_le: "data_align a x = (n, k) \<Longrightarrow> unat n \<le> unat x"
  by (auto simp: data_align_def Let_def word_le_nat_alt [symmetric] word_and_le2 split: if_splits)

lemmas and_neg_4 = and_not_3 [simplified]

text \<open>The length of the chunk as a number: multiples of four unless the chunk is the last of its message.\<close>

definition data_len :: "nat \<Rightarrow> nat \<Rightarrow> nat" where
  "data_len room left = (let m = min room left in if room < (m + 3) div 4 * 4 then m div 4 * 4 else m)"

lemma data_align_unat:
  assumes "16 \<le> unat (a_remain_plen a)" "unat x = min (unat (a_remain_plen a) - 16) left"
  shows "\<exists>n k. data_align a x = (n, k) \<and> unat n = data_len (unat (a_remain_plen a) - 16) left \<and> unat k = (unat n + 3) div 4 * 4
    \<and> unat k \<le> unat (a_remain_plen a) - 16"
proof -
  let ?R = "unat (a_remain_plen a) - 16"
  have R: "unat (a_remain_plen a) < 2 ^ 32" using unsigned_less [of "a_remain_plen a", where ?'a = nat] by simp
  have R16: "unat (ucast (a_remain_plen a) - 16 :: u64) = ?R" using assms(1) by (subst unat_sub) (simp_all add: word_le_nat_alt)
  have "unat x + 3 < 2 ^ 32" using assms R by linarith
  then have "unat (x + 3) = unat x + 3" by (simp add: unat_word_ariths)
  then have al: "unat ((x + 3) AND NOT 3) = (unat x + 3) div 4 * 4" unfolding and_not_3 by simp
  then have gt: "(ucast ((x + 3) AND NOT 3) :: u64) > ucast (a_remain_plen a) - 16 \<longleftrightarrow> ?R < (unat x + 3) div 4 * 4"
    by (simp add: word_less_nat_alt R16)
  show ?thesis
  proof (cases "?R < (unat x + 3) div 4 * 4")
    case True
    then have "data_align a x = (x AND NOT 3, x AND NOT 3)" using gt by (simp add: data_align_def)
    moreover have "unat x div 4 * 4 \<le> ?R" using assms(2) by linarith
    ultimately show ?thesis using True assms(2) by (simp add: and_neg_4 data_len_def Let_def)
  next
    case False
    then have "data_align a x = (x, (x + 3) AND NOT 3)" using gt by (simp add: data_align_def)
    then show ?thesis using False assms(2) al by (simp add: data_len_def Let_def)
  qed
qed

lemma data_len_bounds: "16 \<le> room \<Longrightarrow> 16 \<le> left \<Longrightarrow> 16 \<le> data_len room left" "data_len room left \<le> min room left"
  by (auto simp: data_len_def Let_def)

section \<open>Space\<close>

lemma data_space_room: "data_room a th \<noteq> 0 \<Longrightarrow> data_space False a th = Some (a, data_room a th)"
  by (subst data_space.simps) simp

lemma data_flush_keeps: "data_flush a = Some a' \<Longrightarrow> a_threads a' = a_threads a \<and> a_os_threads a' = a_os_threads a"
  by (auto simp: data_flush_def split: Option.bind_splits prod.splits)

lemma data_space_returns:
  assumes "data_space flush a th = Some y"
  shows "snd y = data_room (fst y) th \<and> a_threads (fst y) = a_threads a \<and> a_os_threads (fst y) = a_os_threads a"
proof (rule data_space.raw_induct [OF _ assms, of "\<lambda>_ a th y. snd y = data_room (fst y) th \<and> a_threads (fst y) = a_threads a \<and> a_os_threads (fst y) = a_os_threads a"], goal_cases)
  case (1 rec flush a th y)
  from 1(2) obtain a1 where a1: "(if flush then data_flush a else Some a) = Some a1"
      "(if data_room a1 th = 0 then rec True a1 th else Some (a1, data_room a1 th)) = Some y"
    by (auto simp: Option.bind_eq_Some_conv)
  have "a_threads a1 = a_threads a" "a_os_threads a1 = a_os_threads a" using a1(1) data_flush_keeps [of a a1] by (auto split: if_splits)
  then show ?case using a1(2) 1(1) [of True a1 th y] by (auto split: if_splits)
qed

lemma push_item_any:
  assumes "rb_inv rb"
  shows "\<exists>rb'. push_item rb p l = Some rb' \<and> rb_inv rb' \<and> rb_cap rb' = rb_cap rb \<and> rb_items rb' = take (rb_cap rb) (rb_items rb @ [(p, l)])"
proof (cases "length (rb_items rb) < rb_cap rb")
  case True
  then show ?thesis using push_item_room [OF assms] by fastforce
next
  case False
  then have "length (rb_items rb) = rb_cap rb" using rbq.bounded [OF assms] by simp
  then show ?thesis using rbq.push_full [OF assms, of "[]" "(p, l)"] assms by (auto simp: rb_push_def push_item_def)
qed

text \<open>
  The code after the label executed \<open>k\<close> times, and what it hands to the transmit ring: first the current packet with the bytes it has got, then the
  packets of the prefilled ring, empty but for their headers.
\<close>

fun flushes :: "nat \<Rightarrow> sctp_association \<Rightarrow> sctp_association option" where
  "flushes 0 a = Some a"
| "flushes (Suc k) a = do { a \<leftarrow> data_flush a; flushes k a }"

definition flushed :: "sctp_association \<Rightarrow> (ptr \<times> u64) list" where
  "flushed a = (a_current_packet a, ucast (a_mtu a - a_remain_plen a) + 46) # map (\<lambda>x. (fst x, 46)) (rb_items (a_prefilled_ring a))"

lemma data_flush_pops:
  assumes "rb_inv (a_prefilled_ring a)" "rb_inv (a_tx_ring a)" "rb_items (a_prefilled_ring a) = x # xs"
  shows "\<exists>a'. data_flush a = Some a' \<and> rb_inv (a_prefilled_ring a') \<and> rb_inv (a_tx_ring a') \<and> rb_cap (a_tx_ring a') = rb_cap (a_tx_ring a)
    \<and> rb_items (a_prefilled_ring a') = xs \<and> flushed a = hd (flushed a) # flushed a'
    \<and> rb_items (a_tx_ring a') = take (rb_cap (a_tx_ring a)) (rb_items (a_tx_ring a) @ [hd (flushed a)])"
proof -
  obtain q where q: "rb_pop [] (a_prefilled_ring a) = Some (q, Some x)" "rb_inv q" "rb_items q = xs"
    using rbq.pop_front [OF assms(1,3), of "[]"] by blast
  obtain tx where tx: "push_item (a_tx_ring a) (a_current_packet a) (ucast (a_mtu a - a_remain_plen a) + 46) = Some tx" "rb_inv tx"
      "rb_cap tx = rb_cap (a_tx_ring a)" "rb_items tx = take (rb_cap (a_tx_ring a)) (rb_items (a_tx_ring a) @ [hd (flushed a)])"
    using push_item_any [OF assms(2)] unfolding flushed_def list.sel(1) by blast
  let ?a = "a\<lparr>a_tx_ring := tx, a_remain_plen := a_mtu a, a_prefilled_ring := q, a_current_packet := fst x, a_cursor := (fst x, 46)\<rparr>"
  have "data_flush a = Some ?a" using q(1) tx(1) by (simp add: data_flush_def split: prod.split)
  moreover have "flushed a = hd (flushed a) # flushed ?a" using q(3) assms(3) by (simp add: flushed_def)
  ultimately show ?thesis using q(2,3) tx(2-4) by (intro exI [of _ ?a]) simp
qed

lemma data_flush_empty:
  assumes "rb_inv (a_prefilled_ring a)" "rb_items (a_prefilled_ring a) = []"
  shows "data_flush a = None"
  using rbq.pop_empty [OF assms, of "[]"] by (simp add: data_flush_def split: Option.bind_splits)

lemma take_append_take: "length xs \<le> n \<Longrightarrow> take n (take n (xs @ [y]) @ ys) = take n (xs @ y # ys)"
  by (cases "length xs = n") simp_all

lemma flushes_drain:
  assumes "rb_inv (a_prefilled_ring a)" "rb_inv (a_tx_ring a)" "k \<le> length (rb_items (a_prefilled_ring a))"
  shows "\<exists>a'. flushes k a = Some a' \<and> rb_inv (a_prefilled_ring a') \<and> rb_items (a_prefilled_ring a') = drop k (rb_items (a_prefilled_ring a))
    \<and> rb_items (a_tx_ring a') = take (rb_cap (a_tx_ring a)) (rb_items (a_tx_ring a) @ take k (flushed a))"
  using assms
proof (induction k arbitrary: a)
  case 0
  then show ?case using rbq.bounded [OF 0(2)] by simp
next
  case (Suc k)
  then obtain x xs where xs: "rb_items (a_prefilled_ring a) = x # xs" by (cases "rb_items (a_prefilled_ring a)") auto
  obtain a1 where a1: "data_flush a = Some a1" "rb_inv (a_prefilled_ring a1)" "rb_inv (a_tx_ring a1)" "rb_cap (a_tx_ring a1) = rb_cap (a_tx_ring a)"
      "rb_items (a_prefilled_ring a1) = xs" "flushed a = hd (flushed a) # flushed a1"
      "rb_items (a_tx_ring a1) = take (rb_cap (a_tx_ring a)) (rb_items (a_tx_ring a) @ [hd (flushed a)])"
    using data_flush_pops [OF Suc.prems(1,2) xs] by blast
  have "take (Suc k) (flushed a) = hd (flushed a) # take k (flushed a1)" by (subst a1(6)) simp
  then show ?case
    using Suc.IH [OF a1(2,3)] a1(1,4,5,7) xs Suc.prems(3) take_append_take [OF rbq.bounded [OF Suc.prems(2)]] by (simp del: take_append)
qed

text \<open>The loop goes through the states \<open>flushes k a\<close> as long as there is nothing to place.\<close>

lemma data_space_flushes:
  assumes "\<And>a'. data_room a' th = 0" "flushes (Suc k) a = None"
  shows "data_space True a th = None"
  using assms(2)
proof (induction k arbitrary: a)
  case 0
  then have "data_flush a = None" by (simp split: Option.bind_splits)
  then show ?case by (subst data_space.simps) simp
next
  case (Suc k)
  show ?case
  proof (cases "data_flush a")
    case (Some a1)
    then have "data_space True a1 th = None" using Suc.IH [of a1] Suc.prems by simp
    then show ?thesis using Some assms(1) by (subst data_space.simps) simp
  qed (subst data_space.simps, simp)
qed

lemma data_room_nothing: "th_pos_high th = th_pos_current th \<Longrightarrow> data_room a th = 0"
  using data_room_le [of a th] by (simp add: unat_eq_0)

lemma flushes_Suc: "flushes (Suc k) a = do { a \<leftarrow> flushes k a; data_flush a }"
proof (induction k arbitrary: a)
  case 0
  then show ?case by (cases "data_flush a") simp_all
next
  case (Suc k)
  then show ?case by (cases "data_flush a") simp_all
qed

text \<open>Without anything to send the loop takes every packet of the prefilled ring and then dereferences NULL.\<close>

lemma flushes_crash:
  assumes "rb_inv (a_prefilled_ring a)" "rb_inv (a_tx_ring a)"
  shows "flushes (Suc (length (rb_items (a_prefilled_ring a)))) a = None"
  unfolding flushes_Suc using flushes_drain [OF assms order.refl] data_flush_empty by auto

lemma data_space_drains:
  assumes "rb_inv (a_prefilled_ring a)" "rb_inv (a_tx_ring a)" "th_pos_high th = th_pos_current th"
  shows "data_space flush a th = None"
proof -
  have room: "data_room a' th = 0" for a' by (rule data_room_nothing [OF assms(3)])
  have fl: "data_space True a th = None" using data_space_flushes [OF room flushes_crash [OF assms(1,2)]] .
  show ?thesis
  proof (cases flush)
    case False
    then show ?thesis using fl room by (subst data_space.simps) simp
  qed (use fl in simp)
qed

section \<open>The position in the stream\<close>

lemma os_thread_set:
  assumes "os_thread a sid = Some th"
  shows "os_thread (set_os_thread a sid th') sid' = (if sid' = sid then Some th' else os_thread a sid')"
proof -
  obtain ths where ths: "a_threads a = Some ths" "a_os_threads a + unat sid < length ths"
    using assms by (auto simp: os_thread_def split: Option.bind_splits if_splits)
  have "unat sid = unat sid' \<longleftrightarrow> sid' = sid" by (metis unsigned_word_eqI)
  then show ?thesis using ths by (auto simp: os_thread_def set_os_thread_def nth_list_update)
qed

text \<open>What a call that returns does to the streams.\<close>

lemma data_hdr_streams:
  assumes "sctp_build_data_hdr heap a sid = Some (heap', a', r)" "a_current_packet a \<noteq> NULL"
  shows "\<exists>th buf n. os_thread a sid = Some th \<and> th_buffer th = Some buf \<and> unat (th_pos_current th) + unat n \<le> length buf
    \<and> unat n \<le> unat (th_pos_high th - th_pos_current th)
    \<and> (\<forall>sid'. os_thread a' sid' = (if sid' = sid then Some (th\<lparr>th_pos_current := th_pos_current th + (n - 16)\<rparr>) else os_thread a sid'))"
proof -
  from assms obtain th a1 x n k buf payload where d: "os_thread a sid = Some th" "data_space (a_remain_plen a < 20) a th = Some (a1, x)"
      "data_align a1 x = (n, k)" "th_buffer th = Some buf" "mread buf (unat (th_pos_current th)) (unat n) = Some payload"
      "\<exists>a2. a' = set_os_thread a2 sid (th\<lparr>th_pos_current := th_pos_current th + (n - 16)\<rparr>) \<and> a_threads a2 = a_threads a1 \<and> a_os_threads a2 = a_os_threads a1"
    by (fastforce simp: sctp_build_data_hdr_def Let_def split: Option.bind_splits prod.splits)
  have a1: "x = data_room a1 th" "a_threads a1 = a_threads a" "a_os_threads a1 = a_os_threads a" using data_space_returns [OF d(2)] by simp_all
  obtain a2 where a2: "a' = set_os_thread a2 sid (th\<lparr>th_pos_current := th_pos_current th + (n - 16)\<rparr>)" "a_threads a2 = a_threads a" "a_os_threads a2 = a_os_threads a"
    using d(6) a1 by auto
  have th: "os_thread a2 sid' = os_thread a sid'" for sid' unfolding os_thread_def a2(2,3) ..
  have "unat n \<le> unat (th_pos_high th - th_pos_current th)" using data_align_le [OF d(3)] data_room_le [of a1 th] unfolding a1(1) by (rule order_trans)
  moreover have "unat (th_pos_current th) + unat n \<le> length buf" using d(5) by (auto simp: mread_def split: if_splits)
  moreover have "os_thread a' sid' = (if sid' = sid then Some (th\<lparr>th_pos_current := th_pos_current th + (n - 16)\<rparr>) else os_thread a sid')" for sid'
    using a2(1) os_thread_set [of a2 sid th] d(1) th by simp
  ultimately show ?thesis using d(1,4) by blast
qed

text \<open>A stream whose position lies sixteen bytes before the end of its message, or outside of it.\<close>

definition tail_kept :: "bytes \<Rightarrow> u32 \<Rightarrow> sctp_thread \<Rightarrow> bool" where
  "tail_kept buf high th \<longleftrightarrow> th_buffer th = Some buf \<and> th_pos_high th = high
     \<and> (unat (th_pos_current th) + 16 \<le> unat high \<or> length buf < unat (th_pos_current th))"

lemma data_hdr_tail:
  assumes "sctp_build_data_hdr heap a sid = Some (heap', a', r)" "os_thread a sid' = Some th" "tail_kept buf high th"
    and "unat high \<le> length buf" "length buf + 16 < 2 ^ 32"
  shows "\<exists>th'. os_thread a' sid' = Some th' \<and> tail_kept buf high th'"
proof (cases "a_current_packet a = NULL \<or> sid' \<noteq> sid")
  case True
  then show ?thesis
  proof
    assume "a_current_packet a = NULL"
    then show ?thesis using assms(1-3) by (simp add: sctp_build_data_hdr_def)
  next
    assume "sid' \<noteq> sid"
    then show ?thesis using data_hdr_streams [OF assms(1)] assms(1-3) by (cases "a_current_packet a = NULL") (auto simp: sctp_build_data_hdr_def)
  qed
next
  case False
  then obtain n where n: "unat (th_pos_current th) + unat n \<le> length buf" "unat n \<le> unat (th_pos_high th - th_pos_current th)"
      "os_thread a' sid' = Some (th\<lparr>th_pos_current := th_pos_current th + (n - 16)\<rparr>)"
    using data_hdr_streams [OF assms(1)] assms(2,3) by (auto simp: tail_kept_def)
  let ?c = "th_pos_current th"
  have c: "unat ?c + 16 \<le> unat high" "th_pos_high th = high" using assms(3) n(1) by (auto simp: tail_kept_def)
  have "?c \<le> high" using c(1) by (simp add: word_le_nat_alt)
  then have "unat (high - ?c) = unat high - unat ?c" by (rule unat_sub)
  then have le: "unat ?c + unat n \<le> unat high" using n(2) c by simp
  have "unat ?c + unat n < 2 ^ 32" using n(1) assms(5) by linarith
  then have s: "unat (?c + n) = unat ?c + unat n" by (simp add: unat_word_ariths)
  have "unat (?c + n - 16) = (if 16 \<le> unat ?c + unat n then unat ?c + unat n - 16 else unat ?c + unat n + 2 ^ 32 - 16)"
    using unat_sub_if' [of "?c + n" 16] by (simp add: s)
  then have "unat (?c + n - 16) + 16 \<le> unat high \<or> length buf < unat (?c + n - 16)" using le c(1) assms(5) by (auto split: if_splits)
  moreover have eq: "?c + (n - 16) = ?c + n - 16" by simp
  ultimately show ?thesis using n(3) assms(3) unfolding eq by (simp add: tail_kept_def)
qed

fun data_calls :: "pheap \<Rightarrow> sctp_association \<Rightarrow> u16 list \<Rightarrow> (pheap \<times> sctp_association) option" where
  "data_calls heap a [] = Some (heap, a)"
| "data_calls heap a (sid # sids) = do { (heap, a, _) \<leftarrow> sctp_build_data_hdr heap a sid; data_calls heap a sids }"

lemma data_calls_tail:
  assumes "data_calls heap a sids = Some (heap', a')" "os_thread a sid = Some th" "tail_kept buf high th"
    and "unat high \<le> length buf" "length buf + 16 < 2 ^ 32"
  shows "\<exists>th'. os_thread a' sid = Some th' \<and> tail_kept buf high th'"
  using assms(1-3)
proof (induction sids arbitrary: heap a th)
  case (Cons s sids)
  then obtain heap1 a1 r where c: "sctp_build_data_hdr heap a s = Some (heap1, a1, r)" "data_calls heap1 a1 sids = Some (heap', a')"
    by (auto split: Option.bind_splits)
  then show ?case using data_hdr_tail [OF c(1) Cons.prems(2,3) assms(4,5)] Cons.IH by blast
qed auto

section \<open>The chunk\<close>

definition data_hdr :: "sctp_association \<Rightarrow> u16 \<Rightarrow> sctp_thread \<Rightarrow> u32 \<Rightarrow> u16 \<Rightarrow> bytes" where
  "data_hdr a sid th pplen len = enc_fld \<lparr>fld_type = SCTP_DATA, fld_flags = data_flags th pplen, fld_len = htons len\<rparr>
     @ enc_data \<lparr>data_tsn = a_tsn a, data_so = htons sid, data_sn = th_ssn th, data_proto_def = th_proto th\<rparr>"

lemma length_data_hdr [simp]: "length (data_hdr a sid th pplen len) = 16"
  by (simp add: data_hdr_def)

text \<open>The current packet \<open>p\<close> with \<open>mem\<close> as its bytes, the cursor at \<open>off\<close> and at least the remaining length behind it.\<close>

definition packet_open :: "pheap \<Rightarrow> sctp_association \<Rightarrow> ptr \<Rightarrow> bytes \<Rightarrow> nat \<Rightarrow> bool" where
  "packet_open heap a p mem off \<longleftrightarrow> p \<noteq> NULL \<and> a_current_packet a = p \<and> a_cursor a = (p, off) \<and> heap p = Some mem \<and> 46 \<le> off
     \<and> off + unat (a_remain_plen a) \<le> length mem"

lemma data_chunk_built:
  assumes op: "packet_open heap a p mem off" and rm: "32 \<le> unat (a_remain_plen a)"
    and th: "os_thread a sid = Some th" "th_buffer th = Some buf" "unat (th_pos_high th) \<le> length buf"
    and left: "unat (th_pos_current th) + 16 \<le> unat (th_pos_high th)"
    and n: "n = data_len (unat (a_remain_plen a) - 16) (unat (th_pos_high th) - unat (th_pos_current th))" and k: "k = (n + 3) div 4 * 4"
  shows "\<exists>heap' a' mem'. sctp_build_data_hdr heap a sid = Some (heap', a', 0) \<and> packet_open heap' a' p mem' (off + k)
    \<and> take n (drop off mem') = data_hdr a sid th (of_nat n) (of_nat n) @ take (n - 16) (drop (unat (th_pos_current th)) buf)
    \<and> take off mem' = splice (take off mem) 38 (word_bytes 4 (a_ver_tag a))
    \<and> os_thread a' sid = Some (th\<lparr>th_pos_current := th_pos_current th + of_nat (n - 16)\<rparr>)
    \<and> a_remain_plen a' = a_remain_plen a - of_nat k \<and> a_tsn a' = a_tsn a + htonl 1"
proof -
  let ?R = "unat (a_remain_plen a)" and ?c = "th_pos_current th" and ?L = "unat (th_pos_high th) - unat (th_pos_current th)"
  have o: "p \<noteq> NULL" "a_current_packet a = p" "a_cursor a = (p, off)" "heap p = Some mem" "46 \<le> off" "off + ?R \<le> length mem"
    using op by (simp_all add: packet_open_def)
  have "?c \<le> th_pos_high th" using left by (simp add: word_le_nat_alt)
  then have hc: "unat (th_pos_high th - ?c) = ?L" by (rule unat_sub)
  have R16: "16 \<le> ?R" using rm by simp
  have room: "unat (data_room a th) = min (?R - 16) ?L" using data_room_unat [OF R16, of th] hc by simp
  then have "data_room a th \<noteq> 0" using rm left by (intro notI) simp
  then have sp: "data_space (a_remain_plen a < 20) a th = Some (a, data_room a th)"
    using rm by (simp add: data_space_room word_less_nat_alt)
  obtain wn wk where al: "data_align a (data_room a th) = (wn, wk)" "unat wn = n" "unat wk = k" "k \<le> ?R - 16"
    using data_align_unat [OF R16 room] n k by auto
  have wn: "wn = of_nat n" "wk = of_nat k" using al(2,3) by auto
  have n16: "16 \<le> n" "n \<le> ?L" using data_len_bounds [of "?R - 16" ?L] rm left n by auto
  have nk: "n \<le> k" "unat (wk - wn) = k - n" using k al(2,3) by (simp, subst unat_sub) (simp_all add: word_le_nat_alt)
  let ?pay = "take n (drop (unat ?c) buf)" and ?h = "data_hdr a sid th (of_nat n) (of_nat n)"
  let ?d = "?h @ ?pay @ replicate (k - n) 0"
  have mr: "mread buf (unat ?c) (unat wn) = Some ?pay" using al(2) n16(2) th(3) left by (simp add: mread_def)
  have lp: "length ?pay = n" using n16(2) th(3) left by simp
  have ld: "off + length ?d \<le> length mem" using lp nk(1) al(4) o(6) rm by simp
  let ?m1 = "splice mem off ?d"
  have w: "mwrite mem off ?d = Some ?m1" using ld by (simp add: mwrite_def)
  let ?m2 = "splice ?m1 38 (word_bytes 4 (a_ver_tag a))"
  have w2: "put_u32 ?m1 38 (a_ver_tag a) = Some ?m2" using o(5) ld by (simp add: mwrite_def)
  have len: "length ?m2 = length mem" using ld o(5) by simp
  have "take n (drop off ?m2) = take n (drop off ?m1)"
    using take_drop_splice_after [of 38 "word_bytes 4 (a_ver_tag a)" off ?m1 n] o(5) ld by simp
  also have "\<dots> = take n (take (length ?d) (drop off ?m1))" using lp by simp
  also have "\<dots> = take n ?d" by (simp only: take_drop_splice_same [OF ld])
  also have "\<dots> = ?h @ take (n - 16) (drop (unat ?c) buf)" using n16(1) lp by simp
  finally have chunk: "take n (drop off ?m2) = ?h @ take (n - 16) (drop (unat ?c) buf)" .
  have front: "take off ?m2 = splice (take off mem) 38 (word_bytes 4 (a_ver_tag a))"
    using o(5,6) by (simp add: splice_def min_def drop_take)
  define slots where "slots = (let i = unat (ntohl (a_tsn a + htonl 1) AND RTX_MASK) in
    (a_rtx a)[i := (a_rtx a ! i)\<lparr>sl_tsn := ntohl (a_tsn a + htonl 1), sl_buffer := Some (unat sid, ?c), sl_len := wn,
                     sl_stream_id := ucast sid, sl_acked := 0, sl_in_use := 1, sl_retry_count := 0\<rparr>])"
  define a2 where "a2 = a\<lparr>a_tsn := a_tsn a + htonl 1, a_cursor := (p, off + k), a_remain_plen := a_remain_plen a - wk, a_rtx := slots\<rparr>"
  let ?a = "set_os_thread a2 sid (th\<lparr>th_pos_current := ?c + (wn - 16)\<rparr>)"
  have uc: "(ucast (of_nat n :: u32) :: u16) = of_nat n" by (metis al(2) wn(1) ucast_of_unat)
  have call: "sctp_build_data_hdr heap a sid = Some (heap(p \<mapsto> ?m2), ?a, 0)"
    unfolding sctp_build_data_hdr_def using o(1-4) th(1,2) sp al(1) mr w w2 nk(2) al(3)
    by (simp add: data_hdr_def wn(1) uc a2_def slots_def Let_def set_os_thread_def)
  have "of_nat (n - 16) = (of_nat n - 16 :: u32)" using n16(1) by simp
  then have "os_thread ?a sid = Some (th\<lparr>th_pos_current := ?c + of_nat (n - 16)\<rparr>)"
    using os_thread_set [of a2 sid th] th(1) wn(1) by (simp add: a2_def os_thread_def cong: if_cong)
  moreover have "unat (a_remain_plen a - wk) = ?R - k" using al(3,4) by (subst unat_sub) (simp_all add: word_le_nat_alt)
  then have "packet_open (heap(p \<mapsto> ?m2)) ?a p ?m2 (off + k)"
    using o al(4) len rm by (simp add: packet_open_def a2_def set_os_thread_def)
  ultimately show ?thesis using call chunk front wn(2) by (intro exI conjI) (assumption | simp add: a2_def set_os_thread_def)+
qed

section \<open>The older builder\<close>

lemma splice_append: "splice (h @ t) (length h + k) d = h @ splice t k d"
  by (simp add: splice_def)

lemma frame_put_at:
  assumes "length (mac_mac m) = 12" "k + length d \<le> length t"
  shows "mwrite (frame_bytes m i c t) (46 + k) d = Some (frame_bytes m i c (splice t k d))"
proof -
  let ?h = "enc_mac m @ enc_ipv4 i @ enc_cmn c"
  have h: "length ?h = 46" using length_enc_mac [OF assms(1)] by simp
  have f: "frame_bytes m i c x = ?h @ x" for x by (simp add: frame_bytes_def)
  show ?thesis using splice_append [of ?h t k d] h assms(2) unfolding f by (simp add: mwrite_def)
qed

definition data_pad :: "nat \<Rightarrow> nat" where
  "data_pad n = (4 - n mod 4) mod 4"

lemma data_pad_word:
  assumes "n \<le> 1438"
  shows "(- (16 + of_nat n)) AND (3 :: u32) = of_nat (data_pad n)"
proof -
  have "unat (16 + of_nat n :: u32) = 16 + n" using assms by (simp add: unat_word_ariths unat_of_nat)
  then have "unat (- (16 + of_nat n) :: u32) = 2 ^ 32 - (16 + n)" using unat_sub_if' [of 0 "16 + of_nat n :: u32"] by simp
  then have "unat ((- (16 + of_nat n)) AND (mask 2) :: u32) = (2 ^ 32 - (16 + n)) mod 4" by (simp add: take_bit_eq_mask [symmetric] unsigned_take_bit_eq take_bit_eq_mod unat_mod_distrib)
  also have "\<dots> = data_pad n"
  proof (cases "n mod 4 = 0")
    case True
    then obtain q where "n = 4 * q" by auto
    moreover have "2 ^ 32 - (16 + 4 * q) = 4 * (1073741820 - q)" by simp
    ultimately show ?thesis by (simp add: data_pad_def)
  next
    case False
    define q r where "q = n div 4" and "r = n mod 4"
    have nr: "n = 4 * q + r" "0 < r" "r < 4" using False by (simp_all add: q_def r_def)
    have "2 ^ 32 - (16 + n) = 4 * (1073741819 - q) + (4 - r)" using nr assms by simp
    moreover have "(4 * (1073741819 - q) + (4 - r)) mod 4 = 4 - r" using nr(2) by simp
    ultimately show ?thesis using nr(2) by (simp add: data_pad_def r_def)
  qed
  finally show ?thesis by (simp add: word_unat_eq_iff mask_eq_exp_minus_1 unat_of_nat data_pad_def)
qed

text \<open>The packet with one chunk, padded to a multiple of four bytes, its checksums filled in.\<close>

definition data_chunk :: "sctp_association \<Rightarrow> u16 \<Rightarrow> sctp_thread \<Rightarrow> bytes \<Rightarrow> nat \<Rightarrow> bytes" where
  "data_chunk a sid th buf n = data_hdr a sid th 1438 (of_nat (16 + n)) @ take n (drop (unat (th_pos_current th)) buf) @ replicate (data_pad n) 0"

definition ip_sealed :: "ipv4_hdr \<Rightarrow> ipv4_hdr" where
  "ip_sealed i = i\<lparr>ip_check := NOT (of_nat (ones (osum (enc_ipv4 (i\<lparr>ip_check := 0\<rparr>)))))\<rparr>"

definition cmn_sealed :: "sctp_common_hdr \<Rightarrow> u32 \<Rightarrow> bytes \<Rightarrow> sctp_common_hdr" where
  "cmn_sealed c tag chunk = c\<lparr>cmn_tag := tag, cmn_check := NOT (crc_bytes (enc_cmn (c\<lparr>cmn_tag := tag, cmn_check := 0\<rparr>) @ chunk) 0xFFFFFFFF)\<rparr>"

lemma seal_tail:
  assumes "length (mac_mac m) = 12" "unat L = 12 + length chunk"
  shows "do { mem \<leftarrow> put_u16 (frame_bytes m i c (chunk @ rest)) (14 + 10) 0;
              chk \<leftarrow> tcp_checksum mem 14 20;
              mem \<leftarrow> put_u16 mem (14 + 10) chk;
              mem \<leftarrow> put_u32 mem (34 + 4) tag;
              mem \<leftarrow> put_u32 mem (34 + 8) 0;
              crc \<leftarrow> generate_crc32c_on_crc32c (drop 34 mem) L 0xFFFFFFFF;
              mem \<leftarrow> put_u32 mem (34 + 8) (NOT (ucast crc));
              k mem }
    = k (frame_bytes m (ip_sealed i) (cmn_sealed c tag chunk) (chunk @ rest))"
proof -
  let ?c = "c\<lparr>cmn_tag := tag, cmn_check := 0\<rparr>"
  have ck: "tcp_checksum (frame_bytes m (i\<lparr>ip_check := 0\<rparr>) c t) 14 20 = Some (ip_check (ip_sealed i))" for t
    using tcp_checksum_sum [of 14 20 "frame_bytes m (i\<lparr>ip_check := 0\<rparr>) c t"] frame_fields(1) [OF assms(1)] length_frame_bytes [OF assms(1)]
    by (simp add: ip_sealed_def)
  have "generate_crc32c_on_crc32c (enc_cmn ?c @ chunk @ rest) L 0xFFFFFFFF = Some (ucast (crc_bytes (enc_cmn ?c @ chunk) 0xFFFFFFFF))"
    using generate_crc32c_on_crc32c_bytes [of L "enc_cmn ?c @ chunk @ rest" "0xFFFFFFFF"] assms(2) by simp
  then show ?thesis
    using frame_put [OF assms(1)] frame_fields(5) [OF assms(1)] by (simp add: ck cmn_sealed_def ip_sealed_def)
qed

lemma data_chunk_kept:
  assumes bu: "rb_inv (a_bundling a)" "rb_items (a_bundling a) = []" "0 < rb_cap (a_bundling a)"
    and pre: "rb_inv (a_prefilled_ring a)" "rb_items (a_prefilled_ring a) = (p, 46) # rest" "prefilled heap p m i c t"
    and th: "os_thread a sid = Some th" "th_buffer th = Some buf" "unat (th_pos_high th) \<le> length buf" "th_pos_current th \<le> th_pos_high th"
    and n: "n = unat (th_pos_high th) - unat (th_pos_current th)" "62 + n + data_pad n < 1500" "16 + n + data_pad n \<le> length t"
  shows "\<exists>a'. build_prefilled_mac_ip_sctp_data_hdr heap a sid
      = Some (heap(p \<mapsto> frame_bytes m (ip_sealed i) (cmn_sealed c (a_ver_tag a) (data_chunk a sid th buf n)) (data_chunk a sid th buf n @ drop (16 + n + data_pad n) t)), a', 0)
    \<and> rb_items (a_bundling a') = [(p, of_nat (62 + n + data_pad n))] \<and> rb_items (a_prefilled_ring a') = rest @ [(p, 46)]
    \<and> a_tx_ring a' = a_tx_ring a \<and> os_thread a' sid = Some (th\<lparr>th_pos_current := th_pos_high th\<rparr>) \<and> a_tsn a' = a_tsn a + htonl 1"
proof -
  have m: "p \<noteq> NULL" "heap p = Some (frame_bytes m i c t)" "length (mac_mac m) = 12" using pre(3) by (simp_all add: prefilled_def)
  have b0: "rb_pop [] (a_bundling a) = Some (a_bundling a, None)" using rbq.pop_empty [OF bu(1,2)] by simp
  obtain r where r: "rb_pop [] (a_prefilled_ring a) = Some (r, Some (p, 46))" "rb_inv r" "rb_cap r = rb_cap (a_prefilled_ring a)" "rb_items r = rest"
    using rbq.pop_front [OF pre(1,2), of "[]"] by blast
  have "length (rb_items r) < rb_cap r" using rbq.bounded [OF pre(1)] r pre(2) by simp
  then obtain pr where pr: "push_item r p 46 = Some pr" "rb_items pr = rest @ [(p, 46)]" using push_item_room [OF r(2)] r(4) by fastforce
  have "length (rb_items (a_bundling a)) < rb_cap (a_bundling a)" using bu(2,3) by simp
  then obtain bu' where bu': "push_item (a_bundling a) p (of_nat (62 + n + data_pad n)) = Some bu'" "rb_items bu' = [(p, of_nat (62 + n + data_pad n))]"
    using push_item_room [OF bu(1), of p] bu(2) by fastforce
  have hc: "unat (th_pos_high th - th_pos_current th) = n" using th(4) n(1) by (simp add: unat_sub)
  then have w: "th_pos_high th - th_pos_current th = of_nat n" by auto
  have pad: "data_pad n < 4" by (simp add: data_pad_def)
  have n8: "n \<le> 1438" using n(2) by simp
  have mn: "min (1438 :: u32) (of_nat n) = of_nat n" using hc w n8 by (simp add: min_def word_le_nat_alt)
  have un: "unat (of_nat n :: u32) = n" using hc w by simp
  have up: "unat (of_nat (data_pad n) :: u32) = data_pad n" using pad by (simp add: unat_of_nat)
  have uc: "(ucast (of_nat n :: u32) :: u16) = of_nat n" using un by (metis ucast_of_unat)
  let ?ch = "data_chunk a sid th buf n" and ?pay = "take n (drop (unat (th_pos_current th)) buf)" and ?z = "replicate (data_pad n) (0 :: u8)"
  have lp: "length ?pay = n" using n(1) th(3) by simp
  then have lch: "length ?ch = 16 + n + data_pad n" by (simp add: data_chunk_def)
  have mr: "mread buf (unat (th_pos_current th)) n = Some ?pay" using n(1) th(3,4) by (simp add: mread_def word_le_nat_alt)
  let ?t1 = "splice t (16 + n) ?z"
  have w1: "mwrite (frame_bytes m i c t) (46 + (16 + n)) ?z = Some (frame_bytes m i c ?t1)"
    by (rule frame_put_at [OF m(3)]) (use n(3) in simp)
  have "splice ?t1 0 (data_hdr a sid th 1438 (of_nat (16 + n)) @ ?pay) = ?ch @ drop (16 + n + data_pad n) t"
    using n(3) lp by (simp add: splice_def data_chunk_def)
  then have w2: "mwrite (frame_bytes m i c ?t1) (46 + 0) (data_hdr a sid th 1438 (of_nat (16 + n)) @ ?pay)
      = Some (frame_bytes m i c (?ch @ drop (16 + n + data_pad n) t))"
    using frame_put_at [OF m(3), of 0 "data_hdr a sid th 1438 (of_nat (16 + n)) @ ?pay" ?t1 i c] n(3) lp by simp
  have u16: "unat (of_nat (16 + n) :: u16) = 16 + n" using n8 by (simp add: unat_of_nat del: of_nat_add)
  have L: "unat (12 + ucast (of_nat (16 + n) :: u16) + of_nat (data_pad n) :: u32) = 12 + length ?ch"
    using u16 up n(2) lch unat_ucast_up [of "of_nat (16 + n) :: u16", where 'b = 32] by (simp add: unat_word_ariths del: of_nat_add)
  let ?plen = "46 + of_nat (data_pad n) + (16 + of_nat n) :: u32"
  have upl: "unat ?plen = 62 + n + data_pad n" using un up n(2) by (simp add: unat_word_ariths)
  then have pl: "?plen < 1500" "(ucast ?plen :: u64) = of_nat (62 + n + data_pad n)" using n(2) ucast_of_unat [of ?plen, where 'b = 64] by (simp_all add: word_less_nat_alt)
  define a1 where "a1 = a\<lparr>a_tsn := a_tsn a + htonl 1, a_prefilled_ring := r\<rparr>"
  let ?a = "(set_os_thread a1 sid (th\<lparr>th_pos_current := th_pos_current th + of_nat n\<rparr>))\<lparr>a_bundling := bu', a_prefilled_ring := pr\<rparr>"
  note tail = seal_tail [OF m(3) L, of i c "drop (16 + n + data_pad n) t" "a_ver_tag a" "\<lambda>mem. Some (heap(p \<mapsto> mem), ?a, 0)"]
  have "build_prefilled_mac_ip_sctp_data_hdr heap a sid
      = Some (heap(p \<mapsto> frame_bytes m (ip_sealed i) (cmn_sealed c (a_ver_tag a) ?ch) (?ch @ drop (16 + n + data_pad n) t)), ?a, 0)"
    unfolding build_prefilled_mac_ip_sctp_data_hdr_def
    using b0 r(1) m(2) th(1,2) mr w1 w2 pr(1) bu'(1) pl tail
    by (simp add: Let_def w mn un up uc data_pad_word [OF n8, simplified] data_hdr_def a1_def set_os_thread_def)
  moreover have "os_thread ?a sid = Some (th\<lparr>th_pos_current := th_pos_high th\<rparr>)"
    using os_thread_set [of a1 sid th] th(1) w by (simp add: a1_def os_thread_def set_os_thread_def algebra_simps cong: if_cong)
  ultimately show ?thesis using bu'(2) pr(2) by (intro exI [of _ ?a]) (simp add: a1_def set_os_thread_def)
qed

section \<open>Properties\<close>

text \<open>An association with one stream, whose message is 64 bytes long, and an open packet.\<close>

definition data_thread :: sctp_thread where
  "data_thread = thread_cleared\<lparr>th_buffer := Some (replicate 64 1), th_pos_high := 64\<rparr>"

definition data_assoc :: "sctp_thread \<Rightarrow> sctp_association" where
  "data_assoc th = (sample_assoc SCTP_ESTABLISHED 2 4 [7])\<lparr>a_threads := Some [th], a_current_packet := 9, a_cursor := (9, 46), a_remain_plen := 100\<rparr>"

definition data_heap :: pheap where
  "data_heap = [9 \<mapsto> replicate 200 0]"

lemma data_sample:
  "packet_open data_heap (data_assoc th) 9 (replicate 200 0) 46" "os_thread (data_assoc th) 0 = Some th" "unat (a_remain_plen (data_assoc th)) = 100"
  "rb_inv (a_prefilled_ring (data_assoc th))" "rb_inv (a_tx_ring (data_assoc th))" "rb_inv (a_bundling (data_assoc th))"
  "th_buffer data_thread = Some (replicate 64 1)" "th_pos_high data_thread = 64" "th_pos_current data_thread = 0"
  using ring_of_ok [of "[7]"] ring_of_ok [of "[]"]
  by (simp_all add: packet_open_def data_assoc_def data_heap_def sample_assoc_def os_thread_def data_thread_def thread_cleared_def)

lemma data_sample_len:
  "32 \<le> unat (a_remain_plen (data_assoc th))" "unat (th_pos_high data_thread) \<le> length (replicate 64 (1 :: u8))"
  "unat (th_pos_current data_thread) + 16 \<le> unat (th_pos_high data_thread)"
  "64 = data_len (unat (a_remain_plen (data_assoc data_thread)) - 16) (unat (th_pos_high data_thread) - unat (th_pos_current data_thread))"
  "64 = (64 + 3) div 4 * (4 :: nat)"
  by (simp_all add: data_sample(3,8,9) data_len_def)

lemmas data_sample_call = data_sample(1) data_sample_len(1) data_sample(2,7) data_sample_len(2-5)

text \<open>
  C15. A DATA chunk, when the packet has room for 32 bytes and the stream has 16 bytes left: the chunk of length \<open>n\<close> at the cursor is the
  chunk header, with \<open>n\<close> as its length, the DATA header and the next \<open>n - 16\<close> bytes of the message; the stream advances by \<open>n - 16\<close>, the cursor by \<open>n\<close>
  rounded up to a multiple of four, and what precedes the cursor is unchanged but for the verification tag. The code copies 16 more
  bytes of the message behind the chunk, where the next chunk begins.
\<close>

theorem data_chunk_carries:
  assumes "packet_open heap a p mem off" "32 \<le> unat (a_remain_plen a)"
    and "os_thread a sid = Some th" "th_buffer th = Some buf" "unat (th_pos_high th) \<le> length buf"
    and "unat (th_pos_current th) + 16 \<le> unat (th_pos_high th)"
    and "n = data_len (unat (a_remain_plen a) - 16) (unat (th_pos_high th) - unat (th_pos_current th))" "k = (n + 3) div 4 * 4"
  shows "\<exists>heap' a' mem'. sctp_build_data_hdr heap a sid = Some (heap', a', 0) \<and> packet_open heap' a' p mem' (off + k)
    \<and> take n (drop off mem') = data_hdr a sid th (of_nat n) (of_nat n) @ take (n - 16) (drop (unat (th_pos_current th)) buf)
    \<and> take off mem' = splice (take off mem) 38 (word_bytes 4 (a_ver_tag a))
    \<and> os_thread a' sid = Some (th\<lparr>th_pos_current := th_pos_current th + of_nat (n - 16)\<rparr>)
    \<and> a_remain_plen a' = a_remain_plen a - of_nat k \<and> a_tsn a' = a_tsn a + htonl 1"
  by (rule data_chunk_built [OF assms])

theorem data_chunk_carries_witness:
  "\<exists>heap' a' mem'. sctp_build_data_hdr data_heap (data_assoc data_thread) 0 = Some (heap', a', 0) \<and> packet_open heap' a' 9 mem' (46 + 64)
    \<and> take 64 (drop 46 mem') = data_hdr (data_assoc data_thread) 0 data_thread (of_nat 64) (of_nat 64)
        @ take (64 - 16) (drop (unat (th_pos_current data_thread)) (replicate 64 1))
    \<and> os_thread a' 0 = Some (data_thread\<lparr>th_pos_current := th_pos_current data_thread + of_nat (64 - 16)\<rparr>)"
  using data_chunk_carries [OF data_sample_call] by blast

text \<open>
  C16. The last 16 bytes of a message are never sent: whatever chunks are built, for this and for other streams, the position of the stream stays 16
  bytes before the end of the message, or has left the message.
\<close>

theorem data_tail_never_sent:
  assumes "data_calls heap a sids = Some (heap', a')" "os_thread a sid = Some th" "th_buffer th = Some buf"
    and "unat (th_pos_current th) + 16 \<le> unat (th_pos_high th)" "unat (th_pos_high th) \<le> length buf" "length buf + 16 < 2 ^ 32"
  shows "\<exists>th'. os_thread a' sid = Some th' \<and> th_buffer th' = Some buf \<and> th_pos_high th' = th_pos_high th
    \<and> (unat (th_pos_current th') + 16 \<le> unat (th_pos_high th) \<or> length buf < unat (th_pos_current th'))"
proof -
  have "tail_kept buf (th_pos_high th) th" using assms(3,4) by (simp add: tail_kept_def)
  from data_calls_tail [OF assms(1,2) this assms(5,6)] show ?thesis by (auto simp: tail_kept_def)
qed

theorem data_tail_never_sent_witness:
  "\<exists>heap' a' th'. data_calls data_heap (data_assoc data_thread) [0] = Some (heap', a') \<and> os_thread a' 0 = Some th'
    \<and> (unat (th_pos_current th') + 16 \<le> 64 \<or> 64 < unat (th_pos_current th'))"
proof -
  obtain heap' a' where c: "sctp_build_data_hdr data_heap (data_assoc data_thread) 0 = Some (heap', a', 0)"
    using data_chunk_built [OF data_sample_call] by blast
  then have calls: "data_calls data_heap (data_assoc data_thread) [0] = Some (heap', a')" by simp
  have "length (replicate 64 (1 :: u8)) + 16 < 2 ^ 32" by simp
  from data_tail_never_sent [OF calls data_sample(2,7) data_sample_len(3,2) this] obtain th' where "os_thread a' 0 = Some th'"
      "unat (th_pos_current th') + 16 \<le> unat (th_pos_high data_thread) \<or> length (replicate 64 (1 :: u8)) < unat (th_pos_current th')" by blast
  then show ?thesis using calls by (auto simp: data_sample(8) simp del: data_calls.simps)
qed

text \<open>
  C17. A call for a stream with nothing to send does not return. With \<open>n\<close> packets in the prefilled ring the code after the label \<^verbatim>\<open>flush\<close>
  is executed \<open>n\<close> times, each time with nothing to place: after \<open>k\<close> times \<open>k\<close> packets have left the ring, and the current packet and the first \<open>k - 1\<close> of
  them have been queued for sending, without any data (those for which the transmit ring has no room are lost). The next time the ring is empty
  and the NULL it yields is dereferenced.
\<close>

theorem data_empty_stream:
  assumes "os_thread a sid = Some th" "th_pos_high th = th_pos_current th" "a_current_packet a \<noteq> NULL"
    and "rb_inv (a_prefilled_ring a)" "rb_inv (a_tx_ring a)"
  shows "(\<forall>k \<le> length (rb_items (a_prefilled_ring a)). \<exists>a'. flushes k a = Some a' \<and> data_room a' th = 0
      \<and> rb_items (a_prefilled_ring a') = drop k (rb_items (a_prefilled_ring a))
      \<and> rb_items (a_tx_ring a') = take (rb_cap (a_tx_ring a)) (rb_items (a_tx_ring a) @ take k (flushed a)))
    \<and> flushes (Suc (length (rb_items (a_prefilled_ring a)))) a = None
    \<and> sctp_build_data_hdr heap a sid = None"
proof -
  have "sctp_build_data_hdr heap a sid = None"
    using assms(1,3) data_space_drains [OF assms(4,5,2)] by (simp add: sctp_build_data_hdr_def)
  then show ?thesis
    using flushes_drain [OF assms(4,5)] data_room_nothing [OF assms(2)] flushes_crash [OF assms(4,5)] by blast
qed

theorem data_empty_stream_witness:
  "\<exists>a'. flushes 1 (data_assoc thread_cleared) = Some a' \<and> rb_items (a_prefilled_ring a') = [] \<and> rb_items (a_tx_ring a') = [(9, 1400)]
    \<and> sctp_build_data_hdr data_heap (data_assoc thread_cleared) 0 = None"
proof -
  let ?a = "data_assoc thread_cleared"
  have items: "rb_items (a_prefilled_ring ?a) = [(7, 46)]" "rb_items (a_tx_ring ?a) = []" "rb_cap (a_tx_ring ?a) = 4"
    using ring_of_ok [of "[7]"] ring_of_ok [of "[]"] by (simp_all add: data_assoc_def sample_assoc_def)
  have "take 1 (flushed ?a) = [(9, 1400)]" by (simp add: flushed_def data_assoc_def sample_assoc_def)
  moreover have "a_current_packet ?a \<noteq> NULL" "th_pos_high thread_cleared = th_pos_current thread_cleared"
    using data_sample(1) [of thread_cleared] by (simp_all add: thread_cleared_def packet_open_def)
  ultimately show ?thesis
    using data_empty_stream [OF data_sample(2) _ _ data_sample(4,5), of thread_cleared data_heap] items by auto
qed

text \<open>
  C18. The older builder on a message that leaves room in the packet: the packet holds the chunk with the whole message, padded with zeros to a multiple of four,
  the header checksum and the CRC are right (the total length of the IP header is not set), and the packet is kept for bundling. It
  is also put back into the ring of free packets: the same address stands in both rings.
\<close>

theorem data_chunk_bundled:
  assumes "rb_inv (a_bundling a)" "rb_items (a_bundling a) = []" "0 < rb_cap (a_bundling a)"
    and "rb_inv (a_prefilled_ring a)" "rb_items (a_prefilled_ring a) = (p, 46) # rest" "prefilled heap p m i c t"
    and "os_thread a sid = Some th" "th_buffer th = Some buf" "unat (th_pos_high th) \<le> length buf" "th_pos_current th \<le> th_pos_high th"
    and "n = unat (th_pos_high th) - unat (th_pos_current th)" "62 + n + data_pad n < 1500" "16 + n + data_pad n \<le> length t"
  shows "\<exists>a'. build_prefilled_mac_ip_sctp_data_hdr heap a sid
      = Some (heap(p \<mapsto> frame_bytes m (ip_sealed i) (cmn_sealed c (a_ver_tag a) (data_chunk a sid th buf n)) (data_chunk a sid th buf n @ drop (16 + n + data_pad n) t)), a', 0)
    \<and> rb_items (a_bundling a') = [(p, of_nat (62 + n + data_pad n))] \<and> rb_items (a_prefilled_ring a') = rest @ [(p, 46)]
    \<and> a_tx_ring a' = a_tx_ring a \<and> os_thread a' sid = Some (th\<lparr>th_pos_current := th_pos_high th\<rparr>) \<and> a_tsn a' = a_tsn a + htonl 1"
  by (rule data_chunk_kept [OF assms])

theorem data_chunk_bundled_witness:
  "\<exists>heap' a'. build_prefilled_mac_ip_sctp_data_hdr [7 \<mapsto> frame_bytes sample_mac (sample_ip 1 2) (sample_cmn 3 4) (replicate 100 0)] (data_assoc data_thread) 0
      = Some (heap', a', 0) \<and> rb_items (a_bundling a') = [(7, of_nat (62 + 64 + data_pad 64))] \<and> rb_items (a_prefilled_ring a') = [] @ [(7, 46)]"
proof -
  have p: "prefilled [7 \<mapsto> frame_bytes sample_mac (sample_ip 1 2) (sample_cmn 3 4) (replicate 100 0)] 7 sample_mac (sample_ip 1 2) (sample_cmn 3 4) (replicate 100 0)"
    by (simp add: prefilled_def)
  have r: "rb_items (a_bundling (data_assoc data_thread)) = []" "0 < rb_cap (a_bundling (data_assoc data_thread))"
      "rb_items (a_prefilled_ring (data_assoc data_thread)) = [(7, 46)]"
    using ring_of_ok [of "[7]"] ring_of_ok [of "[]"] by (simp_all add: data_assoc_def sample_assoc_def)
  have n: "th_pos_current data_thread \<le> th_pos_high data_thread" "64 = unat (th_pos_high data_thread) - unat (th_pos_current data_thread)"
      "62 + 64 + data_pad 64 < 1500" "16 + 64 + data_pad 64 \<le> length (replicate 100 (0 :: u8))"
    by (simp_all add: data_sample(8,9) data_pad_def)
  show ?thesis
    using data_chunk_bundled [OF data_sample(6) r(1,2) data_sample(4) r(3) p data_sample(2,7) data_sample_len(2) n] by blast
qed

end
