(* ===== verification/Legacy.thy ===== *)
theory Legacy
  imports Frames
begin

unbundle bit_operations_syntax

text \<open>
  The older SCTP endpoint, whose state is \<^verbatim>\<open>connection_args_t\<close> (\<^verbatim>\<open>include/if_packet.h\<close>): the receiver \<^verbatim>\<open>src/if_ipv4_sctp.c\<close> with \<^verbatim>\<open>src/if_ipv4.c\<close>
  and \<^verbatim>\<open>src/if_sctp.c\<close>, and the sender \<^verbatim>\<open>src/build_sctp_hdr_raw.c\<close>. The results of a handler are the packet, in which it clears the
  checksum, the state and the boolean it returns.
\<close>

section \<open>State\<close>

text \<open>
  \<open>ca_payload\<close> is the buffer for the cookie, \<open>ca_ipv4\<close> the IP header the connection compares with and \<open>ca_sctp\<close> the buffer
  of the header to be sent; \<open>None\<close> is NULL. \<open>ca_errors\<close> points to the first node of the linked list of errors, and \<open>ca_nodes\<close> is the memory of its nodes.
\<close>

record node =
  nd_data :: u16
  nd_next :: ptr

type_synonym node_heap = "ptr \<rightharpoonup> node"

record connection_args =
  ca_payload :: "bytes option"
  ca_srcport :: u32
  ca_dstport :: u32
  ca_src_ver_tag :: u32
  ca_dst_ver_tag :: u32
  ca_src_tsn :: u32
  ca_dst_tsn :: u32
  ca_self_a_rwnd :: u32
  ca_dest_a_rwnd :: u32
  ca_self_os :: u16
  ca_self_mis :: u16
  ca_dest_os :: u16
  ca_dest_mis :: u16
  ca_hmac :: u64
  ca_errors :: ptr
  ca_nodes :: node_heap
  ca_ipv4 :: "ipv4_hdr option"
  ca_SCTP_STATUS :: SCTP_STATUS
  ca_sctp :: "bytes option"

abbreviation (input) SCTP_ERROR :: u8 where "SCTP_ERROR \<equiv> 9"
abbreviation (input) SCTP_ERROR_STALE_COOKIE :: u16 where "SCTP_ERROR_STALE_COOKIE \<equiv> 3"

section \<open>Receiving\<close>

definition if_ipv4 :: "bytes \<Rightarrow> u64 \<Rightarrow> connection_args \<Rightarrow> bool option" where
  "if_ipv4 packet sz args =
     (if 34 \<le> sz
      then do { hdr \<leftarrow> load dec_ipv4 20 packet 14;
                ip \<leftarrow> ca_ipv4 args;
                Some (ip_src_addr hdr = ip_dest_addr ip) }
      else Some False)"

text \<open>
  The list of errors. A pointer is followed and stored through only when it is not NULL and there is a node. \<open>alloc\<close> is the address \<^verbatim>\<open>malloc\<close> returns,
  NULL when it fails; what a new node holds does not matter, both its fields are stored before they are read.
\<close>

definition node_at :: "node_heap \<Rightarrow> ptr \<Rightarrow> node option" where
  "node_at h p = (if p = NULL then None else h p)"

definition store_data :: "node_heap \<Rightarrow> ptr \<Rightarrow> u16 \<Rightarrow> node_heap option" where
  "store_data h p d = do { n \<leftarrow> node_at h p; Some (h(p \<mapsto> n\<lparr>nd_data := d\<rparr>)) }"

definition store_next :: "node_heap \<Rightarrow> ptr \<Rightarrow> ptr \<Rightarrow> node_heap option" where
  "store_next h p q = do { n \<leftarrow> node_at h p; Some (h(p \<mapsto> n\<lparr>nd_next := q\<rparr>)) }"

definition malloc_node :: "ptr \<Rightarrow> node_heap \<Rightarrow> node_heap" where
  "malloc_node alloc h = (if alloc = NULL then h else h(alloc \<mapsto> \<lparr>nd_data = 0, nd_next = NULL\<rparr>))"

text \<open>\<^verbatim>\<open>for (; NULL != (node = node->next);)\<close>: the value of \<open>node\<close> after the loop.\<close>

partial_function (option) list_end :: "node_heap \<Rightarrow> ptr \<Rightarrow> ptr option" where
  "list_end h node =
     do { n \<leftarrow> node_at h node;
          if nd_next n \<noteq> NULL then list_end h (nd_next n) else Some (nd_next n) }"

definition add_error :: "ptr \<Rightarrow> u16 \<Rightarrow> connection_args \<Rightarrow> connection_args option" where
  "add_error alloc e args =
     do { (errors, h) \<leftarrow>
            (if ca_errors args = NULL then Some (alloc, malloc_node alloc (ca_nodes args))
             else do { node \<leftarrow> list_end (ca_nodes args) (ca_errors args);
                       h \<leftarrow> store_next (malloc_node alloc (ca_nodes args)) node alloc;
                       Some (ca_errors args, h) });
          let node = alloc;
          h \<leftarrow> store_data h node e;
          h \<leftarrow> store_next h node NULL;
          Some (args\<lparr>ca_errors := errors, ca_nodes := h\<rparr>) }"

text \<open>The switch on the type of the chunk, in a packet whose checksum was right.\<close>

definition if_sctp_chunk ::
  "ptr \<Rightarrow> bytes \<Rightarrow> sctp_common_hdr \<Rightarrow> sctp_fld_hdr \<Rightarrow> connection_args \<Rightarrow> (bytes \<times> connection_args \<times> bool) option" where
  "if_sctp_chunk alloc packet cmn fld args =
     (if fld_type fld = SCTP_INIT
      then
        if ca_SCTP_STATUS args = SCTP_LISTEN
        then do { tag \<leftarrow> get_u32 packet 16;
                  rwnd \<leftarrow> get_u32 packet 20;
                  os \<leftarrow> get_u16 packet 24;
                  mis \<leftarrow> get_u16 packet 26;
                  ip \<leftarrow> ca_ipv4 args;
                  pl \<leftarrow> ca_payload args;
                  pl \<leftarrow> mwrite pl 0 (word_bytes 4 (ip_src_addr ip) @ word_bytes 4 (ip_dest_addr ip)
                         @ word_bytes 4 (ca_dst_ver_tag args) @ word_bytes 8 (ca_hmac args));
                  Some (packet, args\<lparr>ca_SCTP_STATUS := SCTP_INIT_RECEIVED, ca_dstport := ucast (cmn_srcp cmn), ca_dst_tsn := tag,
                    ca_src_ver_tag := tag, ca_dest_a_rwnd := rwnd, ca_dest_os := ntohs os,
                    ca_dest_mis := ntohs mis, ca_payload := Some pl\<rparr>, True) }
        else Some (packet, args, False)
      else if fld_type fld = SCTP_INIT_ACK
      then
        if cmn_tag cmn \<noteq> ca_dst_ver_tag args then Some (packet, args, False)
        else do { tag \<leftarrow> get_u32 packet 16;
                  rwnd \<leftarrow> get_u32 packet 20;
                  mis \<leftarrow> get_u16 packet 26;
                  os \<leftarrow> get_u16 packet 24;
                  Some (packet, args\<lparr>ca_dst_tsn := tag, ca_src_ver_tag := tag, ca_dest_a_rwnd := rwnd,
                    ca_dest_mis := mis, ca_dest_os := os\<rparr>, True) }
      else if fld_type fld = SCTP_COOKIE_ECHO
      then
        if ca_SCTP_STATUS args = SCTP_INIT_ACK_SENT
        then
          if cmn_tag cmn \<noteq> ca_dst_ver_tag args then Some (packet, args, False)
          else do { tsn \<leftarrow> get_u32 packet 16;
                    if ucast tsn \<noteq> ca_hmac args
                    then do { args \<leftarrow> add_error alloc SCTP_ERROR_STALE_COOKIE args; Some (packet, args, True) }
                    else Some (packet, args, True) }
        else Some (packet, args, False)
      else Some (packet, args, fld_type fld = SCTP_COOKIE_ACK))"

definition if_sctp :: "ptr \<Rightarrow> bytes \<Rightarrow> u64 \<Rightarrow> connection_args \<Rightarrow> (bytes \<times> connection_args \<times> bool) option" where
  "if_sctp alloc packet sz args =
     (if 16 > sz then Some (packet, args, False)
      else
        do { cmn \<leftarrow> load dec_cmn 12 packet 0;
             fld \<leftarrow> load dec_fld 4 packet 12;
             let sz = (ucast (htons (fld_len fld)) :: u64);
             if ucast (cmn_srcp cmn) \<noteq> ca_dstport args \<or> ucast (cmn_dstp cmn) \<noteq> ca_srcport args then Some (packet, args, False)
             else
               do { packet \<leftarrow> put_u32 packet 8 0;
                    crc \<leftarrow> generate_crc32c packet (ucast (12 + sz));
                    if cmn_check cmn \<noteq> crc then Some (packet, args, False)
                    else if_sctp_chunk alloc packet cmn fld args } })"

definition if_ipv4_sctp :: "ptr \<Rightarrow> bytes \<Rightarrow> u64 \<Rightarrow> connection_args \<Rightarrow> (bytes \<times> connection_args \<times> bool) option" where
  "if_ipv4_sctp alloc packet sz args =
     do { ok \<leftarrow> if_ipv4 packet sz args;
          if ok
          then do { (p, args, r) \<leftarrow> if_sctp alloc (drop 34 packet) (sz - 14 - 20) args; Some (take 34 packet @ p, args, r) }
          else Some (packet, args, False) }"

section \<open>Sending\<close>

text \<open>
  The header in the buffer \<open>ca_sctp\<close>. The cases for the other types of chunk are empty; that of ERROR tests the list of errors. The
  arguments \<open>tag\<close> and \<open>flags\<close> of the code are not used by it.
\<close>

definition hdr_finish :: "bytes \<Rightarrow> u16 \<Rightarrow> bytes option" where
  "hdr_finish mem len = do { crc \<leftarrow> generate_crc32c mem (12 + ucast len); put_u32 mem 8 crc }"

definition build_sctp_hdr_raw ::
  "random_state \<Rightarrow> u16 \<Rightarrow> u16 \<Rightarrow> u8 \<Rightarrow> u16 \<Rightarrow> u16 \<Rightarrow> u32 \<Rightarrow> connection_args \<Rightarrow> (random_state \<times> connection_args \<times> bool) option" where
  "build_sctp_hdr_raw rnd srcp dstp type os mis a_rwnd args =
     do { mem \<leftarrow> ca_sctp args;
          mem \<leftarrow> put_u32 mem 8 0;
          mem \<leftarrow> put_u16 mem 0 (htons srcp);
          mem \<leftarrow> put_u16 mem 2 (htons dstp);
          if type = SCTP_INIT \<or> type = SCTP_INIT_ACK
          then
            do { mem \<leftarrow> put_u32 mem 4 (if type = SCTP_INIT then 0 else ca_src_ver_tag args);
                 let len = (if type = SCTP_INIT then 20 else 20 + 8);
                 let (tsn, rnd) = get_random_u32 rnd;
                 let (tag, rnd) = get_random_u32 rnd;
                 mem \<leftarrow> mwrite mem 12 (enc_fld \<lparr>fld_type = type, fld_flags = 0, fld_len = htons len\<rparr>
                          @ enc_init \<lparr>init_tag = tag, init_a_rwnd = htonl a_rwnd, init_os = htons os, init_mis = htons mis, init_tsn = tsn\<rparr>);
                 mem \<leftarrow> hdr_finish mem len;
                 Some (rnd, args\<lparr>ca_sctp := Some mem, ca_self_os := htons os, ca_self_mis := htons mis, ca_src_tsn := tsn, ca_dst_ver_tag := tag\<rparr>, True) }
          else if type = SCTP_COOKIE_ECHO
          then
            do { mem \<leftarrow> put_u32 mem 4 (ca_src_ver_tag args);
                 mem \<leftarrow> mwrite mem 12 (enc_fld \<lparr>fld_type = type, fld_flags = 0, fld_len = htons 8\<rparr> @ word_bytes 4 (ucast (ca_hmac args) :: u32));
                 mem \<leftarrow> hdr_finish mem 8;
                 Some (rnd, args\<lparr>ca_sctp := Some mem\<rparr>, True) }
          else if type = SCTP_COOKIE_ACK
          then
            do { mem \<leftarrow> put_u32 mem 4 (ca_src_ver_tag args);
                 mem \<leftarrow> mwrite mem 12 (enc_fld \<lparr>fld_type = type, fld_flags = 0, fld_len = htons 4\<rparr>);
                 mem \<leftarrow> hdr_finish mem 4;
                 Some (rnd, args\<lparr>ca_sctp := Some mem\<rparr>, True) }
          else Some (rnd, args\<lparr>ca_sctp := Some mem\<rparr>, type = SCTP_ERROR \<longrightarrow> ca_errors args \<noteq> NULL) }"

section \<open>Sealed packets\<close>

lemma cmn_split:
  assumes "12 \<le> length mem"
  shows "\<exists>c. mem = enc_cmn c @ drop 12 mem"
proof -
  let ?b = "take 12 mem"
  have w: "word_bytes 2 (bytes_word x :: u16) = x" if "length x = 2" for x using that word_bytes_bytes_word [of x, where 'a = 16] by simp
  have v: "word_bytes 4 (bytes_word x :: u32) = x" if "length x = 4" for x using that word_bytes_bytes_word [of x, where 'a = 32] by simp
  have "drop 2 ?b = take 2 (drop 2 ?b) @ drop 4 ?b" "drop 4 ?b = take 4 (drop 4 ?b) @ drop 8 ?b" "drop 8 ?b = take 4 (drop 8 ?b)"
    using append_take_drop_id [of 2 "drop 2 ?b"] append_take_drop_id [of 4 "drop 4 ?b"] by simp_all
  then have "?b = take 2 ?b @ take 2 (drop 2 ?b) @ take 4 (drop 4 ?b) @ take 4 (drop 8 ?b)" by (metis append_take_drop_id)
  also have "\<dots> = enc_cmn (dec_cmn ?b)" using assms by (simp add: enc_cmn_def dec_cmn_def w v)
  finally show ?thesis by (metis append_take_drop_id)
qed

lemma cmn_put:
  "put_u32 (enc_cmn c @ t) 8 v = Some (enc_cmn (c\<lparr>cmn_check := v\<rparr>) @ t)" "put_u32 (enc_cmn c @ t) 4 v = Some (enc_cmn (c\<lparr>cmn_tag := v\<rparr>) @ t)"
  "put_u16 (enc_cmn c @ t) 0 w = Some (enc_cmn (c\<lparr>cmn_srcp := w\<rparr>) @ t)" "put_u16 (enc_cmn c @ t) 2 w = Some (enc_cmn (c\<lparr>cmn_dstp := w\<rparr>) @ t)"
  by (simp_all add: mwrite_def) (simp_all add: enc_cmn_def splice_def)

lemma cmn_put_body: "length d \<le> length t \<Longrightarrow> mwrite (enc_cmn c @ t) 12 d = Some (enc_cmn c @ d @ drop (length d) t)"
  by (simp add: mwrite_def splice_def)

text \<open>A packet whose checksum is right for the common header and the chunk \<open>body\<close>.\<close>

definition seal :: "sctp_common_hdr \<Rightarrow> bytes \<Rightarrow> sctp_common_hdr" where
  "seal c body = c\<lparr>cmn_check := NOT (crc_bytes (enc_cmn (c\<lparr>cmn_check := 0\<rparr>) @ body) 0xFFFFFFFF)\<rparr>"

lemma seal_crc:
  assumes "unat L = 12 + length body"
  shows "generate_crc32c (enc_cmn (c\<lparr>cmn_check := 0\<rparr>) @ body @ rest) L = Some (cmn_check (seal c body))"
  using generate_crc32c_bytes [of L "enc_cmn (c\<lparr>cmn_check := 0\<rparr>) @ body @ rest"] assms by (simp add: seal_def)

lemma hdr_finish_seal:
  assumes "cmn_check c = 0" "unat len = length body" "length body < 65536 - 12"
  shows "hdr_finish (enc_cmn c @ body @ rest) len = Some (enc_cmn (seal c body) @ body @ rest)"
proof -
  have c: "c\<lparr>cmn_check := 0\<rparr> = c" using assms(1) by simp
  have "unat (12 + ucast len :: u32) = 12 + length body"
    using assms(2,3) unat_ucast_up [of len, where 'b = 32] by (simp add: unat_word_ariths)
  from seal_crc [OF this, of c rest] show ?thesis unfolding hdr_finish_def c by (simp add: cmn_put seal_def)
qed

lemma seal_fields [simp]: "cmn_srcp (seal c b) = cmn_srcp c" "cmn_dstp (seal c b) = cmn_dstp c" "cmn_tag (seal c b) = cmn_tag c"
  by (simp_all add: seal_def)

lemma load_at:
  "load dec_cmn 12 (enc_cmn c @ t) 0 = Some c" "load dec_fld 4 (enc_cmn c @ enc_fld f @ t) 12 = Some f"
  "get_u32 (enc_cmn c @ enc_fld f @ word_bytes 4 (v :: u32) @ t) 16 = Some v"
  using cmn.dec_enc fld.dec_enc by (simp_all add: load_def mread_def get_word_in)

lemma init_at:
  "get_u32 (enc_cmn c @ enc_fld f @ enc_init j @ t) 16 = Some (init_tag j)" "get_u32 (enc_cmn c @ enc_fld f @ enc_init j @ t) 20 = Some (init_a_rwnd j)"
  "get_u16 (enc_cmn c @ enc_fld f @ enc_init j @ t) 24 = Some (init_os j)" "get_u16 (enc_cmn c @ enc_fld f @ enc_init j @ t) 26 = Some (init_mis j)"
  by (simp_all add: get_word_in) (simp_all add: enc_init_def)

text \<open>The receiver on a sealed packet for its ports: the checksum is cleared and the chunk is handled.\<close>

definition ports_match :: "connection_args \<Rightarrow> sctp_common_hdr \<Rightarrow> bool" where
  "ports_match args c \<longleftrightarrow> ucast (cmn_srcp c) = ca_dstport args \<and> ucast (cmn_dstp c) = ca_srcport args"

lemma if_sctp_sealed:
  assumes "16 \<le> sz" "ports_match args c" "unat (ntohs (fld_len f)) = 4 + length t"
  shows "if_sctp alloc (enc_cmn (seal c (enc_fld f @ t)) @ enc_fld f @ t @ rest) sz args
    = if_sctp_chunk alloc (enc_cmn (c\<lparr>cmn_check := 0\<rparr>) @ enc_fld f @ t @ rest) (seal c (enc_fld f @ t)) f args"
proof -
  let ?b = "enc_fld f @ t" and ?L = "ucast (12 + ucast (ntohs (fld_len f)) :: u64) :: u32"
  have "unat (ntohs (fld_len f)) < 65536" using unsigned_less [of "ntohs (fld_len f)", where ?'a = nat] by simp
  then have "unat ?L = 12 + length ?b" using assms(3) by (simp add: unsigned_ucast_eq take_bit_nat_eq_self unat_word_ariths)
  then have crc: "generate_crc32c (enc_cmn (c\<lparr>cmn_check := 0\<rparr>) @ enc_fld f @ t @ rest) ?L = Some (cmn_check (seal c ?b))"
    using seal_crc [of ?L ?b c rest] by simp
  have z: "put_u32 (enc_cmn (seal c ?b) @ enc_fld f @ t @ rest) 8 0 = Some (enc_cmn (c\<lparr>cmn_check := 0\<rparr>) @ enc_fld f @ t @ rest)"
    by (simp add: cmn_put seal_def)
  have "\<not> 16 > sz" using assms(1) by simp
  then show ?thesis
    unfolding if_sctp_def using load_at(1,2) crc z assms(2) by (simp add: ports_match_def Let_def)
qed

section \<open>What is sent and received\<close>

abbreviation init_fld :: "u8 \<Rightarrow> u16 \<Rightarrow> sctp_fld_hdr" where
  "init_fld t len \<equiv> \<lparr>fld_type = t, fld_flags = 0, fld_len = htons len\<rparr>"

definition hdr_cmn :: "u16 \<Rightarrow> u16 \<Rightarrow> u32 \<Rightarrow> sctp_common_hdr" where
  "hdr_cmn srcp dstp tag = \<lparr>cmn_srcp = htons srcp, cmn_dstp = htons dstp, cmn_tag = tag, cmn_check = 0\<rparr>"

definition hdr_init :: "u32 \<Rightarrow> u32 \<Rightarrow> u16 \<Rightarrow> u16 \<Rightarrow> u32 \<Rightarrow> sctp_init_hdr" where
  "hdr_init tag aw os mis tsn = \<lparr>init_tag = tag, init_a_rwnd = htonl aw, init_os = htons os, init_mis = htons mis, init_tsn = tsn\<rparr>"

text \<open>The start of every header: the checksum cleared, the ports and the tag stored.\<close>

lemma hdr_start:
  assumes "12 \<le> length mem"
  shows "do { mem \<leftarrow> put_u32 mem 8 0; mem \<leftarrow> put_u16 mem 0 (htons srcp); mem \<leftarrow> put_u16 mem 2 (htons dstp); mem \<leftarrow> put_u32 mem 4 tag; k mem }
    = k (enc_cmn (hdr_cmn srcp dstp tag) @ drop 12 mem)"
proof -
  obtain c where c: "mem = enc_cmn c @ drop 12 mem" using cmn_split [OF assms] by blast
  have "c\<lparr>cmn_check := 0, cmn_srcp := htons srcp, cmn_dstp := htons dstp, cmn_tag := tag\<rparr> = hdr_cmn srcp dstp tag" by (simp add: hdr_cmn_def)
  then show ?thesis by (subst c) (simp add: cmn_put)
qed

lemma hdr_body:
  assumes "unat len = length d + length x" "length d + length x < 65536 - 12" "t = e @ x @ rest" "length e = length d"
  shows "do { mem \<leftarrow> mwrite (enc_cmn (hdr_cmn srcp dstp tag) @ t) 12 d; mem \<leftarrow> hdr_finish mem len; k mem }
    = k (enc_cmn (seal (hdr_cmn srcp dstp tag) (d @ x)) @ (d @ x) @ rest)"
proof -
  have "hdr_finish (enc_cmn (hdr_cmn srcp dstp tag) @ (d @ x) @ rest) len = Some (enc_cmn (seal (hdr_cmn srcp dstp tag) (d @ x)) @ (d @ x) @ rest)"
    by (rule hdr_finish_seal) (use assms(1,2) in \<open>simp_all add: hdr_cmn_def\<close>)
  then show ?thesis using cmn_put_body [of d t "hdr_cmn srcp dstp tag"] assms(3,4) by simp
qed

text \<open>The INIT and the INIT ACK that are built, the latter with eight bytes of the buffer behind it.\<close>

lemma init_built:
  assumes "ca_sctp args = Some mem" "40 \<le> length mem" "t = SCTP_INIT \<and> len = 20 \<and> vt = 0 \<or> t = SCTP_INIT_ACK \<and> len = 28 \<and> vt = ca_src_ver_tag args"
  shows "\<exists>rnd' tag tsn x rest b. b = enc_fld (init_fld t len) @ enc_init (hdr_init tag aw os mis tsn) @ x \<and> length b = unat len
    \<and> build_sctp_hdr_raw rnd srcp dstp t os mis aw args
      = Some (rnd', args\<lparr>ca_sctp := Some (enc_cmn (seal (hdr_cmn srcp dstp vt) b) @ b @ rest),
          ca_self_os := htons os, ca_self_mis := htons mis, ca_src_tsn := tsn, ca_dst_ver_tag := tag\<rparr>, True)"
proof -
  obtain tsn rnd1 where r1: "get_random_u32 rnd = (tsn, rnd1)" by fastforce
  obtain tag rnd2 where r2: "get_random_u32 rnd1 = (tag, rnd2)" by fastforce
  let ?d = "enc_fld (init_fld t len) @ enc_init (hdr_init tag aw os mis tsn)"
  define x where "x = take (unat len - 20) (drop 32 mem)"
  define rest where "rest = drop (unat len - 20) (drop 32 mem)"
  have len: "unat len = 20 + length x" "length x \<le> 8" using assms(2,3) by (auto simp: x_def)
  have t: "drop 12 mem = take 20 (drop 12 mem) @ x @ rest"
    using append_take_drop_id [of 20 "drop 12 mem"] append_take_drop_id [of "unat len - 20" "drop 32 mem"] by (simp add: x_def rest_def)
  have m: "12 \<le> length mem" "length (take 20 (drop 12 mem)) = length ?d" using assms(2) by simp_all
  have sel: "(if t = SCTP_INIT then 0 else ca_src_ver_tag args) = vt" "(if t = SCTP_INIT then 20 else 20 + 8) = len" "t = SCTP_INIT \<or> t = SCTP_INIT_ACK"
    using assms(3) by auto
  have L: "unat len = length ?d + length x" "length ?d + length x < 65536 - 12" using len by simp_all
  let ?a = "\<lambda>mem. Some (rnd2, args\<lparr>ca_sctp := Some mem, ca_self_os := htons os, ca_self_mis := htons mis, ca_src_tsn := tsn, ca_dst_ver_tag := tag\<rparr>, True)"
  note st = hdr_start [OF m(1), of srcp dstp vt "\<lambda>mem. do { mem \<leftarrow> mwrite mem 12 ?d; mem \<leftarrow> hdr_finish mem len; ?a mem }"]
  have "build_sctp_hdr_raw rnd srcp dstp t os mis aw args = ?a (enc_cmn (seal (hdr_cmn srcp dstp vt) (?d @ x)) @ (?d @ x) @ rest)"
    unfolding build_sctp_hdr_raw_def assms(1) sel using sel(3) r1 r2 st hdr_body [OF L t m(2), of srcp dstp vt ?a]
    by (simp add: hdr_init_def Let_def)
  then show ?thesis using len(1) by (intro exI [of _ rnd2] exI [of _ tag] exI [of _ tsn] exI [of _ x] exI [of _ rest] exI [of _ "?d @ x"]) simp
qed

text \<open>The receiver on such a packet.\<close>

lemma init_received:
  assumes "b = enc_fld (init_fld t len) @ enc_init j @ x" "length b = unat len" "16 \<le> sz" "ports_match args c"
  shows "if_sctp alloc (enc_cmn (seal c b) @ b @ rest) sz args
    = if_sctp_chunk alloc (enc_cmn (c\<lparr>cmn_check := 0\<rparr>) @ enc_fld (init_fld t len) @ enc_init j @ x @ rest) (seal c b) (init_fld t len) args"
  using if_sctp_sealed [OF assms(3,4), of "init_fld t len" "enc_init j @ x" alloc rest] assms(1,2) by simp

text \<open>The COOKIE ECHO, which carries the low half of \<open>hmac\<close>.\<close>

lemma echo_built:
  assumes "ca_sctp args = Some mem" "20 \<le> length mem"
  shows "\<exists>rest b. b = enc_fld (init_fld SCTP_COOKIE_ECHO 8) @ word_bytes 4 (ucast (ca_hmac args) :: u32)
    \<and> build_sctp_hdr_raw rnd srcp dstp SCTP_COOKIE_ECHO os mis aw args
      = Some (rnd, args\<lparr>ca_sctp := Some (enc_cmn (seal (hdr_cmn srcp dstp (ca_src_ver_tag args)) b) @ b @ rest)\<rparr>, True)"
proof -
  let ?d = "enc_fld (init_fld SCTP_COOKIE_ECHO 8) @ word_bytes 4 (ucast (ca_hmac args) :: u32)"
  have m: "12 \<le> length mem" "length (take 8 (drop 12 mem)) = length ?d" using assms(2) by simp_all
  have t: "drop 12 mem = take 8 (drop 12 mem) @ [] @ drop 20 mem" using append_take_drop_id [of 8 "drop 12 mem"] by simp
  let ?k = "\<lambda>mem. Some (rnd, args\<lparr>ca_sctp := Some mem\<rparr>, True)"
  have "build_sctp_hdr_raw rnd srcp dstp SCTP_COOKIE_ECHO os mis aw args
      = ?k (enc_cmn (seal (hdr_cmn srcp dstp (ca_src_ver_tag args)) (?d @ [])) @ (?d @ []) @ drop 20 mem)"
    unfolding build_sctp_hdr_raw_def assms(1)
    using hdr_start [OF m(1), of srcp dstp "ca_src_ver_tag args" "\<lambda>mem. do { mem \<leftarrow> mwrite mem 12 ?d; mem \<leftarrow> hdr_finish mem 8; ?k mem }"]
      hdr_body [OF _ _ t m(2), of 8 srcp dstp "ca_src_ver_tag args" ?k]
    by simp
  then show ?thesis by (intro exI [of _ "drop 20 mem"] exI [of _ ?d]) simp
qed

lemma echo_received:
  assumes "b = enc_fld (init_fld SCTP_COOKIE_ECHO 8) @ word_bytes 4 (v :: u32)" "16 \<le> sz" "ports_match args c"
  shows "if_sctp alloc (enc_cmn (seal c b) @ b @ rest) sz args
    = if_sctp_chunk alloc (enc_cmn (c\<lparr>cmn_check := 0\<rparr>) @ b @ rest) (seal c b) (init_fld SCTP_COOKIE_ECHO 8) args"
  using if_sctp_sealed [OF assms(2,3), of "init_fld SCTP_COOKIE_ECHO 8" "word_bytes 4 v" alloc rest] assms(1) by simp

section \<open>Steps of the handshake\<close>

definition same_ports :: "connection_args \<Rightarrow> connection_args \<Rightarrow> bool" where
  "same_ports a a' \<longleftrightarrow> ca_srcport a' = ca_srcport a \<and> ca_dstport a' = ca_dstport a"

lemma same_ports_match: "same_ports a a' \<Longrightarrow> ports_match a c \<Longrightarrow> ports_match a' c"
  by (simp add: same_ports_def ports_match_def)

lemma legacy_init_step:
  assumes "ca_sctp cl = Some cm" "40 \<le> length cm" "ca_SCTP_STATUS sv = SCTP_LISTEN" "ca_ipv4 sv = Some ip" "ca_payload sv = Some pl" "20 \<le> length pl"
    and "\<And>v. ports_match sv (hdr_cmn cp sp v)" "16 \<le> sz"
  shows "\<exists>rnd1 cl1 m1 p1 sv1. build_sctp_hdr_raw rnd cp sp SCTP_INIT os mis aw cl = Some (rnd1, cl1, True) \<and> ca_sctp cl1 = Some m1 \<and> 20 \<le> length m1
    \<and> if_sctp alloc m1 sz sv = Some (p1, sv1, True) \<and> ca_src_ver_tag sv1 = ca_dst_ver_tag cl1 \<and> ca_dest_os sv1 = os \<and> ca_dest_mis sv1 = mis
    \<and> ca_SCTP_STATUS sv1 = SCTP_INIT_RECEIVED \<and> ca_sctp sv1 = ca_sctp sv \<and> same_ports sv sv1 \<and> same_ports cl cl1"
proof -
  obtain rnd1 tag tsn x rest b where b: "b = enc_fld (init_fld SCTP_INIT 20) @ enc_init (hdr_init tag aw os mis tsn) @ x" "length b = unat (20 :: u16)"
      "build_sctp_hdr_raw rnd cp sp SCTP_INIT os mis aw cl = Some (rnd1, cl\<lparr>ca_sctp := Some (enc_cmn (seal (hdr_cmn cp sp 0) b) @ b @ rest),
        ca_self_os := htons os, ca_self_mis := htons mis, ca_src_tsn := tsn, ca_dst_ver_tag := tag\<rparr>, True)"
    using init_built [OF assms(1,2), of SCTP_INIT 20 0 aw os mis rnd cp sp] by blast
  define pl' where "pl' = splice pl 0 (word_bytes 4 (ip_src_addr ip) @ word_bytes 4 (ip_dest_addr ip) @ word_bytes 4 (ca_dst_ver_tag sv) @ word_bytes 8 (ca_hmac sv))"
  let ?sv1 = "sv\<lparr>ca_SCTP_STATUS := SCTP_INIT_RECEIVED, ca_dstport := ucast (htons cp), ca_dst_tsn := tag, ca_src_ver_tag := tag,
      ca_dest_a_rwnd := htonl aw, ca_dest_os := os, ca_dest_mis := mis, ca_payload := Some pl'\<rparr>"
  let ?p = "enc_cmn ((hdr_cmn cp sp 0)\<lparr>cmn_check := 0\<rparr>) @ enc_fld (init_fld SCTP_INIT 20) @ enc_init (hdr_init tag aw os mis tsn) @ x @ rest"
  have r: "if_sctp alloc (enc_cmn (seal (hdr_cmn cp sp 0) b) @ b @ rest) sz sv = Some (?p, ?sv1, True)"
    unfolding init_received [OF b(1,2) assms(8) assms(7)] using assms(3-6)
    by (simp add: if_sctp_chunk_def init_at mwrite_def pl'_def hdr_init_def hdr_cmn_def)
  have s: "same_ports sv ?sv1" using assms(7) [of 0] by (simp add: same_ports_def ports_match_def hdr_cmn_def)
  show ?thesis
    by (rule exI [of _ rnd1], rule exI, rule exI, rule exI [of _ ?p], rule exI [of _ ?sv1], intro conjI, rule b(3), simp, simp add: b(2), rule r)
      (simp_all add: s, simp add: same_ports_def)
qed

lemma legacy_init_ack_step:
  assumes "ca_sctp sv = Some sm" "40 \<le> length sm" "ca_src_ver_tag sv = ca_dst_ver_tag cl" "\<And>v. ports_match cl (hdr_cmn sp cp v)" "16 \<le> sz"
  shows "\<exists>rnd2 sv2 m2 p2 cl2. build_sctp_hdr_raw rnd sp cp SCTP_INIT_ACK os mis aw sv = Some (rnd2, sv2, True) \<and> ca_sctp sv2 = Some m2
    \<and> if_sctp alloc m2 sz cl = Some (p2, cl2, True) \<and> ca_src_ver_tag cl2 = ca_dst_ver_tag sv2
    \<and> ca_SCTP_STATUS sv2 = ca_SCTP_STATUS sv \<and> ca_sctp cl2 = ca_sctp cl \<and> same_ports sv sv2"
proof -
  obtain rnd2 tag tsn x rest b where b: "b = enc_fld (init_fld SCTP_INIT_ACK 28) @ enc_init (hdr_init tag aw os mis tsn) @ x" "length b = unat (28 :: u16)"
      "build_sctp_hdr_raw rnd sp cp SCTP_INIT_ACK os mis aw sv = Some (rnd2, sv\<lparr>ca_sctp := Some (enc_cmn (seal (hdr_cmn sp cp (ca_src_ver_tag sv)) b) @ b @ rest),
        ca_self_os := htons os, ca_self_mis := htons mis, ca_src_tsn := tsn, ca_dst_ver_tag := tag\<rparr>, True)"
    using init_built [OF assms(1,2), of SCTP_INIT_ACK 28 "ca_src_ver_tag sv" aw os mis rnd sp cp] by blast
  let ?p = "enc_cmn ((hdr_cmn sp cp (ca_src_ver_tag sv))\<lparr>cmn_check := 0\<rparr>) @ enc_fld (init_fld SCTP_INIT_ACK 28) @ enc_init (hdr_init tag aw os mis tsn) @ x @ rest"
  let ?cl2 = "cl\<lparr>ca_dst_tsn := tag, ca_src_ver_tag := tag, ca_dest_a_rwnd := htonl aw, ca_dest_mis := htons mis, ca_dest_os := htons os\<rparr>"
  have r: "if_sctp alloc (enc_cmn (seal (hdr_cmn sp cp (ca_src_ver_tag sv)) b) @ b @ rest) sz cl = Some (?p, ?cl2, True)"
    unfolding init_received [OF b(1,2) assms(5) assms(4)] using assms(3) by (simp add: if_sctp_chunk_def init_at hdr_init_def hdr_cmn_def)
  show ?thesis
    by (rule exI [of _ rnd2], rule exI, rule exI, rule exI [of _ ?p], rule exI [of _ ?cl2], intro conjI, rule b(3), simp, rule r)
      (simp_all add: same_ports_def)
qed

lemma legacy_echo_step:
  assumes "ca_sctp cl = Some cm" "20 \<le> length cm" "ca_SCTP_STATUS sv \<noteq> SCTP_INIT_ACK_SENT" "\<And>v. ports_match sv (hdr_cmn cp sp v)" "16 \<le> sz"
  shows "\<exists>cl3 m3 p3. build_sctp_hdr_raw rnd cp sp SCTP_COOKIE_ECHO os mis aw cl = Some (rnd, cl3, True) \<and> ca_sctp cl3 = Some m3
    \<and> if_sctp alloc m3 sz sv = Some (p3, sv, False)"
proof -
  obtain rest b where b: "b = enc_fld (init_fld SCTP_COOKIE_ECHO 8) @ word_bytes 4 (ucast (ca_hmac cl) :: u32)"
      "build_sctp_hdr_raw rnd cp sp SCTP_COOKIE_ECHO os mis aw cl
        = Some (rnd, cl\<lparr>ca_sctp := Some (enc_cmn (seal (hdr_cmn cp sp (ca_src_ver_tag cl)) b) @ b @ rest)\<rparr>, True)"
    using echo_built [OF assms(1,2), of rnd cp sp os mis aw] by blast
  have r: "if_sctp alloc (enc_cmn (seal (hdr_cmn cp sp (ca_src_ver_tag cl)) b) @ b @ rest) sz sv
      = Some (enc_cmn ((hdr_cmn cp sp (ca_src_ver_tag cl))\<lparr>cmn_check := 0\<rparr>) @ b @ rest, sv, False)"
    unfolding echo_received [OF b(1) assms(5) assms(4)] using assms(3) by (simp add: if_sctp_chunk_def)
  show ?thesis by (intro exI conjI, rule b(2), simp, rule r)
qed

section \<open>Properties\<close>

text \<open>Two endpoints of the same ports; the server listens and has a buffer for the cookie.\<close>

definition endpoints :: "u16 \<Rightarrow> u16 \<Rightarrow> connection_args \<Rightarrow> connection_args \<Rightarrow> bool" where
  "endpoints cp sp cl sv \<longleftrightarrow> ca_srcport cl = ucast (htons cp) \<and> ca_dstport cl = ucast (htons sp) \<and> ca_srcport sv = ucast (htons sp) \<and> ca_dstport sv = ucast (htons cp)
     \<and> (\<exists>m. ca_sctp cl = Some m \<and> 40 \<le> length m) \<and> (\<exists>m. ca_sctp sv = Some m \<and> 40 \<le> length m)
     \<and> ca_SCTP_STATUS sv = SCTP_LISTEN \<and> ca_ipv4 sv \<noteq> None \<and> (\<exists>pl. ca_payload sv = Some pl \<and> 20 \<le> length pl)"

text \<open>
  C23. The older endpoints understand each other: the INIT that the client builds is accepted by the listening server, which learns the client's tag and stream
  numbers, and the INIT ACK of the server is accepted by the client, which learns the server's tag. The COOKIE ECHO that the client builds
  then is refused: the server is in \<^verbatim>\<open>SCTP_INIT_RECEIVED\<close>, and nothing moves it to \<^verbatim>\<open>SCTP_INIT_ACK_SENT\<close>.
\<close>

theorem legacy_handshake:
  assumes "endpoints cp sp cl sv" "16 \<le> sz"
  shows "\<exists>rnd1 cl1 m1 p1 sv1 rnd2 sv2 m2 p2 cl2 cl3 m3 p3.
    build_sctp_hdr_raw rnd cp sp SCTP_INIT os mis aw cl = Some (rnd1, cl1, True) \<and> ca_sctp cl1 = Some m1
    \<and> if_sctp alloc m1 sz sv = Some (p1, sv1, True) \<and> ca_src_ver_tag sv1 = ca_dst_ver_tag cl1 \<and> ca_dest_os sv1 = os \<and> ca_dest_mis sv1 = mis
    \<and> build_sctp_hdr_raw rnd1 sp cp SCTP_INIT_ACK os' mis' aw' sv1 = Some (rnd2, sv2, True) \<and> ca_sctp sv2 = Some m2
    \<and> if_sctp alloc m2 sz cl1 = Some (p2, cl2, True) \<and> ca_src_ver_tag cl2 = ca_dst_ver_tag sv2
    \<and> build_sctp_hdr_raw rnd2 cp sp SCTP_COOKIE_ECHO os mis aw cl2 = Some (rnd2, cl3, True) \<and> ca_sctp cl3 = Some m3
    \<and> if_sctp alloc m3 sz sv2 = Some (p3, sv2, False)"
proof -
  obtain cm sm ip pl where e: "ca_sctp cl = Some cm" "40 \<le> length cm" "ca_sctp sv = Some sm" "40 \<le> length sm" "ca_SCTP_STATUS sv = SCTP_LISTEN"
      "ca_ipv4 sv = Some ip" "ca_payload sv = Some pl" "20 \<le> length pl"
    using assms(1) by (auto simp: endpoints_def)
  have pm: "ports_match sv (hdr_cmn cp sp v)" "ports_match cl (hdr_cmn sp cp v)" for v
    using assms(1) by (simp_all add: endpoints_def ports_match_def hdr_cmn_def)
  obtain rnd1 cl1 m1 p1 sv1 where s1: "build_sctp_hdr_raw rnd cp sp SCTP_INIT os mis aw cl = Some (rnd1, cl1, True)" "ca_sctp cl1 = Some m1" "20 \<le> length m1"
      "if_sctp alloc m1 sz sv = Some (p1, sv1, True)" "ca_src_ver_tag sv1 = ca_dst_ver_tag cl1" "ca_dest_os sv1 = os" "ca_dest_mis sv1 = mis"
      "ca_SCTP_STATUS sv1 = SCTP_INIT_RECEIVED" "ca_sctp sv1 = ca_sctp sv" "same_ports sv sv1" "same_ports cl cl1"
    using legacy_init_step [OF e(1,2,5-8) pm(1) assms(2), of rnd os mis aw alloc] by blast
  have e1: "ca_sctp sv1 = Some sm" using s1(9) e(3) by simp
  obtain rnd2 sv2 m2 p2 cl2 where s2: "build_sctp_hdr_raw rnd1 sp cp SCTP_INIT_ACK os' mis' aw' sv1 = Some (rnd2, sv2, True)" "ca_sctp sv2 = Some m2"
      "if_sctp alloc m2 sz cl1 = Some (p2, cl2, True)" "ca_src_ver_tag cl2 = ca_dst_ver_tag sv2" "ca_SCTP_STATUS sv2 = ca_SCTP_STATUS sv1"
      "ca_sctp cl2 = ca_sctp cl1" "same_ports sv1 sv2"
    using legacy_init_ack_step [OF e1 e(4) s1(5) same_ports_match [OF s1(11) pm(2)] assms(2), of rnd1 os' mis' aw' alloc] by blast
  have "ca_sctp cl2 = Some m1" "ca_SCTP_STATUS sv2 \<noteq> SCTP_INIT_ACK_SENT" using s1(2,8) s2(5,6) by simp_all
  from legacy_echo_step [OF this(1) s1(3) this(2) same_ports_match [OF s2(7) same_ports_match [OF s1(10) pm(1)]] assms(2), of rnd2 os mis aw alloc]
  show ?thesis using s1 s2 by blast
qed

text \<open>A concrete pair of endpoints.\<close>

definition sample_endpoint :: "SCTP_STATUS \<Rightarrow> u16 \<Rightarrow> u16 \<Rightarrow> connection_args" where
  "sample_endpoint st own peer = \<lparr>ca_payload = Some (replicate 20 0), ca_srcport = ucast (htons own), ca_dstport = ucast (htons peer), ca_src_ver_tag = 0,
     ca_dst_ver_tag = 7, ca_src_tsn = 0, ca_dst_tsn = 0, ca_self_a_rwnd = 0, ca_dest_a_rwnd = 0, ca_self_os = 0, ca_self_mis = 0, ca_dest_os = 0, ca_dest_mis = 0,
     ca_hmac = 5, ca_errors = NULL, ca_nodes = Map.empty, ca_ipv4 = Some (ip_built 1 2 3 4 132), ca_SCTP_STATUS = st, ca_sctp = Some (replicate 40 0)\<rparr>"

theorem legacy_handshake_witness:
  "\<exists>rnd1 cl1 m1 p1 sv1 rnd2 sv2 m2 p2 cl2.
    build_sctp_hdr_raw (random_start []) 1000 80 SCTP_INIT 3 4 5 (sample_endpoint SCTP_INIT_SENT 1000 80) = Some (rnd1, cl1, True) \<and> ca_sctp cl1 = Some m1
    \<and> if_sctp 64 m1 40 (sample_endpoint SCTP_LISTEN 80 1000) = Some (p1, sv1, True) \<and> ca_dest_os sv1 = 3
    \<and> build_sctp_hdr_raw rnd1 80 1000 SCTP_INIT_ACK 6 7 8 sv1 = Some (rnd2, sv2, True) \<and> ca_sctp sv2 = Some m2
    \<and> if_sctp 64 m2 40 cl1 = Some (p2, cl2, True) \<and> ca_src_ver_tag cl2 = ca_dst_ver_tag sv2"
proof -
  have "endpoints 1000 80 (sample_endpoint SCTP_INIT_SENT 1000 80) (sample_endpoint SCTP_LISTEN 80 1000)"
    by (simp add: endpoints_def sample_endpoint_def)
  from legacy_handshake [OF this, of 40 "random_start []" 3 4 5 64 6 7 8] show ?thesis by auto
qed

text \<open>A list of errors in memory: its nodes hold the numbers \<open>ds\<close>, and the last one points to NULL.\<close>

fun errors_at :: "node_heap \<Rightarrow> ptr \<Rightarrow> u16 list \<Rightarrow> bool" where
  "errors_at h p [] \<longleftrightarrow> p = NULL"
| "errors_at h p (d # ds) \<longleftrightarrow> p \<noteq> NULL \<and> (case h p of None \<Rightarrow> False | Some n \<Rightarrow> nd_data n = d \<and> errors_at h (nd_next n) ds)"

text \<open>The loop runs through the whole list and leaves the NULL behind its last node.\<close>

lemma list_end_null: "errors_at h p ds \<Longrightarrow> ds \<noteq> [] \<Longrightarrow> list_end h p = Some NULL"
proof (induction h p ds rule: errors_at.induct)
  case (2 h p d ds)
  then obtain n where n: "p \<noteq> NULL" "h p = Some n" "errors_at h (nd_next n) ds" by (auto split: option.splits)
  show ?case
  proof (cases ds)
    case Nil
    then show ?thesis using n by (subst list_end.simps) (simp add: node_at_def)
  next
    case Cons
    then have "nd_next n \<noteq> NULL" "list_end h (nd_next n) = Some NULL" using n 2 by simp_all
    then show ?thesis using n by (subst list_end.simps) (simp add: node_at_def)
  qed
qed simp

lemma add_error_first:
  assumes "ca_errors args = NULL"
  shows "add_error alloc e args = (if alloc = NULL then None
    else Some (args\<lparr>ca_errors := alloc, ca_nodes := (ca_nodes args)(alloc \<mapsto> \<lparr>nd_data = e, nd_next = NULL\<rparr>)\<rparr>))"
  using assms by (simp add: add_error_def malloc_node_def store_data_def store_next_def node_at_def)

lemma add_error_next:
  assumes "errors_at (ca_nodes args) (ca_errors args) ds" "ds \<noteq> []"
  shows "add_error alloc e args = None"
proof -
  have "ca_errors args \<noteq> NULL" using assms by (cases ds) simp_all
  then show ?thesis using list_end_null [OF assms] by (simp add: add_error_def store_next_def node_at_def)
qed

text \<open>
  C24. A COOKIE ECHO with the right tag and checksum but a wrong cookie is accepted all the same. With no error noted before, and memory for a node, the
  list becomes the one error, nothing else of the state changes, and \<^verbatim>\<open>if_sctp\<close> returns true. When the list holds an error already,
  the loop that looks for its end stops behind it, at NULL, and the store through that pointer ends the call, whatever \<^verbatim>\<open>malloc\<close> returns; a failed
  \<^verbatim>\<open>malloc\<close> for the first error ends it too.
\<close>

theorem legacy_stale_cookie:
  assumes "16 \<le> sz" "ports_match args c" "ca_SCTP_STATUS args = SCTP_INIT_ACK_SENT" "cmn_tag c = ca_dst_ver_tag args" "ucast v \<noteq> ca_hmac args"
    and "b = enc_fld (init_fld SCTP_COOKIE_ECHO 8) @ word_bytes 4 (v :: u32)" and "errors_at (ca_nodes args) (ca_errors args) ds"
  shows "(ds = [] \<and> alloc \<noteq> NULL \<longrightarrow> (\<exists>args' h. if_sctp alloc (enc_cmn (seal c b) @ b @ rest) sz args
          = Some (enc_cmn (c\<lparr>cmn_check := 0\<rparr>) @ b @ rest, args', True)
        \<and> args' = args\<lparr>ca_errors := alloc, ca_nodes := h\<rparr> \<and> errors_at h alloc [SCTP_ERROR_STALE_COOKIE] \<and> (\<forall>p. p \<noteq> alloc \<longrightarrow> h p = ca_nodes args p)))
    \<and> (ds = [] \<and> alloc = NULL \<longrightarrow> if_sctp alloc (enc_cmn (seal c b) @ b @ rest) sz args = None)
    \<and> (ds \<noteq> [] \<longrightarrow> list_end (ca_nodes args) (ca_errors args) = Some NULL \<and> if_sctp alloc (enc_cmn (seal c b) @ b @ rest) sz args = None)"
proof -
  let ?p = "enc_cmn (c\<lparr>cmn_check := 0\<rparr>) @ b @ rest"
  have "get_u32 ?p 16 = Some v" using load_at(3) [of "c\<lparr>cmn_check := 0\<rparr>" "init_fld SCTP_COOKIE_ECHO 8" v rest] assms(6) by simp
  then have r: "if_sctp alloc (enc_cmn (seal c b) @ b @ rest) sz args = do { args \<leftarrow> add_error alloc SCTP_ERROR_STALE_COOKIE args; Some (?p, args, True) }"
    unfolding echo_received [OF assms(6,1,2)] using assms(3-5) by (simp add: if_sctp_chunk_def)
  show ?thesis
  proof (cases ds)
    case Nil
    then have "ca_errors args = NULL" using assms(7) by simp
    then show ?thesis unfolding r using Nil by (auto simp: add_error_first)
  next
    case Cons
    then show ?thesis unfolding r using list_end_null [OF assms(7)] add_error_next [OF assms(7)] by simp
  qed
qed

theorem legacy_stale_cookie_witness:
  "\<exists>p args. if_sctp 64 (enc_cmn (seal (hdr_cmn 1000 80 7) (enc_fld (init_fld SCTP_COOKIE_ECHO 8) @ word_bytes 4 (6 :: u32)))
      @ (enc_fld (init_fld SCTP_COOKIE_ECHO 8) @ word_bytes 4 (6 :: u32)) @ []) 20 (sample_endpoint SCTP_INIT_ACK_SENT 80 1000) = Some (p, args, True)
    \<and> errors_at (ca_nodes args) (ca_errors args) [3]
    \<and> if_sctp 64 (enc_cmn (seal (hdr_cmn 1000 80 7) (enc_fld (init_fld SCTP_COOKIE_ECHO 8) @ word_bytes 4 (6 :: u32)))
      @ (enc_fld (init_fld SCTP_COOKIE_ECHO 8) @ word_bytes 4 (6 :: u32)) @ []) 20
      ((sample_endpoint SCTP_INIT_ACK_SENT 80 1000)\<lparr>ca_errors := 16, ca_nodes := [16 \<mapsto> \<lparr>nd_data = 3, nd_next = 32\<rparr>, 32 \<mapsto> \<lparr>nd_data = 3, nd_next = NULL\<rparr>]\<rparr>) = None"
proof -
  let ?a = "sample_endpoint SCTP_INIT_ACK_SENT 80 1000" and ?c = "hdr_cmn 1000 80 7"
  let ?e = "?a\<lparr>ca_errors := 16, ca_nodes := [16 \<mapsto> \<lparr>nd_data = 3, nd_next = 32\<rparr>, 32 \<mapsto> \<lparr>nd_data = 3, nd_next = NULL\<rparr>]\<rparr>"
  have a: "ports_match ?a ?c" "ca_SCTP_STATUS ?a = SCTP_INIT_ACK_SENT" "cmn_tag ?c = ca_dst_ver_tag ?a" "ucast (6 :: u32) \<noteq> ca_hmac ?a"
      "errors_at (ca_nodes ?a) (ca_errors ?a) []"
    by (simp_all add: ports_match_def hdr_cmn_def sample_endpoint_def)
  have e: "ports_match ?e ?c" "ca_SCTP_STATUS ?e = SCTP_INIT_ACK_SENT" "cmn_tag ?c = ca_dst_ver_tag ?e" "ucast (6 :: u32) \<noteq> ca_hmac ?e"
      "errors_at (ca_nodes ?e) (ca_errors ?e) [3, 3]"
    by (simp_all add: ports_match_def hdr_cmn_def sample_endpoint_def)
  have n: "(16 :: u64) \<le> 20" "(64 :: ptr) \<noteq> NULL" "[3, 3 :: u16] \<noteq> []" by simp_all
  note first = legacy_stale_cookie [OF n(1) a(1-4) refl a(5), of 64 "[]", THEN conjunct1, rule_format, OF conjI [OF refl n(2)]]
    and second = legacy_stale_cookie [OF n(1) e(1-4) refl e(5), of 64 "[]", THEN conjunct2, THEN conjunct2, rule_format, OF n(3), THEN conjunct2]
  from first obtain args h where f: "if_sctp 64 (enc_cmn (seal ?c (enc_fld (init_fld SCTP_COOKIE_ECHO 8) @ word_bytes 4 (6 :: u32)))
      @ (enc_fld (init_fld SCTP_COOKIE_ECHO 8) @ word_bytes 4 (6 :: u32)) @ []) 20 ?a
      = Some (enc_cmn (?c\<lparr>cmn_check := 0\<rparr>) @ (enc_fld (init_fld SCTP_COOKIE_ECHO 8) @ word_bytes 4 (6 :: u32)) @ [], args, True)"
      "args = ?a\<lparr>ca_errors := 64, ca_nodes := h\<rparr>" "errors_at h 64 [3]" by blast
  have "errors_at (ca_nodes args) (ca_errors args) [3]" unfolding f(2) using f(3) by (simp del: errors_at.simps)
  then show ?thesis using f(1) second by blast
qed

end
