(* ===== verification/Tcp.thy ===== *)
theory Tcp
  imports Checks
begin

unbundle bit_operations_syntax

text \<open>
  TCP: the header that \<^verbatim>\<open>src/build_tcp_raw.c\<close> writes and the receiver \<^verbatim>\<open>src/if_ip_tcp.c\<close>, with the smaller headers of
  \<^verbatim>\<open>src/tcp_fill_opt_mss.c\<close>, \<^verbatim>\<open>src/fill_udp.c\<close> and \<^verbatim>\<open>src/arp_fill_hdr.c\<close>. The checksums between the two ends are those of
  \<open>fix_check_ip_tcp\<close>.
\<close>

section \<open>Data\<close>

record if_ip_tcp_meta =
  mt_state :: i32
  mt_src_ip :: u32
  mt_dst_ip :: u32
  mt_src_port :: u16
  mt_dst_port :: u16
  mt_dst_seq :: u32
  mt_src_seq :: u32

record tcp_opt_mss =
  mss_type :: u8
  mss_len :: u8
  mss_mss :: u16

record arp_hdr =
  arp_proto :: u16
  arp_hrd :: u16
  arp_hln :: u8
  arp_pln :: u8
  arp_op :: u16

section \<open>Headers\<close>

text \<open>\<open>alloc\<close> tells whether \<^verbatim>\<open>malloc\<close> succeeds; its result is used without a test.\<close>

definition fill_udp :: "bool \<Rightarrow> u16 \<Rightarrow> u16 \<Rightarrow> u16 \<Rightarrow> udp_hdr option" where
  "fill_udp alloc src dst plen =
     (if alloc then Some \<lparr>udp_srcp = htons src, udp_dstp = htons dst, udp_len = htons plen, udp_sum = htons 0x3a8d\<rparr> else None)"

definition tcp_fill_opt_mss :: "bool \<Rightarrow> u16 \<Rightarrow> tcp_opt_mss option" where
  "tcp_fill_opt_mss alloc mss = (if alloc then Some \<lparr>mss_type = 2, mss_len = 4, mss_mss = htons mss\<rparr> else None)"

definition arp_fill_hdr :: "bool \<Rightarrow> arp_hdr option" where
  "arp_fill_hdr alloc =
     (if alloc then Some \<lparr>arp_proto = htons 1, arp_hrd = htons 0x0800, arp_hln = 6, arp_pln = 4, arp_op = htons 1\<rparr> else None)"

text \<open>The function for the options is not called. The sum of the two addends under \<open>flags\<close> is the data offset 5.\<close>

definition build_tcp_raw :: "frame_data \<Rightarrow> u16 \<Rightarrow> u16 \<Rightarrow> u32 \<Rightarrow> u32 \<Rightarrow> u16 \<Rightarrow> u16 \<Rightarrow> u16 \<Rightarrow> frame_data option" where
  "build_tcp_raw frame srcp dstp seq ack flags win urgent =
     (case fr_packet frame of
        None \<Rightarrow> Some (frame\<lparr>fr_plen := 0\<rparr>)
      | Some p \<Rightarrow>
          if fr_plen frame < 20 then Some (frame\<lparr>fr_plen := 0\<rparr>)
          else
            do { hdr \<leftarrow> in_buf p;
                 m \<leftarrow> mwrite (fr_mem frame) hdr (enc_tcp \<lparr>tcp_srcp = srcp, tcp_dstp = dstp, tcp_seq = htonl seq, tcp_ack = ack,
                        tcp_flags = htons (push_bit 12 5 OR flags), tcp_win = htons win, tcp_check = 0, tcp_urgent = htons urgent\<rparr>);
                 Some (frame\<lparr>fr_mem := m, fr_packet := Some (p + 20), fr_plen := fr_plen frame - 20\<rparr>) })"

section \<open>Receiving\<close>

definition tcp_offset :: "u16 \<Rightarrow> nat" where
  "tcp_offset flags = unat (drop_bit 12 (ntohs flags) AND 0xF) * 4"

text \<open>What a segment with right checksums does to the connection.\<close>

definition tcp_update :: "if_ip_tcp_meta \<Rightarrow> u32 \<Rightarrow> u16 \<Rightarrow> u32 \<Rightarrow> u16 \<Rightarrow> if_ip_tcp_meta" where
  "tcp_update m src srcp seq flags =
     (if ntohs flags AND 0x1FF = 0x2 then m\<lparr>mt_dst_ip := src, mt_dst_port := srcp, mt_dst_seq := seq\<rparr>
      else if ntohs flags AND 0x1FF = 0x12 then m\<lparr>mt_dst_seq := seq\<rparr>
      else m)"

text \<open>
  The results are the packet, in which the checksums are rewritten, the connection and whether \<open>meta\<close> or NULL is returned. The
  temporary buffer is malloc'ed, which is taken to succeed.
\<close>

fun if_ip_tcp :: "bytes option \<Rightarrow> u16 \<Rightarrow> if_ip_tcp_meta option \<Rightarrow> (bytes option \<times> if_ip_tcp_meta option \<times> bool) option" where
  "if_ip_tcp (Some packet) sz (Some m) =
     (if sz \<le> 14 + 20 + 12 + 4 then Some (Some packet, Some m, False)
      else
        do { dst \<leftarrow> get_u32 packet (14 + 16);
             if mt_src_ip m \<noteq> dst then Some (Some packet, Some m, False)
             else
               do { check_check_ip \<leftarrow> get_u16 packet (14 + 10);
                    packet \<leftarrow> put_u16 packet (14 + 10) 0;
                    c \<leftarrow> ip_checksum packet 14 20;
                    if check_check_ip \<noteq> NOT (ucast c) then Some (Some packet, Some m, False)
                    else
                      do { check_tmp \<leftarrow> get_u16 packet (34 + 16);
                           packet \<leftarrow> put_u16 packet (34 + 16) 0;
                           src \<leftarrow> get_u32 packet (14 + 12);
                           flags \<leftarrow> get_u16 packet (34 + 12);
                           hdr \<leftarrow> mread packet 34 (tcp_offset flags);
                           let psh = \<lparr>psh_source_address = src, psh_dest_address = dst, psh_placeholder = 0,
                                      psh_protocol = IPPROTO_TCP, psh_tcp_length = htons 20\<rparr>;
                           c \<leftarrow> tcp_checksum (enc_pseudo psh @ hdr) 0 (of_nat (12 + tcp_offset flags));
                           packet \<leftarrow> put_u16 packet (34 + 16) c;
                           if check_tmp \<noteq> c then Some (Some packet, Some m, False)
                           else
                             do { srcp \<leftarrow> get_u16 packet 34;
                                  seq \<leftarrow> get_u32 packet (34 + 4);
                                  Some (Some packet, Some (tcp_update m src srcp seq flags), True) } } } })"
| "if_ip_tcp packet sz meta = Some (packet, meta, False)"

declare if_ip_tcp.simps [simp del]

section \<open>A frame as its headers\<close>

definition tcp_frame :: "bytes \<Rightarrow> ipv4_hdr \<Rightarrow> tcp_hdr \<Rightarrow> bytes \<Rightarrow> bytes" where
  "tcp_frame e ip t rest = e @ enc_ipv4 ip @ enc_tcp t @ rest"

lemma tcp_frame_fields:
  assumes "length e = 14"
  shows "get_u32 (tcp_frame e ip t r) 26 = Some (ip_src_addr ip)" "get_u32 (tcp_frame e ip t r) 30 = Some (ip_dest_addr ip)"
    "get_u16 (tcp_frame e ip t r) 24 = Some (ip_check ip)" "get_u16 (tcp_frame e ip t r) 50 = Some (tcp_check t)"
    "get_u16 (tcp_frame e ip t r) 46 = Some (tcp_flags t)" "get_u16 (tcp_frame e ip t r) 34 = Some (tcp_srcp t)"
    "get_u32 (tcp_frame e ip t r) 38 = Some (tcp_seq t)"
  using assms by (simp_all add: get_word_in tcp_frame_def) (simp_all add: enc_ipv4_def enc_tcp_def)

lemma tcp_frame_put:
  assumes "length e = 14"
  shows "put_u16 (tcp_frame e ip t r) 24 c = Some (tcp_frame e (ip\<lparr>ip_check := c\<rparr>) t r)"
    "put_u16 (tcp_frame e ip t r) 50 c = Some (tcp_frame e ip (t\<lparr>tcp_check := c\<rparr>) r)"
  using assms by (simp_all add: mwrite_def tcp_frame_def) (simp_all add: enc_ipv4_def enc_tcp_def splice_def)

text \<open>The IP checksum depends on the header alone, the TCP checksum on the pseudo header and the part the data offset covers.\<close>

lemma tcp_frame_ip_checksum:
  assumes "length e = 14"
  shows "ip_checksum (tcp_frame e ip t r) 14 20 = Some (of_nat (ones (osum (enc_ipv4 ip))))"
proof -
  obtain c where c: "ip_checksum (tcp_frame e ip t r) 14 20 = Some c" "unat c = ones (osum (take 20 (drop 14 (tcp_frame e ip t r))))"
    using ip_checksum_ones [of 14 20 "tcp_frame e ip t r"] assms by (auto simp: tcp_frame_def)
  have "c = of_nat (unat c)" by simp
  also have "\<dots> = of_nat (ones (osum (enc_ipv4 ip)))" unfolding c(2) using assms by (simp add: tcp_frame_def)
  finally show ?thesis using c(1) by simp
qed

lemma tcp_offset_le: "tcp_offset f \<le> 60"
proof -
  have "unat (drop_bit 12 (ntohs f) AND mask 4) = unat (drop_bit 12 (ntohs f)) mod 2 ^ 4" by (rule unat_and_mask)
  then have "unat (drop_bit 12 (ntohs f) AND 0xF) < 16" by (simp add: mask_eq_exp_minus_1)
  then show ?thesis by (simp add: tcp_offset_def)
qed

lemma tcp_checksum_total:
  assumes "length hdr = tcp_offset f"
  shows "\<exists>c. tcp_checksum (enc_pseudo p @ hdr) 0 (of_nat (12 + tcp_offset f)) = Some c"
proof -
  have "unat (of_nat (12 + tcp_offset f) :: u64) = 12 + tcp_offset f" using tcp_offset_le [of f] by (simp add: unsigned_of_nat take_bit_nat_eq_self del: of_nat_add)
  then show ?thesis using tcp_checksum_sum [of 0 "of_nat (12 + tcp_offset f)" "enc_pseudo p @ hdr"] assms tcp_offset_le [of f] by simp
qed

lemma tcp_frame_read:
  assumes "length e = 14" "length o' = k - 20" "20 \<le> k"
  shows "mread (tcp_frame e ip t (o' @ r)) 34 k = Some (enc_tcp t @ o')"
  using assms by (simp add: mread_def tcp_frame_def)

text \<open>The checksum that both ends compute for a header \<open>t\<close> with a cleared checksum and options \<open>o'\<close>.\<close>

definition tcp_check_for :: "ipv4_hdr \<Rightarrow> tcp_hdr \<Rightarrow> bytes \<Rightarrow> u16" where
  "tcp_check_for ip t o' = the (tcp_checksum (enc_pseudo \<lparr>psh_source_address = ip_src_addr ip, psh_dest_address = ip_dest_addr ip, psh_placeholder = 0,
     psh_protocol = IPPROTO_TCP, psh_tcp_length = htons 20\<rparr> @ enc_tcp (t\<lparr>tcp_check := 0\<rparr>) @ o') 0 (of_nat (12 + tcp_offset (tcp_flags t))))"

definition ip_check_for :: "ipv4_hdr \<Rightarrow> u16" where
  "ip_check_for ip = NOT (ucast (of_nat (ones (osum (enc_ipv4 (ip\<lparr>ip_check := 0\<rparr>)))) :: u32))"

lemma tcp_check_for_eq:
  assumes "20 + length o' = tcp_offset (tcp_flags t)"
  shows "tcp_checksum (enc_pseudo \<lparr>psh_source_address = ip_src_addr ip, psh_dest_address = ip_dest_addr ip, psh_placeholder = 0,
     psh_protocol = IPPROTO_TCP, psh_tcp_length = htons 20\<rparr> @ enc_tcp (t\<lparr>tcp_check := 0\<rparr>) @ o') 0 (of_nat (12 + tcp_offset (tcp_flags t)))
    = Some (tcp_check_for ip t o')"
  using tcp_checksum_total [of "enc_tcp (t\<lparr>tcp_check := 0\<rparr>) @ o'" "tcp_flags t"] assms by (auto simp: tcp_check_for_def)

lemma fix_check_tcp_frame:
  assumes "fr_packet f = Some p" "p = int (unat mx) - int (unat (fr_plen f))" "fr_sync f = None" "length e = 14" "tcp_check t = 0"
    and "fr_mem f = tcp_frame e ip t (o' @ r)" "20 + length o' = tcp_offset (tcp_flags t)"
  shows "fix_check_ip_tcp f mx = Some (f\<lparr>fr_mem := tcp_frame e (ip\<lparr>ip_check := ip_check_for ip\<rparr>) (t\<lparr>tcp_check := tcp_check_for ip t o'\<rparr>) (o' @ r)\<rparr>)"
proof -
  have z: "t\<lparr>tcp_check := 0\<rparr> = t" using assms(5) by simp
  have o: "20 \<le> tcp_offset (tcp_flags t)" "length o' = tcp_offset (tcp_flags t) - 20" using assms(7) by simp_all
  note c = tcp_check_for_eq [OF assms(7), unfolded z]
  show ?thesis
    unfolding fix_check_ip_tcp_def assms(1) using assms(2,3) c o
    by (simp add: in_buf_def assms(6) tcp_frame_put [OF assms(4)] tcp_frame_ip_checksum [OF assms(4)] tcp_frame_fields [OF assms(4)]
        tcp_frame_read [OF assms(4)] ip_check_for_def tcp_offset_def [symmetric] Let_def)
qed

lemma if_ip_tcp_frame:
  assumes "length e = 14" "20 + length o' = tcp_offset (tcp_flags t)" "50 < sz" "mt_src_ip m = ip_dest_addr ip"
  shows "if_ip_tcp (Some (tcp_frame e ip t (o' @ r))) sz (Some m) =
    (if ip_check ip \<noteq> ip_check_for ip then Some (Some (tcp_frame e (ip\<lparr>ip_check := 0\<rparr>) t (o' @ r)), Some m, False)
     else Some (Some (tcp_frame e (ip\<lparr>ip_check := 0\<rparr>) (t\<lparr>tcp_check := tcp_check_for ip t o'\<rparr>) (o' @ r)),
       if tcp_check t = tcp_check_for ip t o' then (Some (tcp_update m (ip_src_addr ip) (tcp_srcp t) (tcp_seq t) (tcp_flags t)), True) else (Some m, False)))"
proof -
  have o: "20 \<le> tcp_offset (tcp_flags t)" "length o' = tcp_offset (tcp_flags t) - 20" using assms(2) by simp_all
  note c = tcp_check_for_eq [OF assms(2)]
  have "\<not> sz \<le> 50" using assms(3) by simp
  then show ?thesis
    using assms(4) c o
    by (simp add: if_ip_tcp.simps tcp_frame_put [OF assms(1)] tcp_frame_ip_checksum [OF assms(1)] tcp_frame_fields [OF assms(1)]
        tcp_frame_read [OF assms(1)] ip_check_for_def Let_def)
qed

lemma check_for_stored [simp]:
  "ip_check_for (ip\<lparr>ip_check := c\<rparr>) = ip_check_for ip" "tcp_check_for (ip\<lparr>ip_check := c\<rparr>) (t\<lparr>tcp_check := d\<rparr>) o' = tcp_check_for ip t o'"
  by (simp_all add: ip_check_for_def tcp_check_for_def)

lemma built_flags:
  assumes "(flags :: u16) < 0x1000"
  shows "tcp_offset (htons (0x5000 OR flags)) = 20" "(0x5000 OR flags) AND 0x1FF = flags AND 0x1FF"
proof -
  have h: "\<not> bit flags n" if "12 \<le> n" for n
  proof -
    have "unat flags < 2 ^ 12" using assms by (simp add: word_less_nat_alt)
    then have "unat (take_bit 12 flags) = unat flags" by (simp add: unsigned_take_bit_eq take_bit_nat_eq_self)
    then have "take_bit 12 flags = flags" by (simp add: word_unat_eq_iff)
    then show ?thesis using that bit_take_bit_iff [of 12 flags n] by auto
  qed
  have "drop_bit 12 (0x5000 OR flags) = 5" using h by (intro bit_word_eqI) (auto simp: bit_simps drop_bit_or)
  then show "tcp_offset (htons (0x5000 OR flags)) = 20" by (simp add: tcp_offset_def)
  show "(0x5000 OR flags) AND 0x1FF = flags AND 0x1FF" by (simp add: bit.conj_disj_distrib2)
qed

section \<open>Properties\<close>

text \<open>
  C25. TCP round trip: the segment that \<^verbatim>\<open>build_tcp_raw\<close> puts behind an IP header and \<^verbatim>\<open>fix_check_ip_tcp\<close> seals is accepted by \<^verbatim>\<open>if_ip_tcp\<close> on the host it is
  addressed to, which learns address, port and sequence number of a SYN and the sequence number of a SYN ACK. What follows
  the header is not covered by the checksum: with any other payload the segment is accepted just the same.
\<close>

theorem tcp_roundtrip:
  assumes "fr_mem f = e @ enc_ipv4 ip @ x @ rest" "length e = 14" "length x = 20" "fr_packet f = Some 34" "fr_plen f = mx - 34" "54 \<le> mx" "fr_sync f = None"
    and "flags < 0x1000" "mt_src_ip m = ip_dest_addr ip" "50 < sz"
  shows "\<exists>f1 f2 p. build_tcp_raw f srcp dstp seq ack flags win urgent = Some f1 \<and> fix_check_ip_tcp f1 mx = Some f2
    \<and> if_ip_tcp (Some (take 54 (fr_mem f2) @ payload)) sz (Some m) = Some (p, Some
        (if flags AND 0x1FF = 0x2 then m\<lparr>mt_dst_ip := ip_src_addr ip, mt_dst_port := srcp, mt_dst_seq := htonl seq\<rparr>
         else if flags AND 0x1FF = 0x12 then m\<lparr>mt_dst_seq := htonl seq\<rparr> else m), True)"
proof -
  define t where "t = \<lparr>tcp_srcp = srcp, tcp_dstp = dstp, tcp_seq = htonl seq, tcp_ack = ack, tcp_flags = htons (0x5000 OR flags),
      tcp_win = htons win, tcp_check = 0, tcp_urgent = htons urgent\<rparr>"
  have tf: "tcp_srcp t = srcp" "tcp_seq t = htonl seq" by (simp_all add: t_def)
  let ?f1 = "f\<lparr>fr_mem := tcp_frame e ip t rest, fr_packet := Some 54, fr_plen := mx - 54\<rparr>"
  have pl: "unat (mx - 34) = unat mx - 34" "unat (mx - 54) = unat mx - 54" "54 \<le> unat mx"
    using assms(6) by (simp_all add: word_le_nat_alt unat_sub)
  then have "\<not> fr_plen f < 20" using assms(5) by (simp add: word_less_nat_alt)
  then have f1: "build_tcp_raw f srcp dstp seq ack flags win urgent = Some ?f1"
    using assms(1-5) by (simp add: build_tcp_raw_def in_buf_def mwrite_def splice_def tcp_frame_def t_def)
  have off: "20 + length ([] :: bytes) = tcp_offset (tcp_flags t)" using built_flags(1) [OF assms(8)] by (simp add: t_def)
  let ?ip = "ip\<lparr>ip_check := ip_check_for ip\<rparr>" and ?t = "t\<lparr>tcp_check := tcp_check_for ip t []\<rparr>"
  have f2: "fix_check_ip_tcp ?f1 mx = Some (?f1\<lparr>fr_mem := tcp_frame e ?ip ?t rest\<rparr>)"
    using fix_check_tcp_frame [of ?f1 54 mx e t ip "[]" rest] pl assms(2,7) off by (simp add: t_def)
  have tk: "take 54 (tcp_frame e ?ip ?t rest) @ payload = tcp_frame e ?ip ?t ([] @ payload)" using assms(2) by (simp add: tcp_frame_def)
  have "if_ip_tcp (Some (tcp_frame e ?ip ?t ([] @ payload))) sz (Some m)
      = Some (Some (tcp_frame e (ip\<lparr>ip_check := 0\<rparr>) ?t payload), Some (tcp_update m (ip_src_addr ip) srcp (htonl seq) (tcp_flags t)), True)"
    using if_ip_tcp_frame [of e "[]" ?t sz m ?ip payload] assms(2,9,10) off by (simp add: tf)
  then show ?thesis using f1 f2 tk built_flags(2) [OF assms(8)] by (auto simp: tcp_update_def t_def)
qed

text \<open>A SYN from address 1 to address 2 in a frame of 54 bytes, received with a payload of three bytes.\<close>

definition sample_tcp_ip :: ipv4_hdr where
  "sample_tcp_ip = \<lparr>ip_ihl = 5, ip_ver = 4, ip_tos = 0, ip_len = htons 40, ip_indent = 0, ip_offset = 0, ip_ttl = 64, ip_proto = IPPROTO_TCP, ip_check = 0,
     ip_src_addr = 1, ip_dest_addr = 2\<rparr>"

definition sample_tcp_frame :: frame_data where
  "sample_tcp_frame = \<lparr>fr_mem = replicate 14 0 @ enc_ipv4 sample_tcp_ip @ replicate 20 0 @ [], fr_packet = Some 34, fr_pmem = [], fr_prefill = None,
     fr_plen = 54 - 34, fr_proto = PROTO_STACK_IP_TCP, fr_sync = None, fr_state = None\<rparr>"

definition sample_tcp_meta :: if_ip_tcp_meta where
  "sample_tcp_meta = \<lparr>mt_state = 0, mt_src_ip = 2, mt_dst_ip = 0, mt_src_port = 80, mt_dst_port = 0, mt_dst_seq = 0, mt_src_seq = 0\<rparr>"

theorem tcp_roundtrip_witness:
  "\<exists>f1 f2 p. build_tcp_raw sample_tcp_frame 1000 80 77 0 2 64240 0 = Some f1 \<and> fix_check_ip_tcp f1 54 = Some f2
    \<and> if_ip_tcp (Some (take 54 (fr_mem f2) @ [1, 2, 3])) 57 (Some sample_tcp_meta)
      = Some (p, Some (sample_tcp_meta\<lparr>mt_dst_ip := 1, mt_dst_port := 1000, mt_dst_seq := htonl 77\<rparr>), True)"
proof -
  have m: "mt_src_ip sample_tcp_meta = ip_dest_addr sample_tcp_ip" by (simp add: sample_tcp_meta_def sample_tcp_ip_def)
  have f: "fr_mem sample_tcp_frame = replicate 14 0 @ enc_ipv4 sample_tcp_ip @ replicate 20 0 @ []" "fr_packet sample_tcp_frame = Some 34"
      "fr_plen sample_tcp_frame = 54 - 34" "fr_sync sample_tcp_frame = None"
    by (simp_all add: sample_tcp_frame_def)
  have "ip_src_addr sample_tcp_ip = 1" by (simp add: sample_tcp_ip_def)
  with tcp_roundtrip [OF f(1) _ _ f(2,3) _ f(4) _ m, of 2 57 1000 80 77 0 64240 0 "[1, 2, 3]"] show ?thesis by simp
qed

end
