(* ===== verification/Netlink.thy ===== *)
theory Netlink
  imports Prelude
begin

unbundle bit_operations_syntax

text \<open>
  Interface set-up over netlink (\<^verbatim>\<open>include/netlink.h\<close>): the requests that \<^verbatim>\<open>src/create_veth_pair.c\<close>, \<^verbatim>\<open>src/bind_if.c\<close>, \<^verbatim>\<open>src/up_if.c\<close>,
  \<^verbatim>\<open>src/delete_if.c\<close>, \<^verbatim>\<open>src/get_ifid.c\<close> and \<^verbatim>\<open>src/get_iftype.c\<close> send, and what the last two make of the reply. The structures and macros
  are those of \<^verbatim>\<open>linux/netlink.h\<close> and \<^verbatim>\<open>linux/rtnetlink.h\<close>. A name is its characters without the terminating zero. The
  kernel is a function from the bytes sent to the bytes that \<^verbatim>\<open>recv\<close> delivers, none if the socket or the call fails;
  \<^verbatim>\<open>calloc\<close> is taken to succeed.
\<close>

section \<open>Messages\<close>

record nlmsghdr =
  nl_len :: u32
  nl_type :: u16
  nl_flags :: u16
  nl_seq :: u32
  nl_pid :: u32

record ifinfomsg =
  ifi_family :: u8
  ifi_type :: u16
  ifi_index :: i32
  ifi_flags :: u32
  ifi_change :: u32

record ifaddrmsg =
  ifa_family :: u8
  ifa_prefixlen :: u8
  ifa_flags :: u8
  ifa_scope :: u8
  ifa_index :: u32

definition enc_nlmsg :: "nlmsghdr \<Rightarrow> bytes" where
  "enc_nlmsg h = word_bytes 4 (nl_len h) @ word_bytes 2 (nl_type h) @ word_bytes 2 (nl_flags h) @ word_bytes 4 (nl_seq h) @ word_bytes 4 (nl_pid h)"

definition enc_ifinfo :: "ifinfomsg \<Rightarrow> bytes" where
  "enc_ifinfo i = [ifi_family i, 0] @ word_bytes 2 (ifi_type i) @ word_bytes 4 (ifi_index i) @ word_bytes 4 (ifi_flags i) @ word_bytes 4 (ifi_change i)"

definition enc_ifaddr :: "ifaddrmsg \<Rightarrow> bytes" where
  "enc_ifaddr a = [ifa_family a, ifa_prefixlen a, ifa_flags a, ifa_scope a] @ word_bytes 4 (ifa_index a)"

definition enc_rta :: "u16 \<Rightarrow> u16 \<Rightarrow> bytes" where
  "enc_rta len type = word_bytes 2 len @ word_bytes 2 type"

text \<open>\<^verbatim>\<open>NLMSG_ALIGN\<close> and \<^verbatim>\<open>RTA_ALIGN\<close>; \<^verbatim>\<open>NLMSG_LENGTH\<close> adds 16 and \<^verbatim>\<open>RTA_LENGTH\<close> adds 4.\<close>

definition align4 :: "nat \<Rightarrow> nat" where
  "align4 n = (n + 3) div 4 * 4"

abbreviation (input) RTM_NEWLINK :: u16 where "RTM_NEWLINK \<equiv> 16"
abbreviation (input) RTM_DELLINK :: u16 where "RTM_DELLINK \<equiv> 17"
abbreviation (input) RTM_GETLINK :: u16 where "RTM_GETLINK \<equiv> 18"
abbreviation (input) RTM_NEWADDR :: u16 where "RTM_NEWADDR \<equiv> 20"
abbreviation (input) NLM_F_REQUEST :: u16 where "NLM_F_REQUEST \<equiv> 1"
abbreviation (input) NLM_F_ACK :: u16 where "NLM_F_ACK \<equiv> 4"
abbreviation (input) NLM_F_EXCL :: u16 where "NLM_F_EXCL \<equiv> 0x200"
abbreviation (input) NLM_F_CREATE :: u16 where "NLM_F_CREATE \<equiv> 0x400"
abbreviation (input) AF_UNSPEC :: u8 where "AF_UNSPEC \<equiv> 0"
abbreviation (input) AF_INET :: u8 where "AF_INET \<equiv> 2"
abbreviation (input) IFLA_ADDRESS :: u16 where "IFLA_ADDRESS \<equiv> 1"
abbreviation (input) IFLA_IFNAME :: u16 where "IFLA_IFNAME \<equiv> 3"
abbreviation (input) IFLA_LINKINFO :: u16 where "IFLA_LINKINFO \<equiv> 18"
abbreviation (input) IFLA_INFO_KIND :: u16 where "IFLA_INFO_KIND \<equiv> 1"
abbreviation (input) IFLA_INFO_DATA :: u16 where "IFLA_INFO_DATA \<equiv> 2"
abbreviation (input) IFA_ADDRESS :: u16 where "IFA_ADDRESS \<equiv> 1"
abbreviation (input) IFA_LOCAL :: u16 where "IFA_LOCAL \<equiv> 2"
abbreviation (input) IFF_UP :: u32 where "IFF_UP \<equiv> 1"

section \<open>Requests\<close>

text \<open>
  A request is a list of stores, in the order of their addresses, into a zeroed buffer of 4096 bytes; the first \<^verbatim>\<open>nlmsg_len\<close> bytes are sent.
  A length that the code adds to in place is stored with its final value.
\<close>

fun write_all :: "bytes \<Rightarrow> (nat \<times> bytes) list \<Rightarrow> bytes option" where
  "write_all m [] = Some m"
| "write_all m ((off, d) # ws) = do { m \<leftarrow> mwrite m off d; write_all m ws }"

definition nl_request :: "nlmsghdr \<Rightarrow> (nat \<times> bytes) list \<Rightarrow> bytes option" where
  "nl_request h ws = do { req \<leftarrow> write_all (replicate 4096 0) ((0, enc_nlmsg h) # ws); mread req 0 (unat (nl_len h)) }"

definition getlink_request :: "u32 \<Rightarrow> bytes \<Rightarrow> bytes option" where
  "getlink_request pid name =
     (let rta_len = (of_nat (4 + (length name + 1)) :: u16) in
      nl_request \<lparr>nl_len = 16 + 16 + ucast rta_len, nl_type = RTM_GETLINK, nl_flags = NLM_F_REQUEST OR NLM_F_ACK, nl_seq = 1, nl_pid = pid\<rparr>
        [(16, enc_ifinfo \<lparr>ifi_family = AF_UNSPEC, ifi_type = 1, ifi_index = 0, ifi_flags = 0, ifi_change = 0\<rparr>),
         (32, enc_rta rta_len IFLA_IFNAME),
         (36, name @ [0])])"

definition up_if :: "u32 \<Rightarrow> i32 \<Rightarrow> bytes option" where
  "up_if pid intf_index =
     nl_request \<lparr>nl_len = of_nat (align4 (16 + 16)), nl_type = RTM_NEWLINK, nl_flags = NLM_F_REQUEST OR NLM_F_ACK, nl_seq = 1, nl_pid = pid\<rparr>
       [(16, enc_ifinfo \<lparr>ifi_family = AF_UNSPEC, ifi_type = 1, ifi_index = intf_index, ifi_flags = IFF_UP, ifi_change = IFF_UP\<rparr>)]"

definition delete_if :: "u32 \<Rightarrow> i32 \<Rightarrow> bytes option" where
  "delete_if pid intf_index =
     nl_request \<lparr>nl_len = of_nat (align4 (16 + 16)), nl_type = RTM_DELLINK, nl_flags = NLM_F_REQUEST OR NLM_F_ACK, nl_seq = 1, nl_pid = pid\<rparr>
       [(16, enc_ifinfo \<lparr>ifi_family = AF_UNSPEC, ifi_type = 1, ifi_index = intf_index, ifi_flags = 0 OR IFF_UP, ifi_change = NOT 0\<rparr>)]"

definition bind_if :: "u32 \<Rightarrow> i32 \<Rightarrow> u32 \<Rightarrow> bytes option" where
  "bind_if pid intf_index ip =
     (let len0 = 16 + 8;
          len1 = len0 + align4 (4 + 4);
          len2 = len1 + align4 (4 + 4)
      in nl_request \<lparr>nl_len = of_nat len2, nl_type = RTM_NEWADDR, nl_flags = NLM_F_REQUEST OR NLM_F_CREATE OR NLM_F_ACK, nl_seq = 1, nl_pid = pid\<rparr>
           [(16, enc_ifaddr \<lparr>ifa_family = AF_INET, ifa_prefixlen = 24, ifa_flags = 0, ifa_scope = 0, ifa_index = intf_index\<rparr>),
            (16 + 8, enc_rta (4 + 4) IFA_LOCAL), (16 + 8 + 4, word_bytes 4 ip),
            (align4 len1, enc_rta (4 + 4) IFA_ADDRESS), (align4 len1 + 4, word_bytes 4 ip)])"

definition veth :: bytes where
  "veth = [118, 101, 116, 104]"

definition create_veth_pair :: "u32 \<Rightarrow> bytes \<Rightarrow> bytes \<Rightarrow> bytes option" where
  "create_veth_pair pid src dst =
     (let nlmsg_len = 16 + 16 + (4 + (length src + 1));
          linkinfo = align4 nlmsg_len;
          nlmsg_len = align4 nlmsg_len + 4;
          rta = linkinfo + 4;
          kind_len = 4 + (length veth + 1);
          linkinfo_len = 4 + align4 kind_len;
          nlmsg_len = nlmsg_len + align4 kind_len;
          nfdata = rta + align4 kind_len;
          pinfi = nfdata + 4;
          pinaatr = pinfi + 4 + align4 16;
          pinaatr_len = 4 + (length dst + 1);
          pinfi_len = 4 + 16 + align4 pinaatr_len;
          nfdata_len = 4 + align4 pinfi_len;
          linkinfo_len = linkinfo_len + align4 nfdata_len;
          nlmsg_len = align4 nlmsg_len + align4 linkinfo_len - 4
      in nl_request \<lparr>nl_len = of_nat nlmsg_len, nl_type = RTM_NEWLINK, nl_flags = NLM_F_REQUEST OR NLM_F_CREATE OR NLM_F_ACK OR NLM_F_EXCL, nl_seq = 1, nl_pid = pid\<rparr>
           [(16, enc_ifinfo \<lparr>ifi_family = AF_INET, ifi_type = 0, ifi_index = 0, ifi_flags = 0, ifi_change = 0\<rparr>),
            (32, enc_rta (of_nat (4 + (length src + 1))) IFLA_IFNAME), (36, src @ [0]),
            (linkinfo, enc_rta (of_nat linkinfo_len) IFLA_LINKINFO),
            (rta, enc_rta (of_nat kind_len) IFLA_INFO_KIND), (rta + 4, veth @ [0]),
            (nfdata, enc_rta (of_nat nfdata_len) IFLA_INFO_DATA),
            (pinfi, enc_rta (of_nat pinfi_len) 1),
            (pinfi + 4, enc_ifinfo \<lparr>ifi_family = AF_UNSPEC, ifi_type = 0, ifi_index = 0, ifi_flags = 0, ifi_change = 0\<rparr>),
            (pinaatr, enc_rta (of_nat pinaatr_len) IFLA_IFNAME), (pinaatr + 4, dst @ [0])])"

section \<open>Replies\<close>

definition recv_into :: "bytes \<Rightarrow> bytes" where
  "recv_into r = take 4096 r @ replicate (4096 - length r) 0"

definition get_ifid :: "u32 \<Rightarrow> (bytes \<Rightarrow> bytes) \<Rightarrow> bytes \<Rightarrow> i32 option" where
  "get_ifid pid answer name = do { req \<leftarrow> getlink_request pid name; get_u32 (recv_into (answer req)) (16 + 4) }"

text \<open>The loop over the attributes; \<open>rlen\<close> is the signed number of bytes left.\<close>

function rta_find :: "bytes \<Rightarrow> nat \<Rightarrow> int \<Rightarrow> u16 \<Rightarrow> (nat \<times> nat) option option" where
  "rta_find resp rta rlen type =
     (if rlen < 4 then Some None
      else
        do { l \<leftarrow> get_u16 resp rta;
             if unat l < 4 \<or> rlen < int (unat l) then Some None
             else
               do { t \<leftarrow> get_u16 resp (rta + 2);
                    if t = type then Some (Some (rta, unat l))
                    else rta_find resp (rta + align4 (unat l)) (rlen - int (align4 (unat l))) type } })"
  by pat_completeness auto
termination by (relation "measure (\<lambda>(resp, rta, rlen, type). nat rlen)") (auto simp: align4_def)

declare rta_find.simps [simp del]

definition get_iftype :: "u32 \<Rightarrow> (bytes \<Rightarrow> bytes) \<Rightarrow> bytes \<Rightarrow> u16 \<Rightarrow> bytes \<Rightarrow> u16 \<Rightarrow> (bytes \<times> i32) option" where
  "get_iftype pid answer name type buf buflen =
     do { req \<leftarrow> getlink_request pid name;
          let resp = recv_into (answer req);
          len \<leftarrow> get_u32 resp 0;
          found \<leftarrow> rta_find resp (16 + 16) (sint (len - 32)) type;
          (case found of
             None \<Rightarrow> Some (buf, 1)
           | Some (rta, l) \<Rightarrow>
               if l - 4 > unat buflen then Some (buf, -1)
               else do { d \<leftarrow> mread resp (rta + 4) (l - 4);
                         buf \<leftarrow> mwrite buf 0 d;
                         Some (buf, of_nat (l - 4)) }) }"

definition get_ifmac :: "u32 \<Rightarrow> (bytes \<Rightarrow> bytes) \<Rightarrow> bytes \<Rightarrow> bytes \<Rightarrow> (bytes \<times> i32) option" where
  "get_ifmac pid answer name mac =
     do { (mac, r) \<leftarrow> get_iftype pid answer name IFLA_ADDRESS mac 6; Some (mac, if sint r < 6 then 1 else 0) }"

section \<open>Attributes\<close>

text \<open>The specification: an attribute with its padding.\<close>

definition attr :: "u16 \<Rightarrow> bytes \<Rightarrow> bytes" where
  "attr type p = enc_rta (of_nat (4 + length p)) type @ p @ replicate (align4 (length p) - length p) 0"

lemma enc_nl_lengths [simp]: "length (enc_nlmsg h) = 16" "length (enc_ifinfo i) = 16" "length (enc_ifaddr a) = 8" "length (enc_rta l t) = 4"
  by (simp_all add: enc_nlmsg_def enc_ifinfo_def enc_ifaddr_def enc_rta_def)

lemma align4_le: "n \<le> align4 n" and align4_less: "align4 n < n + 4"
  by (simp_all add: align4_def)

lemma align4_add [simp]: "align4 (4 + n) = 4 + align4 n" "align4 (align4 n) = align4 n" "align4 (align4 n + m) = align4 n + align4 m"
  by (simp_all add: align4_def) presburger+

lemma length_attr [simp]: "length (attr t p) = 4 + align4 (length p)"
  using align4_le [of "length p"] by (simp add: attr_def)

text \<open>Stores in ascending order into a zeroed buffer: what is skipped stays zero.\<close>

fun layout :: "nat \<Rightarrow> (nat \<times> bytes) list \<Rightarrow> bytes" where
  "layout pos [] = []"
| "layout pos ((off, d) # ws) = replicate (off - pos) 0 @ d @ layout (off + length d) ws"

fun ascending :: "nat \<Rightarrow> (nat \<times> bytes) list \<Rightarrow> bool" where
  "ascending pos [] \<longleftrightarrow> True"
| "ascending pos ((off, d) # ws) \<longleftrightarrow> pos \<le> off \<and> ascending (off + length d) ws"

lemma write_all_layout:
  assumes "ascending (length x) ws" "length (layout (length x) ws) \<le> k"
  shows "write_all (x @ replicate k 0) ws = Some (x @ layout (length x) ws @ replicate (k - length (layout (length x) ws)) 0)"
  using assms
proof (induction ws arbitrary: x k)
  case (Cons w ws)
  obtain off d where w: "w = (off, d)" by fastforce
  let ?g = "off - length x"
  let ?x = "x @ replicate ?g 0 @ d" and ?k = "k - ?g - length d"
  have le: "length x \<le> off" "?g + length d + length (layout (off + length d) ws) \<le> k" using Cons.prems w by simp_all
  have "replicate k (0 :: u8) = replicate ?g 0 @ replicate (length d) 0 @ replicate ?k 0" using le(2) by (simp flip: replicate_add)
  then have "mwrite (x @ replicate k 0) off d = Some (?x @ replicate ?k 0)" using le by (simp add: mwrite_def splice_def)
  moreover have "length ?x = off + length d" using le(1) by simp
  ultimately show ?case using Cons.IH [of ?x ?k] Cons.prems w le by simp
qed simp

lemma nl_request_layout:
  assumes "ascending 16 ws" "16 + length (layout 16 ws) \<le> unat (nl_len h)" "unat (nl_len h) \<le> 4096"
  shows "nl_request h ws = Some (enc_nlmsg h @ layout 16 ws @ replicate (unat (nl_len h) - (16 + length (layout 16 ws))) 0)"
proof -
  have "write_all ([] @ replicate 4096 0) ((0, enc_nlmsg h) # ws) = Some ((enc_nlmsg h @ layout 16 ws) @ replicate (4096 - (16 + length (layout 16 ws))) 0)"
    using write_all_layout [of "[]" "(0, enc_nlmsg h) # ws" 4096] assms by simp
  then show ?thesis using assms(2,3) by (simp add: nl_request_def mread_def min_def)
qed

lemma unat_small: "n < 2 ^ LENGTH('a) \<Longrightarrow> unat (of_nat n :: 'a::len word) = n"
  by (simp add: unsigned_of_nat take_bit_nat_eq_self)

section \<open>The attributes of a reply\<close>

definition attrs :: "(u16 \<times> bytes) list \<Rightarrow> bytes" where
  "attrs as = concat (map (\<lambda>(t, p). attr t p) as)"

lemma attrs_simps [simp]: "attrs [] = []" "attrs ((t, p) # as) = attr t p @ attrs as"
  by (simp_all add: attrs_def)

lemma rta_find_attrs:
  assumes "\<forall>(t, p) \<in> set as. length p + 4 < 65536"
  shows "rta_find (x @ attrs as @ y) (length x) (int (length (attrs as))) ty =
    (case find (\<lambda>(t, p). t = ty) as of None \<Rightarrow> Some None
     | Some (t, p) \<Rightarrow> Some (Some (length x + length (attrs (takeWhile (\<lambda>(t, p). t \<noteq> ty) as)), 4 + length p)))"
  using assms
proof (induction as arbitrary: x)
  case Nil
  then show ?case by (simp add: rta_find.simps)
next
  case (Cons a as)
  obtain t p where a: "a = (t, p)" by fastforce
  define w where "w = (of_nat (4 + length p) :: u16)"
  have l: "unat w = 4 + length p" unfolding w_def using Cons.prems a by (intro unat_small) simp
  then have u: "uint w = 4 + int (length p)" by (metis of_nat_add of_nat_numeral of_nat_unat)
  have r: "get_u16 (x @ attr t p @ z) (length x) = Some w" "get_u16 (x @ attr t p @ z) (length x + 2) = Some t" for z
    by (simp_all add: get_word_in attr_def w_def) (simp_all add: enc_rta_def)
  have "rta_find (x @ attr t p @ attrs as @ y) (length x) (int (length (attrs (a # as)))) ty =
      (if t = ty then Some (Some (length x, 4 + length p))
       else rta_find ((x @ attr t p) @ attrs as @ y) (length (x @ attr t p)) (int (length (attrs as))) ty)"
    using l u align4_le [of "length p"] r [of "attrs as @ y"] a by (subst rta_find.simps) (auto simp: add.assoc)
  then show ?case using Cons.IH [of "x @ attr t p"] Cons.prems a by (auto simp: add.assoc split: option.split)
qed

lemma getlink_request_ok:
  assumes "length name \<le> 4000"
  shows "getlink_request pid name = Some (enc_nlmsg \<lparr>nl_len = of_nat (37 + length name), nl_type = RTM_GETLINK, nl_flags = 5, nl_seq = 1, nl_pid = pid\<rparr>
    @ enc_ifinfo \<lparr>ifi_family = AF_UNSPEC, ifi_type = 1, ifi_index = 0, ifi_flags = 0, ifi_change = 0\<rparr> @ enc_rta (of_nat (5 + length name)) IFLA_IFNAME @ name @ [0])"
proof -
  have "(ucast (of_nat (4 + (length name + 1)) :: u16) :: u32) = of_nat (5 + length name)"
    using assms unat_small [of "4 + (length name + 1)", where 'a = 16] by (simp add: word_unat_eq_iff unat_ucast_up unat_small del: of_nat_add)
  then have l: "16 + 16 + ucast (of_nat (4 + (length name + 1)) :: u16) = (of_nat (37 + length name) :: u32)" by simp
  have "unat (of_nat (37 + length name) :: u32) = 37 + length name" using assms by (intro unat_small) simp
  then show ?thesis
    unfolding getlink_request_def Let_def l using assms by (subst nl_request_layout) (simp_all add: add.assoc)
qed

text \<open>The requests of a fixed form: the bytes sent are the message, to its full length.\<close>

lemma link_requests:
  "up_if pid i = Some (enc_nlmsg \<lparr>nl_len = 32, nl_type = RTM_NEWLINK, nl_flags = 5, nl_seq = 1, nl_pid = pid\<rparr>
    @ enc_ifinfo \<lparr>ifi_family = AF_UNSPEC, ifi_type = 1, ifi_index = i, ifi_flags = IFF_UP, ifi_change = IFF_UP\<rparr>)"
  "delete_if pid i = Some (enc_nlmsg \<lparr>nl_len = 32, nl_type = RTM_DELLINK, nl_flags = 5, nl_seq = 1, nl_pid = pid\<rparr>
    @ enc_ifinfo \<lparr>ifi_family = AF_UNSPEC, ifi_type = 1, ifi_index = i, ifi_flags = IFF_UP, ifi_change = NOT 0\<rparr>)"
  "bind_if pid i ip = Some (enc_nlmsg \<lparr>nl_len = 40, nl_type = RTM_NEWADDR, nl_flags = 0x405, nl_seq = 1, nl_pid = pid\<rparr>
    @ enc_ifaddr \<lparr>ifa_family = AF_INET, ifa_prefixlen = 24, ifa_flags = 0, ifa_scope = 0, ifa_index = i\<rparr> @ attr IFA_LOCAL (word_bytes 4 ip) @ attr IFA_ADDRESS (word_bytes 4 ip))"
  unfolding up_if_def delete_if_def bind_if_def Let_def align4_def by (subst nl_request_layout; simp add: attr_def align4_def)+

lemma recv_into_short: "length r \<le> 4096 \<Longrightarrow> recv_into r = r @ replicate (4096 - length r) 0"
  by (simp add: recv_into_def)

lemma attr_read:
  assumes "length x = k"
  shows "mread (x @ attr t p @ z) (k + 4) (length p) = Some p"
  using assms align4_le [of "length p"] by (simp add: mread_def attr_def)

lemma find_split: "find P as = Some a \<Longrightarrow> \<exists>cs. as = takeWhile (\<lambda>x. \<not> P x) as @ a # cs \<and> P a"
  by (induction as) (auto split: if_splits)

lemma attrs_small: "(t, p) \<in> set as \<Longrightarrow> 4 + length p \<le> length (attrs as)"
proof -
  assume "(t, p) \<in> set as"
  then have "length (attr t p) \<le> length (attrs as)" unfolding attrs_def by (induction as) auto
  then show ?thesis using align4_le [of "length p"] by simp
qed

lemma getlink_reply_parts:
  assumes "length name \<le> 4000" "length r \<le> 4096" "nl_len h = of_nat (length r)" "\<And>req. answer req = r"
    and "r = enc_nlmsg h @ enc_ifinfo i @ attrs as"
  shows "get_ifid pid answer name = Some (ifi_index i)"
    and "get_iftype pid answer name ty buf buflen =
      (case find (\<lambda>(t, p). t = ty) as of
         None \<Rightarrow> Some (buf, 1)
       | Some (t, p) \<Rightarrow> if length p > unat buflen then Some (buf, -1) else do { buf \<leftarrow> mwrite buf 0 p; Some (buf, of_nat (length p)) })"
proof -
  let ?z = "replicate (4096 - length r) 0 :: bytes"
  have resp: "recv_into r = (enc_nlmsg h @ enc_ifinfo i) @ attrs as @ ?z" using recv_into_short [OF assms(2)] assms(5) by simp
  obtain req where req: "getlink_request pid name = Some req" using getlink_request_ok [OF assms(1)] by blast
  have g: "get_u32 (recv_into r) 20 = Some (ifi_index i)" "get_u32 (recv_into r) 0 = Some (nl_len h)"
    unfolding resp by (simp_all add: get_word_in) (simp_all add: enc_ifinfo_def enc_nlmsg_def)
  then show "get_ifid pid answer name = Some (ifi_index i)" using req assms(4) by (simp add: get_ifid_def)
  have len: "length r = 32 + length (attrs as)" using assms(5) by simp
  have "nl_len h - 32 = of_nat (length (attrs as))" unfolding assms(3) len by simp
  then have rl: "sint (nl_len h - 32) = int (length (attrs as))"
    using assms(2) len by (simp add: signed_of_nat signed_take_bit_int_eq_self)
  have sm: "\<forall>(t, p) \<in> set as. length p + 4 < 65536" using attrs_small [of _ _ as] assms(2) len by fastforce
  note f = rta_find_attrs [OF sm, of "enc_nlmsg h @ enc_ifinfo i" ?z ty, folded resp]
  show "get_iftype pid answer name ty buf buflen =
      (case find (\<lambda>(t, p). t = ty) as of
         None \<Rightarrow> Some (buf, 1)
       | Some (t, p) \<Rightarrow> if length p > unat buflen then Some (buf, -1) else do { buf \<leftarrow> mwrite buf 0 p; Some (buf, of_nat (length p)) })"
  proof (cases "find (\<lambda>(t, p). t = ty) as")
    case None
    then show ?thesis using req assms(4) g f rl by (simp add: get_iftype_def)
  next
    case (Some a)
    obtain t p where a: "a = (t, p)" by fastforce
    let ?b = "takeWhile (\<lambda>(t, p). t \<noteq> ty) as"
    have "(\<lambda>x. \<not> (case x of (t, p) \<Rightarrow> t = ty)) = (\<lambda>(t :: u16, p :: bytes). t \<noteq> ty)" by auto
    then obtain cs where "as = ?b @ (t, p) # cs" using find_split [OF Some] a by auto
    then have "attrs as = attrs ?b @ attr t p @ attrs cs" by (metis attrs_def attrs_simps(2) concat_append map_append)
    then have "recv_into r = (enc_nlmsg h @ enc_ifinfo i @ attrs ?b) @ attr t p @ (attrs cs @ ?z)" unfolding resp by simp
    then have "mread (recv_into r) (32 + length (attrs ?b) + 4) (length p) = Some p"
      using attr_read [of "enc_nlmsg h @ enc_ifinfo i @ attrs ?b" "32 + length (attrs ?b)" t p "attrs cs @ ?z"] by simp
    then show ?thesis using req assms(4) g f rl Some a by (simp add: get_iftype_def)
  qed
qed

section \<open>Properties\<close>

text \<open>
  C26. A reply that names the interface and lists its attributes is understood: \<^verbatim>\<open>get_ifid\<close> returns the index, and \<^verbatim>\<open>get_iftype\<close> copies the first
  attribute of the type asked for and returns its length, returns -1 when it is longer than the buffer and 1 when there is none.
\<close>

theorem getlink_reply:
  assumes "length name \<le> 4000" "length r \<le> 4096" "nl_len h = of_nat (length r)" "\<And>req. answer req = r"
    and "r = enc_nlmsg h @ enc_ifinfo i @ attrs as"
  shows "get_ifid pid answer name = Some (ifi_index i)
    \<and> get_iftype pid answer name ty buf buflen =
      (case find (\<lambda>(t, p). t = ty) as of
         None \<Rightarrow> Some (buf, 1)
       | Some (t, p) \<Rightarrow> if length p > unat buflen then Some (buf, -1) else do { buf \<leftarrow> mwrite buf 0 p; Some (buf, of_nat (length p)) })"
  using getlink_reply_parts [OF assms] by simp

text \<open>A reply for interface 3 with its name and hardware address.\<close>

definition sample_link :: bytes where
  "sample_link = enc_nlmsg \<lparr>nl_len = 52, nl_type = RTM_NEWLINK, nl_flags = 0, nl_seq = 1, nl_pid = 9\<rparr>
     @ enc_ifinfo \<lparr>ifi_family = AF_UNSPEC, ifi_type = 1, ifi_index = 3, ifi_flags = IFF_UP, ifi_change = 0\<rparr> @ attrs [(IFLA_IFNAME, [118, 49, 0]), (IFLA_ADDRESS, [2, 3, 4, 5, 6, 7])]"

theorem getlink_reply_witness:
  "get_ifid 9 (\<lambda>req. sample_link) [118, 49] = Some 3 \<and> get_iftype 9 (\<lambda>req. sample_link) [118, 49] IFLA_ADDRESS (replicate 6 0) 6 = Some ([2, 3, 4, 5, 6, 7], 6)"
proof -
  have l: "length sample_link = 52" by (simp add: sample_link_def align4_def)
  show ?thesis
    using getlink_reply [of "[118, 49]" sample_link "\<lparr>nl_len = 52, nl_type = RTM_NEWLINK, nl_flags = 0, nl_seq = 1, nl_pid = 9\<rparr>" "\<lambda>req. sample_link"
        "\<lparr>ifi_family = AF_UNSPEC, ifi_type = 1, ifi_index = 3, ifi_flags = IFF_UP, ifi_change = 0\<rparr>" "[(IFLA_IFNAME, [118, 49, 0]), (IFLA_ADDRESS, [2, 3, 4, 5, 6, 7])]"
        9 IFLA_ADDRESS "replicate 6 0" 6, OF _ _ _ refl sample_link_def] l
    by (simp add: mwrite_def splice_def)
qed

lemma align4_shift: "align4 (align4 n) = align4 n" "align4 (k * 4 + align4 n) = k * 4 + align4 n" "align4 (k * 4 + n) = k * 4 + align4 n"
  by (simp_all add: align4_def) presburger+

lemma attr_full: "align4 (length p) = length p \<Longrightarrow> attr t p = enc_rta (of_nat (4 + length p)) t @ p"
  by (simp add: attr_def)

lemma align4_veth:
  assumes "A = align4 (s + 1)" "D = align4 (d + 1)"
  shows "align4 (16 + 16 + (4 + (s + 1))) = 36 + A" "align4 (4 + (d + 1)) = 4 + D" "align4 (4 + 16 + (4 + D)) = 24 + D" "align4 (4 + (24 + D)) = 28 + D"
    "align4 (36 + A + 4 + 12) = 52 + A" "align4 (4 + 12 + (28 + D)) = 44 + D" "align4 (4 + (length veth + 1)) = 12" "align4 16 = 16"
  using align4_shift(3) [of 9 "s + 1"] align4_shift(3) [of 1 "d + 1"] align4_shift(2) [of 6 "d + 1"] align4_shift(2) [of 7 "d + 1"] align4_shift(2) [of 13 "s + 1"] align4_shift(2) [of 11 "d + 1"] assms
  by (simp_all add: veth_def add.commute) (simp_all add: align4_def)

text \<open>
  C27. The request for a pair of virtual interfaces is the message it is meant to be: the name of one end, and the nested attributes for the kind
  and, inside the data, the description and the name of the other end, each with its right length and padding. The length of the message counts
  the attribute of the kind twice, so that 12 zero bytes are sent behind it.
\<close>

theorem veth_request:
  assumes "length src + length dst \<le> 3900"
  shows "\<exists>h body. create_veth_pair pid src dst = Some (enc_nlmsg h @ body @ replicate 12 0) \<and> unat (nl_len h) = 16 + length body + 12
    \<and> body = enc_ifinfo \<lparr>ifi_family = AF_INET, ifi_type = 0, ifi_index = 0, ifi_flags = 0, ifi_change = 0\<rparr>
        @ attr IFLA_IFNAME (src @ [0])
        @ attr IFLA_LINKINFO (attr IFLA_INFO_KIND (veth @ [0])
            @ attr IFLA_INFO_DATA (attr 1
                (enc_ifinfo \<lparr>ifi_family = AF_UNSPEC, ifi_type = 0, ifi_index = 0, ifi_flags = 0, ifi_change = 0\<rparr> @ attr IFLA_IFNAME (dst @ [0]))))"
proof -
  define A where "A = align4 (length src + 1)"
  define D where "D = align4 (length dst + 1)"
  note al = align4_veth [OF A_def D_def]
  have AD: "length src + 1 \<le> A" "length dst + 1 \<le> D" "A < length src + 5" "D < length dst + 5"
    using align4_le [of "length src + 1"] align4_less [of "length src + 1"] align4_le [of "length dst + 1"] align4_less [of "length dst + 1"] by (simp_all add: A_def D_def)
  define h where "h = \<lparr>nl_len = of_nat (52 + A + (44 + D) - 4), nl_type = RTM_NEWLINK, nl_flags = NLM_F_REQUEST OR NLM_F_CREATE OR NLM_F_ACK OR NLM_F_EXCL, nl_seq = 1, nl_pid = pid\<rparr>"
  have "unat (of_nat (52 + A + (44 + D) - 4) :: u32) = 92 + A + D" using AD assms by (subst unat_small) simp_all
  then have l: "unat (nl_len h) = 92 + A + D" by (simp add: h_def)
  define pa where "pa = enc_rta (of_nat (4 + (length dst + 1))) IFLA_IFNAME @ dst @ [0]"
  define i2 where "i2 = enc_ifinfo \<lparr>ifi_family = AF_UNSPEC, ifi_type = 0, ifi_index = 0, ifi_flags = 0, ifi_change = 0\<rparr>"
  have p3: "attr IFLA_IFNAME (dst @ [0]) = pa @ replicate (D - (length dst + 1)) 0" by (simp add: pa_def attr_def D_def)
  have l3: "length (i2 @ attr IFLA_IFNAME (dst @ [0])) = 20 + D" by (simp add: i2_def D_def)
  have a3: "align4 (20 + D) = 20 + D" "align4 (24 + D) = 24 + D" "align4 (40 + D) = 40 + D"
    using align4_shift(2) [of 5 "length dst + 1"] align4_shift(2) [of 6 "length dst + 1"] align4_shift(2) [of 10 "length dst + 1"] by (simp_all add: D_def)
  let ?p2 = "enc_rta (of_nat (4 + 16 + (4 + D))) 1 @ i2 @ attr IFLA_IFNAME (dst @ [0])"
  have p2: "attr 1 (i2 @ attr IFLA_IFNAME (dst @ [0])) = ?p2"
    using attr_full [of "i2 @ attr IFLA_IFNAME (dst @ [0])" 1, unfolded l3, OF a3(1)] by simp
  have l2: "length ?p2 = 24 + D" using l3 by simp
  have p1: "attr IFLA_INFO_DATA ?p2 = enc_rta (of_nat (4 + (24 + D))) IFLA_INFO_DATA @ ?p2"
    using attr_full [of ?p2 IFLA_INFO_DATA, unfolded l2, OF a3(2)] by simp
  have k: "attr IFLA_INFO_KIND (veth @ [0]) = enc_rta (of_nat (4 + (length veth + 1))) IFLA_INFO_KIND @ (veth @ [0]) @ replicate 3 0"
    by (simp add: attr_def veth_def align4_def)
  let ?p0 = "attr IFLA_INFO_KIND (veth @ [0]) @ enc_rta (of_nat (4 + (24 + D))) IFLA_INFO_DATA @ ?p2"
  have "length (attr IFLA_INFO_KIND (veth @ [0])) = 12" by (simp add: veth_def align4_def)
  then have l0: "length ?p0 = 40 + D" using l2 by (simp del: length_attr)
  have p0: "attr IFLA_LINKINFO ?p0 = enc_rta (of_nat (4 + 12 + (28 + D))) IFLA_LINKINFO @ ?p0"
    using attr_full [of ?p0 IFLA_LINKINFO, unfolded l0, OF a3(3)] by simp
  have i2: "length i2 = 16" by (simp add: i2_def)
  have p4: "attr IFLA_IFNAME (src @ [0]) = enc_rta (of_nat (4 + (length src + 1))) IFLA_IFNAME @ (src @ [0]) @ replicate (A - (length src + 1)) 0"
    by (simp add: attr_def A_def)
  have z: "replicate (12 + D - (length dst + 1)) (0 :: u8) = replicate (D - (length dst + 1)) 0 @ replicate 12 0" using AD by (simp flip: replicate_add)
  show ?thesis
    unfolding create_veth_pair_def Let_def al h_def [symmetric] i2_def [symmetric] p2 p1 p0 unfolding p3 p4 k using AD assms z
    by (intro exI [of _ h] exI conjI, subst nl_request_layout) (simp_all add: l pa_def veth_def i2)
qed

theorem veth_request_witness:
  "\<exists>sent. create_veth_pair 9 [118, 49] [118, 50] = Some sent \<and> length sent = 100"
proof -
  have "align4 3 = 4" by (simp add: align4_def)
  then show ?thesis using veth_request [of "[118, 49]" "[118, 50]" 9] by (force simp: veth_def align4_def)
qed

end
