(* ===== verification/Sockets.thy ===== *)
theory Sockets
  imports Prelude
begin

unbundle bit_operations_syntax

text \<open>
  Opening and closing the sockets: \<^verbatim>\<open>src/xdp_open.c\<close>, \<^verbatim>\<open>src/eth_open.c\<close> with its string copy, \<^verbatim>\<open>src/eth_close.c\<close>, \<^verbatim>\<open>src/eth_send.c\<close> and the loop of
  \<^verbatim>\<open>src/recv_filtered.c\<close>. What the system calls return is a parameter, a record with a field for every call; what the
  functions hold of the system is a list of resources, which a successful call extends and a release shortens.
\<close>

section \<open>Resources\<close>

datatype resource = Heap | Fd i32 | Mapping ptr u64

abbreviation (input) MAP_FAILED :: ptr where "MAP_FAILED \<equiv> -1"

text \<open>An allocation that fails, a negative descriptor and \<^verbatim>\<open>MAP_FAILED\<close> are not resources.\<close>

definition acquire_fd :: "i32 \<Rightarrow> resource list \<Rightarrow> resource list" where
  "acquire_fd fd held = (if sint fd < 0 then held else Fd fd # held)"

definition mmap :: "ptr \<Rightarrow> u64 \<Rightarrow> resource list \<Rightarrow> resource list" where
  "mmap p len held = (if p = MAP_FAILED then held else Mapping p len # held)"

abbreviation munmap :: "ptr \<Rightarrow> u64 \<Rightarrow> resource list \<Rightarrow> resource list" where
  "munmap p len \<equiv> remove1 (Mapping p len)"

abbreviation close_fd :: "i32 \<Rightarrow> resource list \<Rightarrow> resource list" where
  "close_fd fd \<equiv> remove1 (Fd fd)"

abbreviation free_heap :: "resource list \<Rightarrow> resource list" where
  "free_heap \<equiv> remove1 Heap"

section \<open>The AF\_XDP socket\<close>

record xdp_ring_offset =
  ro_producer :: u64
  ro_consumer :: u64
  ro_desc :: u64

record xdp_mmap_offsets =
  mo_rx :: xdp_ring_offset
  mo_tx :: xdp_ring_offset
  mo_fr :: xdp_ring_offset
  mo_cr :: xdp_ring_offset

text \<open>\<^verbatim>\<open>xdp_t\<close> as the pointers it holds.\<close>

record xdp_handle =
  xh_fd :: i32
  xh_umem :: ptr
  xh_rx_ring_mmap :: ptr
  xh_tx_ring_mmap :: ptr
  xh_fill_ring_mmap :: ptr
  xh_completion_ring_mmap :: ptr
  xh_rx_ring_consumer :: ptr
  xh_rx_ring_producer :: ptr
  xh_rx_ring :: ptr
  xh_tx_ring_consumer :: ptr
  xh_tx_ring_producer :: ptr
  xh_tx_ring :: ptr
  xh_fill_ring_consumer :: ptr
  xh_fill_ring_producer :: ptr
  xh_fill_ring :: ptr
  xh_completion_ring_consumer :: ptr
  xh_completion_ring_producer :: ptr
  xh_completion_ring :: ptr

record xdp_calls =
  xc_malloc :: bool
  xc_socket :: i32
  xc_umem :: ptr
  xc_umem_reg :: i32
  xc_rx_ring :: i32
  xc_tx_ring :: i32
  xc_fill_ring :: i32
  xc_completion_ring :: i32
  xc_getsockopt :: i32
  xc_offsets :: xdp_mmap_offsets
  xc_rx_mmap :: ptr
  xc_tx_mmap :: ptr
  xc_fill_mmap :: ptr
  xc_completion_mmap :: ptr
  xc_bind :: i32

abbreviation (input) UMEM_LEN :: u64 where "UMEM_LEN \<equiv> 4096 * 4096"
abbreviation (input) RING_DESC_SZ :: u64 where "RING_DESC_SZ \<equiv> 4096 * 16"
abbreviation (input) RING_ADDR_SZ :: u64 where "RING_ADDR_SZ \<equiv> 4096 * 8"

text \<open>The labels at the end of the function, each falling through to the next.\<close>

definition err_umem_mmap :: "xdp_calls \<Rightarrow> resource list \<Rightarrow> resource list" where
  "err_umem_mmap k held = free_heap (close_fd (xc_socket k) held)"

definition err_umem_reg :: "xdp_calls \<Rightarrow> resource list \<Rightarrow> resource list" where
  "err_umem_reg k held = err_umem_mmap k (munmap (xc_umem k) UMEM_LEN held)"

definition err_rx_ring :: "xdp_calls \<Rightarrow> resource list \<Rightarrow> resource list" where
  "err_rx_ring k held = err_umem_reg k (munmap (xc_rx_mmap k) (ro_desc (mo_rx (xc_offsets k)) + RING_DESC_SZ) held)"

definition err_tx_ring :: "xdp_calls \<Rightarrow> resource list \<Rightarrow> resource list" where
  "err_tx_ring k held = err_rx_ring k (munmap (xc_tx_mmap k) (ro_desc (mo_tx (xc_offsets k)) + RING_DESC_SZ) held)"

definition err_fr_ring :: "xdp_calls \<Rightarrow> resource list \<Rightarrow> resource list" where
  "err_fr_ring k held = err_tx_ring k (munmap (xc_fill_mmap k) (ro_desc (mo_fr (xc_offsets k)) + RING_ADDR_SZ) held)"

definition err_cr_ring :: "xdp_calls \<Rightarrow> resource list \<Rightarrow> resource list" where
  "err_cr_ring k held = err_fr_ring k (munmap (xc_completion_mmap k) (ro_desc (mo_cr (xc_offsets k)) + RING_ADDR_SZ) held)"

definition xdp_pointers :: "xdp_calls \<Rightarrow> xdp_handle" where
  "xdp_pointers k = (let o' = xc_offsets k in
     \<lparr>xh_fd = xc_socket k, xh_umem = xc_umem k, xh_rx_ring_mmap = xc_rx_mmap k, xh_tx_ring_mmap = xc_tx_mmap k,
      xh_fill_ring_mmap = xc_fill_mmap k, xh_completion_ring_mmap = xc_completion_mmap k,
      xh_rx_ring_consumer = xc_rx_mmap k + ro_consumer (mo_rx o'), xh_rx_ring_producer = xc_rx_mmap k + ro_producer (mo_rx o'), xh_rx_ring = xc_rx_mmap k + ro_desc (mo_rx o'),
      xh_tx_ring_consumer = xc_tx_mmap k + ro_consumer (mo_tx o'), xh_tx_ring_producer = xc_tx_mmap k + ro_producer (mo_tx o'), xh_tx_ring = xc_tx_mmap k + ro_desc (mo_tx o'),
      xh_fill_ring_consumer = xc_fill_mmap k + ro_consumer (mo_fr o'), xh_fill_ring_producer = xc_fill_mmap k + ro_producer (mo_fr o'), xh_fill_ring = xc_fill_mmap k + ro_desc (mo_fr o'),
      xh_completion_ring_consumer = xc_completion_mmap k + ro_consumer (mo_cr o'), xh_completion_ring_producer = xc_completion_mmap k + ro_producer (mo_cr o'),
      xh_completion_ring = xc_completion_mmap k + ro_desc (mo_cr o')\<rparr>)"

text \<open>
  The values handed to the calls are constants, but for the interface index from \<^verbatim>\<open>get_ifid\<close> in the address for \<^verbatim>\<open>bind\<close>, which only the kernel sees.
\<close>

definition xdp_open :: "xdp_calls \<Rightarrow> resource list \<Rightarrow> xdp_handle option \<times> resource list" where
  "xdp_open k held =
     (if \<not> xc_malloc k then (None, held)
      else
        let held = acquire_fd (xc_socket k) (Heap # held) in
        if sint (xc_socket k) < 0 then (None, free_heap held)
        else
          let held = mmap (xc_umem k) UMEM_LEN held in
          if xc_umem k = MAP_FAILED then (None, err_umem_mmap k held)
          else if sint (xc_umem_reg k) < 0 then (None, err_umem_reg k held)
          else if sint (xc_rx_ring k) < 0 then (None, err_umem_reg k held)
          else if sint (xc_tx_ring k) < 0 then (None, err_umem_reg k held)
          else if sint (xc_fill_ring k) < 0 then (None, err_umem_reg k held)
          else if sint (xc_completion_ring k) < 0 then (None, err_umem_reg k held)
          else if sint (xc_getsockopt k) < 0 then (None, err_umem_reg k held)
          else
            let held = mmap (xc_rx_mmap k) (ro_desc (mo_rx (xc_offsets k)) + RING_DESC_SZ) held in
            if xc_rx_mmap k = MAP_FAILED then (None, err_rx_ring k held)
            else
              let held = mmap (xc_tx_mmap k) (ro_desc (mo_tx (xc_offsets k)) + RING_DESC_SZ) held in
              if xc_tx_mmap k = MAP_FAILED then (None, err_tx_ring k held)
              else
                let held = mmap (xc_fill_mmap k) (ro_desc (mo_fr (xc_offsets k)) + RING_ADDR_SZ) held in
                if xc_fill_mmap k = MAP_FAILED then (None, err_fr_ring k held)
                else
                  let held = mmap (xc_completion_mmap k) (ro_desc (mo_cr (xc_offsets k)) + RING_ADDR_SZ) held in
                  if xc_completion_mmap k = MAP_FAILED then (None, err_cr_ring k held)
                  else if sint (xc_bind k) < 0 then (None, err_cr_ring k held)
                  else (Some (xdp_pointers k), held))"

section \<open>The packet socket\<close>

text \<open>\<^verbatim>\<open>_strlcpy\<close>: the strings are buffers; destination and source advance together.\<close>

fun strlcpy_copy :: "bytes \<Rightarrow> bytes \<Rightarrow> nat \<Rightarrow> nat \<Rightarrow> (bytes \<times> nat \<times> nat) option" where
  "strlcpy_copy dst src i 0 = Some (dst, i, 0)"
| "strlcpy_copy dst src i (Suc n) =
     do { c \<leftarrow> get_u8 src i;
          dst \<leftarrow> put_u8 dst i c;
          if c = 0 then Some (dst, i + 1, Suc n) else strlcpy_copy dst src (i + 1) n }"

function strlcpy_scan :: "bytes \<Rightarrow> nat \<Rightarrow> nat option" where
  "strlcpy_scan src i = do { c \<leftarrow> get_u8 src i; if c = 0 then Some (i + 1) else strlcpy_scan src (i + 1) }"
  by pat_completeness auto
termination by (relation "measure (\<lambda>(src, i). length src - i)") (auto simp: get_word_def mread_def split: if_splits)

declare strlcpy_scan.simps [simp del]

definition strlcpy :: "bytes \<Rightarrow> bytes \<Rightarrow> nat \<Rightarrow> (bytes \<times> nat) option" where
  "strlcpy dst src siz =
     do { (dst, i, n) \<leftarrow> strlcpy_copy dst src 0 (siz - 1);
          if n = 0
          then do { dst \<leftarrow> (if siz \<noteq> 0 then put_u8 dst i 0 else Some dst);
                    s \<leftarrow> strlcpy_scan src i;
                    Some (dst, s - 1) }
          else Some (dst, i - 1) }"

record eth_handle =
  eth_fd :: i32
  eth_ifr_name :: bytes
  eth_sll_protocol :: u16
  eth_sll_ifindex :: i32

record eth_calls =
  ec_calloc :: bool
  ec_socket :: i32
  ec_ioctl :: i32
  ec_ifindex :: i32
  ec_bind :: i32
  ec_getfl :: i32
  ec_setfl :: i32

definition eth_close :: "eth_handle option \<Rightarrow> resource list \<Rightarrow> resource list" where
  "eth_close eth held =
     (case eth of None \<Rightarrow> held | Some e \<Rightarrow> free_heap (if sint (eth_fd e) \<ge> 0 then close_fd (eth_fd e) held else held))"

text \<open>
  The other fields of the address are constants. The result of \<^verbatim>\<open>setsockopt\<close> decides only about a message.
\<close>

definition eth_open :: "eth_calls \<Rightarrow> bytes option \<Rightarrow> resource list \<Rightarrow> (eth_handle option \<times> resource list) option" where
  "eth_open k device held =
     (case device of
        None \<Rightarrow> Some (None, held)
      | Some dev \<Rightarrow>
          if \<not> ec_calloc k then Some (None, held)
          else
            let eth = \<lparr>eth_fd = ec_socket k, eth_ifr_name = replicate 16 0, eth_sll_protocol = 0, eth_sll_ifindex = 0\<rparr>;
                held = acquire_fd (ec_socket k) (Heap # held)
            in if sint (ec_socket k) < 1 then Some (None, eth_close (Some eth) held)
               else
                 do { (name, n) \<leftarrow> strlcpy (eth_ifr_name eth) dev 16;
                      let eth = eth\<lparr>eth_ifr_name := name\<rparr>;
                      if sint (ec_ioctl k) < 0 then Some (None, eth_close (Some eth) held)
                      else
                        let eth = eth\<lparr>eth_sll_protocol := htons 0x0800, eth_sll_ifindex := ec_ifindex k\<rparr> in
                        if sint (ec_bind k) < 0 then Some (None, eth_close (Some eth) held)
                        else if sint (ec_getfl k) < 0 then Some (None, eth_close (Some eth) held)
                        else if sint (ec_setfl k) < 0 then Some (None, eth_close (Some eth) held)
                        else Some (Some eth, held) })"

text \<open>\<open>sendto\<close> is what that call returns for the address and the bytes.\<close>

definition eth_send :: "(eth_handle \<Rightarrow> bytes \<Rightarrow> i64) \<Rightarrow> eth_handle option \<Rightarrow> bytes option \<Rightarrow> u64 \<Rightarrow> (eth_handle option \<times> i64) option" where
  "eth_send sendto eth buf len =
     (case (eth, buf) of
        (Some e, Some b) \<Rightarrow>
          if len < 14 then Some (eth, -1)
          else do { t \<leftarrow> get_u16 b 12;
                    d \<leftarrow> mread b 0 (unat len);
                    let e = e\<lparr>eth_sll_protocol := t\<rparr>;
                    Some (Some e, sendto e d) }
      | _ \<Rightarrow> Some (eth, -1))"

text \<open>
  \<open>recvs\<close> are the results of the successive calls of \<^verbatim>\<open>recv\<close>, the bytes received or \<open>None\<close> for an error; \<open>filter'\<close> is the function
  given, on the first bytes of the buffer and the state. When the list is used up the loop still runs: \<open>None\<close>.
\<close>

fun recv_filtered :: "('s \<Rightarrow> bytes \<Rightarrow> u64 \<Rightarrow> 's \<times> bool) \<Rightarrow> bytes option list \<Rightarrow> 's \<Rightarrow> ('s \<times> bytes option list) option" where
  "recv_filtered filter' [] args = None"
| "recv_filtered filter' (None # recvs) args = recv_filtered filter' recvs args"
| "recv_filtered filter' (Some d # recvs) args =
     (if length d > 46
      then case filter' args d (of_nat (length d)) of (args, ok) \<Rightarrow> if ok then Some (args, recvs) else recv_filtered filter' recvs args
      else recv_filtered filter' recvs args)"

section \<open>Copying a name\<close>

lemma string_at: "i < length s \<Longrightarrow> get_word (Suc 0) (s @ 0 # r) i = Some (s ! i :: u8)" "get_word (Suc 0) (s @ 0 # r) (length s) = Some (0 :: u8)"
  by (simp_all add: get_word_in Cons_nth_drop_Suc [symmetric])

lemma strlcpy_scan_end:
  assumes "0 \<notin> set s" "i \<le> length s"
  shows "strlcpy_scan (s @ 0 # r) i = Some (length s + 1)"
  using assms(2)
proof (induction "length s - i" arbitrary: i)
  case 0
  then have "i = length s" by simp
  then show ?case by (subst strlcpy_scan.simps) (simp add: string_at)
next
  case (Suc n)
  then have "i < length s" by simp
  moreover from this have "s ! i \<noteq> 0" using assms(1) nth_mem by metis
  ultimately show ?case using Suc by (subst strlcpy_scan.simps) (simp add: string_at)
qed

lemma strlcpy_copy_result:
  assumes "0 \<notin> set s" "i \<le> length s" "i + n \<le> length dst"
  shows "strlcpy_copy dst (s @ 0 # r) i n =
    (if i + n \<le> length s then Some (take i dst @ take n (drop i s) @ drop (i + n) dst, i + n, 0)
     else Some (take i dst @ drop i s @ 0 # drop (length s + 1) dst, length s + 1, i + n - length s))"
  using assms(2,3)
proof (induction n arbitrary: i dst)
  case (Suc n)
  show ?case
  proof (cases "i = length s")
    case True
    then show ?thesis using Suc.prems by (simp add: string_at mwrite_def splice_def)
  next
    case False
    then have i: "i < length s" using Suc.prems(1) by simp
    let ?d = "take i dst @ s ! i # drop (i + 1) dst"
    have nz: "s ! i \<noteq> 0" using assms(1) i nth_mem by metis
    have w: "put_u8 dst i (s ! i) = Some ?d" using Suc.prems(2) by (simp add: mwrite_def splice_def)
    have t: "take (i + 1) ?d = take i dst @ [s ! i]" "drop (i + 1 + k) ?d = drop (i + 1 + k) dst" for k using Suc.prems(2) by (simp_all add: add.commute)
    have u: "take (Suc n) (drop i s) = s ! i # take n (drop (i + 1) s)" "drop i s = s ! i # drop (i + 1) s"
      using i by (simp_all add: Cons_nth_drop_Suc [symmetric])
    show ?thesis
      using Suc.IH [of "i + 1" ?d] Suc.prems i nz w t(1) t(2) [of n] t(2) [of "length s - i"] u by (simp add: string_at)
  qed
qed simp

text \<open>\<^verbatim>\<open>_strlcpy\<close> copies as much of the string as fits, terminates it and returns the length of the source.\<close>

lemma strlcpy_result:
  assumes "0 \<notin> set s" "0 < siz" "siz \<le> length dst"
  shows "strlcpy dst (s @ 0 # r) siz = Some (take (siz - 1) s @ 0 # drop (min (siz - 1) (length s) + 1) dst, length s)"
proof -
  obtain n where n: "siz = Suc n" using assms(2) by (cases siz) auto
  show ?thesis
    using strlcpy_copy_result [OF assms(1), of 0 n dst r] strlcpy_scan_end [OF assms(1), of n r] assms(3)
    by (auto simp: n strlcpy_def mwrite_def splice_def min_def)
qed

section \<open>Properties\<close>

definition all_calls_ok :: "xdp_calls \<Rightarrow> bool" where
  "all_calls_ok k \<longleftrightarrow> xc_malloc k \<and> 0 \<le> sint (xc_socket k) \<and> xc_umem k \<noteq> MAP_FAILED \<and> 0 \<le> sint (xc_umem_reg k) \<and> 0 \<le> sint (xc_rx_ring k) \<and> 0 \<le> sint (xc_tx_ring k)
     \<and> 0 \<le> sint (xc_fill_ring k) \<and> 0 \<le> sint (xc_completion_ring k) \<and> 0 \<le> sint (xc_getsockopt k) \<and> xc_rx_mmap k \<noteq> MAP_FAILED \<and> xc_tx_mmap k \<noteq> MAP_FAILED
     \<and> xc_fill_mmap k \<noteq> MAP_FAILED \<and> xc_completion_mmap k \<noteq> MAP_FAILED \<and> 0 \<le> sint (xc_bind k)"

lemmas err_labels = err_umem_mmap_def err_umem_reg_def err_rx_ring_def err_tx_ring_def err_fr_ring_def err_cr_ring_def

lemma remove1_failed: "\<forall>l. Mapping MAP_FAILED l \<notin> set held \<Longrightarrow> remove1 (Mapping MAP_FAILED l) held = held"
  by (simp add: remove1_idem)

text \<open>
  C28. \<^verbatim>\<open>xdp_open\<close> leaks nothing: it returns a handle just when every system call succeeds, holding then the descriptor and the five mappings
  of the handle; on whichever call it fails, the labels release what was acquired before and nothing else.
\<close>

theorem xdp_open_releases:
  assumes "\<forall>l. Mapping MAP_FAILED l \<notin> set held"
  shows "xdp_open k held =
    (if all_calls_ok k
     then (Some (xdp_pointers k),
       [Mapping (xc_completion_mmap k) (ro_desc (mo_cr (xc_offsets k)) + RING_ADDR_SZ), Mapping (xc_fill_mmap k) (ro_desc (mo_fr (xc_offsets k)) + RING_ADDR_SZ),
        Mapping (xc_tx_mmap k) (ro_desc (mo_tx (xc_offsets k)) + RING_DESC_SZ), Mapping (xc_rx_mmap k) (ro_desc (mo_rx (xc_offsets k)) + RING_DESC_SZ),
        Mapping (xc_umem k) UMEM_LEN, Fd (xc_socket k), Heap] @ held)
     else (None, held))"
  using assms by (auto simp: xdp_open_def all_calls_ok_def err_labels acquire_fd_def mmap_def Let_def remove1_failed)

text \<open>Calls that all succeed, and the same with the mapping of the completion ring failing.\<close>

definition sample_calls :: "ptr \<Rightarrow> xdp_calls" where
  "sample_calls cr = (let o' = \<lparr>ro_producer = 0, ro_consumer = 64, ro_desc = 128\<rparr> in
     \<lparr>xc_malloc = True, xc_socket = 5, xc_umem = 0x10000, xc_umem_reg = 0, xc_rx_ring = 0, xc_tx_ring = 0, xc_fill_ring = 0, xc_completion_ring = 0, xc_getsockopt = 0,
      xc_offsets = \<lparr>mo_rx = o', mo_tx = o', mo_fr = o', mo_cr = o'\<rparr>, xc_rx_mmap = 0x2000000, xc_tx_mmap = 0x3000000, xc_fill_mmap = 0x4000000, xc_completion_mmap = cr, xc_bind = 0\<rparr>)"

theorem xdp_open_releases_witness:
  "xdp_open (sample_calls MAP_FAILED) [Fd 3] = (None, [Fd 3]) \<and> length (snd (xdp_open (sample_calls 0x5000000) [Fd 3])) = 8"
  using xdp_open_releases [of "[Fd 3]" "sample_calls MAP_FAILED"] xdp_open_releases [of "[Fd 3]" "sample_calls 0x5000000"]
  by (simp add: all_calls_ok_def sample_calls_def Let_def)

text \<open>
  \<^verbatim>\<open>eth_open\<close> on a device name releases what it holds whenever it fails, and else returns a handle with the name, cut to 15 characters,
  and the index of the interface.
\<close>

lemma eth_open_releases:
  assumes "0 \<notin> set name" "ec_calloc k"
  shows "eth_open k (Some (name @ 0 # r)) held =
    (if 1 \<le> sint (ec_socket k) \<and> 0 \<le> sint (ec_ioctl k) \<and> 0 \<le> sint (ec_bind k) \<and> 0 \<le> sint (ec_getfl k) \<and> 0 \<le> sint (ec_setfl k)
     then Some (Some \<lparr>eth_fd = ec_socket k, eth_ifr_name = take 15 name @ 0 # replicate (15 - min 15 (length name)) 0,
       eth_sll_protocol = htons 0x0800, eth_sll_ifindex = ec_ifindex k\<rparr>, Fd (ec_socket k) # Heap # held)
     else Some (None, held))"
  using strlcpy_result [OF assms(1), of 16 "replicate 16 0" r] assms(2)
  by (auto simp: eth_open_def eth_close_def acquire_fd_def Let_def)

text \<open>\<^verbatim>\<open>recv_filtered\<close> returns at the first datagram of more than 46 bytes that the filter accepts, with the state the filter left.\<close>

lemma recv_filtered_first:
  assumes "\<And>d. Some d \<in> set pre \<Longrightarrow> length d \<le> 46" "length d > 46" "filter' args d (of_nat (length d)) = (args', True)"
  shows "recv_filtered filter' (pre @ Some d # post) args = Some (args', post)"
  using assms(1)
proof (induction pre)
  case (Cons a pre)
  show ?case
  proof (cases a)
    case (Some x)
    then have "\<not> length x > 46" using Cons.prems [of x] by simp
    then show ?thesis using Cons Some by simp
  qed (use Cons in simp)
qed (simp add: assms(2,3))

end
