(* ===== verification/Spec2Isabelle.thy ===== *)
theory Spec2Isabelle
  imports Rng Ringbuf Ringtimer Umem Xdp Crc32c Rfc1321 Rfc1321_Sine Md5 Headers Checks Frames Assoc Handshake Replies Protocol Transmit Client Data Legacy Tcp Netlink Sockets
begin

text \<open>
  \<^bold>\<open>libkpnet\<close> is a user-space SCTP stack in C for Linux. Frames are built and parsed in its own buffers and exchanged through
  AF\_XDP or packet sockets. This development models its code and proves what makes the parts correct, and where the
  code does not do what it means to, it proves what it does instead.

  \<^bold>\<open>The program.\<close> At the bottom are containers: a lock-free ring of packets, a timer wheel, a stack of memory chunks with a slab allocator
  on top, and the four rings shared with the kernel. Beside them are the computations on bytes: CRC-32c, MD5 and HMAC, Internet checksums
  and random numbers. On these rest the frame builders, which put Ethernet, IPv4, SCTP and chunk headers in front of each other or complete
  a prefilled frame. The association takes free packets from one ring, answers a received frame in them and hands them to a
  second ring; its four-way handshake carries a cookie sealed with HMAC-MD5. The client creates an association over AF\_XDP,
  sends an INIT and repeats it from the timer wheel. Interfaces are set up over netlink. An older SCTP endpoint and TCP segments are in the
  sources as well.

  \<^bold>\<open>Theories.\<close> One per component, named with the files of \<^verbatim>\<open>src/src\<close> that it translates; each operation has the name of its C function.
  \<^item> \<open>Prelude\<close>: integer types, little-endian images of words, byte buffers with \<open>mread\<close> and \<open>mwrite\<close> (\<^verbatim>\<open>memcpy\<close>), byte order, index arithmetic of
    rings, and a weakest-precondition predicate \<open>ensures\<close> for the option monad with its rule collection.
  \<^item> \<open>Ringbuf\<close>: \<^verbatim>\<open>create_ringbuf\<close>, \<^verbatim>\<open>push_ringbuf\<close>, \<^verbatim>\<open>pop_ringbuf\<close>, \<^verbatim>\<open>create_allocator\<close>, \<^verbatim>\<open>free_ringbuf\<close>. The locale \<open>bounded_fifo\<close> is the contract of a
    queue; the ring is an interpretation of it, across the wrap-around of its 64-bit counters.
  \<^item> \<open>Ringtimer\<close>: \<^verbatim>\<open>create_ringtimer\<close>, \<^verbatim>\<open>insert_ringtimer\<close>, \<^verbatim>\<open>tick_ringtimer\<close> on an explicit heap of circular doubly linked lists, refined to a
    wheel of lists; the delay after which a timer fires, and the ticks that fire entries too early.
  \<^item> \<open>Umem\<close>: \<^verbatim>\<open>create_umem_stack\<close>, \<^verbatim>\<open>umem_stack_pop\<close>, \<^verbatim>\<open>umem_stack_push\<close>, \<^verbatim>\<open>slab_alloc_64b\<close>, \<^verbatim>\<open>slab_free_64b\<close>. The locale \<open>block_allocator\<close> states when blocks in use
    are disjoint; the slab is an interpretation.
  \<^item> \<open>Xdp\<close>: \<^verbatim>\<open>xdp_rx\<close>, \<^verbatim>\<open>xdp_tx\<close>, \<^verbatim>\<open>xdp_tx_sg\<close>, \<^verbatim>\<open>xdp_complete_tx\<close>, \<^verbatim>\<open>xdp_fill\<close>. The steps of the program and of the kernel meet in the locale
    \<open>xdp_channel\<close>; order and conservation of descriptors hold for every interleaving.
  \<^item> \<open>Crc32c\<close>: the three versions of \<^verbatim>\<open>generate_crc32c.c\<close> are equal and detect every change within four bytes.
  \<^item> \<open>Rfc1321\<close> is the digest of RFC 1321 written down from its text, without reference to the code, and \<open>Rfc1321_Sine\<close> proves its table of constants to be
    the integer parts of \<open>2\<^sup>3\<^sup>2 \<bar>sin i\<bar>\<close>. \<open>Md5\<close>: \<^verbatim>\<open>md5.c\<close> and \<^verbatim>\<open>hmac_md5.c\<close> against that digest and RFC 2104; the locale \<open>streaming_hash\<close> is the contract of init, update and final.
  \<^item> \<open>Rng\<close>: \<^verbatim>\<open>random.c\<close> and the draws from its buffer, refined to a buffer with a read position.
  \<^item> \<open>Headers\<close>: the structures of the headers under \<^verbatim>\<open>include\<close> with their images; the locale \<open>byte_layout\<close> gives each its round trip.
  \<^item> \<open>Checks\<close>: \<^verbatim>\<open>ip_checksum\<close>, \<^verbatim>\<open>tcp_checksum\<close>, the \<^verbatim>\<open>fix_check\<close> family and \<^verbatim>\<open>sctp_check_checksums\<close>, the last against a definition of a valid frame,
    for a frame at the beginning of a larger buffer.
  \<^item> \<open>Frames\<close>: \<^verbatim>\<open>build_*_raw\<close>, \<^verbatim>\<open>build_sctp_*_hdr\<close>, \<^verbatim>\<open>prefill_mac_ip_sctp\<close>; the frames built are valid in that sense.
  \<^item> \<open>Assoc\<close>: the association, the prefilled builders, \<^verbatim>\<open>sctp_process_sctp_*\<close>, \<^verbatim>\<open>prepare_sctp_threads\<close> and the dispatcher \<^verbatim>\<open>if_ip_sctp\<close>; definitions only.
    \<open>Handshake\<close> describes every handler on every branch, \<open>Replies\<close> the incremental IPv4 checksums of the replies, \<open>Protocol\<close> the
    reachable states, the authenticity of cookies and two associations that complete the handshake.
  \<^item> \<open>Transmit\<close>: \<^verbatim>\<open>kpnet_env_init\<close>, \<^verbatim>\<open>sctp_assoc_create\<close>, \<^verbatim>\<open>prefill_sctp_mac_ip\<close>, \<^verbatim>\<open>sctp_prepare_packet\<close>, \<^verbatim>\<open>sctp_push_to_xdp_segs\<close>, \<^verbatim>\<open>eth_send_sctp\<close> over
    the shared memory. \<open>Client\<close>: \<^verbatim>\<open>create_client\<close> on top of it, with the exact schedule of T1.
  \<^item> \<open>Data\<close>: \<^verbatim>\<open>sctp_build_data_hdr\<close> and \<^verbatim>\<open>build_prefilled_mac_ip_sctp_data_hdr\<close>.
  \<^item> \<open>Legacy\<close>: the older endpoint on \<^verbatim>\<open>connection_args_t\<close> (\<^verbatim>\<open>if_sctp\<close>, \<^verbatim>\<open>if_ipv4_sctp\<close>, \<^verbatim>\<open>build_sctp_hdr_raw\<close>), one end's packets read by the other,
    with the linked list of errors as nodes in memory.
  \<^item> \<open>Tcp\<close>: \<^verbatim>\<open>build_tcp_raw\<close> and \<^verbatim>\<open>if_ip_tcp\<close>, composed with \<^verbatim>\<open>fix_check_ip_tcp\<close> to a round trip.
  \<^item> \<open>Netlink\<close>: the bytes of every request and the search through the attributes of a reply.
  \<^item> \<open>Sockets\<close>: \<^verbatim>\<open>xdp_open\<close>, \<^verbatim>\<open>eth_open\<close>, \<^verbatim>\<open>eth_close\<close>, \<^verbatim>\<open>eth_send\<close>, \<^verbatim>\<open>recv_filtered\<close> with the resources they hold.

  \<^bold>\<open>Conventions.\<close> Integers keep their width and wrap around. A C function is a HOL function on the state it reads, with the results and the new
  state as its value; the value \<open>None\<close> of an outer option means that the call does not return normally: a read or write outside a
  buffer, a NULL dereference or a loop that never ends. An error code or a NULL result is an ordinary value. What the code
  does not determine is a parameter: whether \<^verbatim>\<open>malloc\<close> succeeds, the results of system calls, uninitialised memory (\<open>g\<close>), the
  random bytes (\<open>random_state\<close>), the outcome of a weak compare-and-swap (\<open>cas\<close>) and the progress of the kernel on a ring (\<open>ks\<close>). The
  machine is little-endian. No fuel is used: loops are structural, have a measure, or are partial functions in the option monad
  whose return is proved (the claim loops of the ring, the loop of a tick, the walk through the list of errors) or whose steps are followed to their end
  (the jumps to \<^verbatim>\<open>flush\<close>); the lists of outcomes are consumed one per step, and an exhausted list of
  compare-and-swap outcomes succeeds.

  \<^bold>\<open>Not modelled.\<close> Output to the terminal. Memory ordering: an operation on the ring is one step, with interference by other threads only as failing
  compare-and-swaps. \<^verbatim>\<open>main\<close>, which calls the netlink requests and starts the client in a thread, and \<^verbatim>\<open>create_server\<close>, which always ends in a
  clean-up of pointers it never assigned. \<^verbatim>\<open>recv_sctp_packet\<close>, \<^verbatim>\<open>recv_packet_to_ring_buffer\<close> and \<^verbatim>\<open>eth_receive_sctp\<close>, receive loops that nothing starts.
  \<^verbatim>\<open>tcp_fill_init_hdr\<close>, \<^verbatim>\<open>tcp_get_html\<close>, \<^verbatim>\<open>fill_ipv4\<close>, \<^verbatim>\<open>build_mac_client_raw\<close> and \<^verbatim>\<open>arp_fill_eth\<close>, fillers that nothing calls and the first three of which work on
  unassigned variables. The files whose bodies are commented out: \<^verbatim>\<open>if_tcp\<close>, \<^verbatim>\<open>if_ipv4_tcp\<close>, the \<^verbatim>\<open>build_tcp_*_hdr\<close>, \<^verbatim>\<open>tcp_make_handshake\<close>, \<^verbatim>\<open>xdp_send\<close>.
\<close>

end
